(* ===== verification/Prelude.thy ===== *)
theory Prelude
  imports Main "HOL-Library.Word"
begin

text \<open>
  Shared vocabulary of the development: the fixed-width types of the program, the outcome of
  running Go code (a value, a run-time panic, or a model loop that ran out of fuel), Go slices with
  their capacity, big-endian byte strings and the generic lemmas the components use.
\<close>

section \<open>Proof collections\<close>

named_theorems go_simps \<open>evaluation of the outcome type\<close>
named_theorems fork_defs \<open>definitions unfolded to evaluate a concrete input\<close>

section \<open>Fixed-width types\<close>

text \<open>
  \<open>[32]byte\<close> and \<open>[20]byte\<close> are words: the code compares them, turns them into byte slices and
  builds them from byte slices, and never looks at a single element.
\<close>

type_synonym byte = "8 word"
type_synonym bytes = "8 word list"
type_synonym u32 = "32 word"
type_synonym u64 = "64 word"
type_synonym hash = "256 word"
type_synonym address = "160 word"

section \<open>Outcomes of Go code\<close>

text \<open>
  \<open>Panic\<close> is a Go run-time panic (nil dereference, slice bounds, an explicit \<open>panic\<close>): nothing in
  the program recovers from one, so it ends the whole transition. \<open>NoFuel\<close> is not a behaviour of the
  program: a bounded model loop returns it when its bound was too small.
\<close>

datatype 'a go = Ret 'a | Panic | NoFuel

definition bnd :: "'a go \<Rightarrow> ('a \<Rightarrow> 'b go) \<Rightarrow> 'b go" where
  "bnd m f = (case m of Ret x \<Rightarrow> f x | Panic \<Rightarrow> Panic | NoFuel \<Rightarrow> NoFuel)"

text \<open>Following a pointer that may be nil.\<close>

definition deref :: "'a option \<Rightarrow> 'a go" where
  "deref p = (case p of None \<Rightarrow> Panic | Some x \<Rightarrow> Ret x)"

lemma bnd_simps [simp, go_simps]:
  "bnd (Ret x) f = f x" "bnd Panic f = Panic" "bnd NoFuel f = NoFuel"
  by (simp_all add: bnd_def)

lemma deref_simps [simp, go_simps]: "deref (Some x) = Ret x" "deref None = Panic"
  by (simp_all add: deref_def)

lemma bnd_eq_Ret: "bnd m f = Ret y \<longleftrightarrow> (\<exists>x. m = Ret x \<and> f x = Ret y)"
  by (cases m) simp_all

lemma bnd_RetE:
  assumes "bnd m f = Ret y"
  obtains x where "m = Ret x" and "f x = Ret y"
  using assms by (auto simp: bnd_eq_Ret)

lemma bnd_neq_NoFuel:
  assumes "m \<noteq> NoFuel" and "\<And>x. m = Ret x \<Longrightarrow> f x \<noteq> NoFuel"
  shows "bnd m f \<noteq> NoFuel"
  using assms by (cases m) simp_all

lemma deref_neq_NoFuel [simp]: "deref p \<noteq> NoFuel"
  by (cases p) simp_all

lemma deref_eq_Ret [simp]: "deref p = Ret x \<longleftrightarrow> p = Some x"
  by (cases p) simp_all

text \<open>
  Partial correctness of an outcome: its value, if there is one, satisfies \<open>Q\<close>. The rules push it
  through \<open>bnd\<close>, so that a postcondition of a composed operation splits into its parts.
\<close>

definition post :: "'a go \<Rightarrow> ('a \<Rightarrow> bool) \<Rightarrow> bool" where
  "post m Q \<longleftrightarrow> (\<forall>x. m = Ret x \<longrightarrow> Q x)"

lemma post_simps [simp]: "post (Ret x) Q = Q x" "post Panic Q" "post NoFuel Q"
  by (simp_all add: post_def)

lemma post_bnd [simp]: "post (bnd m f) Q \<longleftrightarrow> post m (\<lambda>x. post (f x) Q)"
  by (cases m) simp_all

lemma post_if [simp]: "post (if b then m else n) Q \<longleftrightarrow> (b \<longrightarrow> post m Q) \<and> (\<not> b \<longrightarrow> post n Q)"
  by simp

lemma post_prod: "post (case p of (x, y) \<Rightarrow> f x y) Q \<longleftrightarrow> (\<forall>x y. p = (x, y) \<longrightarrow> post (f x y) Q)"
  by (cases p) simp

lemma postD: "post m Q \<Longrightarrow> m = Ret x \<Longrightarrow> Q x"
  by (simp add: post_def)

lemma post_mono: "post m P \<Longrightarrow> (\<And>x. m = Ret x \<Longrightarrow> P x \<Longrightarrow> Q x) \<Longrightarrow> post m Q"
  by (simp add: post_def)

text \<open>A model loop ran out of fuel; the rules push it through composed operations.\<close>

definition nofuel :: "'a go \<Rightarrow> bool" where
  "nofuel m \<longleftrightarrow> m = NoFuel"

lemma nofuel_bnd [simp]: "nofuel (bnd m f) \<longleftrightarrow> nofuel m \<or> (\<exists>x. m = Ret x \<and> nofuel (f x))"
  by (cases m) (auto simp: nofuel_def)

lemma nofuel_simps [simp]: "\<not> nofuel (Ret x)" "\<not> nofuel Panic" "nofuel NoFuel"
  by (simp_all add: nofuel_def)

lemma nofuel_prod [simp]: "nofuel (case p of (x, y) \<Rightarrow> f x y) \<longleftrightarrow> (case p of (x, y) \<Rightarrow> nofuel (f x y))"
  by (cases p) simp

lemma nofuel_if [simp]: "nofuel (if b then m else n) \<longleftrightarrow> (if b then nofuel m else nofuel n)"
  by simp

section \<open>Machine words\<close>

lemma unat_u64: "k < 2 ^ 64 \<Longrightarrow> unat (of_nat k :: u64) = k"
  by (simp add: unat_of_nat)

lemma unat_u64_less: "unat (g :: u64) < 2 ^ 64"
  using unsigned_less [where 'a = nat and 'b = 64, of g] by simp

lemma unat_u64_sub: "h \<le> g \<Longrightarrow> unat (g - h :: u64) = unat g - unat h"
  by (simp add: unat_sub)

text \<open>The test against overflow by a division.\<close>

lemma u64_fits:
  fixes c d n :: u64
  assumes "0 < unat d"
  shows "(- 1 - c) div d < n \<longleftrightarrow> 2 ^ 64 \<le> unat c + unat n * unat d"
    and "unat c + unat n * unat d < 2 ^ 64 \<Longrightarrow> unat (c + n * d) = unat c + unat n * unat d"
proof -
  have m: "unat (- 1 - c) = 2 ^ 64 - 1 - unat c" by (simp add: unat_u64_sub unsigned_minus_1_eq_mask mask_eq_exp_minus_1)
  have "(- 1 - c) div d < n \<longleftrightarrow> (2 ^ 64 - 1 - unat c) div unat d < unat n"
    unfolding word_less_nat_alt unat_div_distrib m ..
  also have "\<dots> \<longleftrightarrow> 2 ^ 64 - 1 - unat c < unat n * unat d"
    using assms by (rule div_less_iff_less_mult)
  also have "\<dots> \<longleftrightarrow> 2 ^ 64 \<le> unat c + unat n * unat d" using unat_u64_less [of c] by linarith
  finally show "(- 1 - c) div d < n \<longleftrightarrow> 2 ^ 64 \<le> unat c + unat n * unat d" .
  assume lt: "unat c + unat n * unat d < 2 ^ 64"
  then have "unat (n * d) = unat n * unat d" by (simp add: unat_word_ariths)
  with lt show "unat (c + n * d) = unat c + unat n * unat d" by (simp add: unat_word_ariths)
qed

section \<open>Lists\<close>

text \<open>Overwriting a run of elements: what Go's \<open>copy(dst[at:], src)\<close> does when it fits.\<close>

definition list_put :: "'a list \<Rightarrow> nat \<Rightarrow> 'a list \<Rightarrow> 'a list" where
  "list_put xs at ys = take at xs @ ys @ drop (at + length ys) xs"

lemma length_list_put [simp]:
  "at + length ys \<le> length xs \<Longrightarrow> length (list_put xs at ys) = length xs"
  by (simp add: list_put_def)

lemma list_put_Nil [simp]: "list_put xs at [] = xs"
  by (simp add: list_put_def)

lemma list_put_same:
  "at + length ys \<le> length xs \<Longrightarrow> take (length ys) (drop at (list_put xs at ys)) = ys"
  by (simp add: list_put_def)

lemma list_put_below:
  "i + n \<le> at \<Longrightarrow> at + length ys \<le> length xs \<Longrightarrow>
     take n (drop i (list_put xs at ys)) = take n (drop i xs)"
  by (rule nth_equalityI) (simp_all add: list_put_def nth_append)

lemma list_put_above:
  "at + length ys \<le> i \<Longrightarrow> at + length ys \<le> length xs \<Longrightarrow>
     take n (drop i (list_put xs at ys)) = take n (drop i xs)"
  by (simp add: list_put_def min_def)

lemma nth_list_put:
  assumes "at + length ys \<le> length xs" and "i < length xs"
  shows "list_put xs at ys ! i =
    (if i < at then xs ! i else if i < at + length ys then ys ! (i - at) else xs ! i)"
  using assms by (auto simp: list_put_def nth_append min_def)

section \<open>Big-endian byte strings\<close>

primrec be_bytes :: "nat \<Rightarrow> nat \<Rightarrow> bytes" where
  "be_bytes 0 x = []"
| "be_bytes (Suc n) x = be_bytes n (x div 256) @ [of_nat x]"

definition be_nat :: "bytes \<Rightarrow> nat" where
  "be_nat bs = foldl (\<lambda>n b. n * 256 + unat b) 0 bs"

lemma length_be_bytes [simp]: "length (be_bytes n x) = n"
  by (induction n arbitrary: x) simp_all

lemma be_nat_Nil [simp]: "be_nat [] = 0"
  by (simp add: be_nat_def)

lemma be_nat_snoc [simp]: "be_nat (bs @ [b]) = be_nat bs * 256 + unat b"
  by (simp add: be_nat_def)

lemma unat_byte_less [simp]: "unat (b :: byte) < 256"
  using unsigned_less [where 'a = nat and 'b = 8, of b] by simp

lemma unat_of_nat_byte: "unat (of_nat x :: byte) = x mod 256"
  by (simp add: unat_of_nat)

lemma be_nat_append: "be_nat (xs @ ys) = be_nat xs * 256 ^ length ys + be_nat ys"
proof (induction ys rule: rev_induct)
  case Nil
  then show ?case by simp
next
  case (snoc y ys)
  have "be_nat (xs @ ys @ [y]) = be_nat ((xs @ ys) @ [y])" by simp
  also have "\<dots> = (be_nat xs * 256 ^ length ys + be_nat ys) * 256 + unat y"
    by (simp only: be_nat_snoc snoc.IH)
  finally show ?case by (simp add: algebra_simps)
qed

lemma be_nat_Cons: "be_nat (b # bs) = unat b * 256 ^ length bs + be_nat bs"
  using be_nat_append [of "[b]" bs] by (simp add: be_nat_def)

lemma be_nat_less: "be_nat bs < 256 ^ length bs"
proof (induction bs rule: rev_induct)
  case Nil
  then show ?case by simp
next
  case (snoc b bs)
  have "n * 256 + c < P * 256" if "n < P" "c < 256" for n c P :: nat
    using that by arith
  from this [OF snoc.IH unat_byte_less [of b]] show ?case
    by (simp add: mult.commute)
qed

lemma be_nat_replicate_0 [simp]: "be_nat (replicate n 0 @ bs) = be_nat bs"
  by (induction n) (simp_all add: be_nat_Cons)

lemma be_nat_zeros [simp]: "be_nat (replicate n 0) = 0"
  using be_nat_replicate_0 [of n "[]"] by simp

lemma be_nat_be_bytes: "be_nat (be_bytes n x) = x mod 256 ^ n"
proof (induction n arbitrary: x)
  case 0
  then show ?case by simp
next
  case (Suc n)
  have "x mod 256 ^ Suc n = (x div 256) mod 256 ^ n * 256 + x mod 256"
    by (metis mod_mult2_eq mult.commute power_Suc add.commute)
  then show ?case by (simp add: Suc.IH unat_of_nat_byte)
qed

lemma of_nat_byte_unat [simp]: "(of_nat (n * 256 + unat b) :: byte) = b"
  by (rule word_unat_eq_iff [THEN iffD2]) (simp add: unat_of_nat del: of_nat_add of_nat_mult)

lemma be_bytes_be_nat: "be_bytes (length bs) (be_nat bs) = bs"
proof (induction bs rule: rev_induct)
  case Nil
  then show ?case by simp
next
  case (snoc b bs)
  have "(be_nat bs * 256 + unat b) div 256 = be_nat bs" by simp
  with snoc show ?case by (simp del: of_nat_add of_nat_mult)
qed

lemma be_bytes_0: "be_bytes n 0 = replicate n 0"
  by (induction n) (simp_all add: replicate_append_same)

lemma be_bytes_add:
  "be_bytes (m + n) x = be_bytes m (x div 256 ^ n) @ be_bytes n x"
  by (induction n arbitrary: x) (simp_all add: div_mult2_eq)

lemma be_bytes_pad:
  assumes "x < 256 ^ n"
  shows "be_bytes (m + n) x = replicate m 0 @ be_bytes n x"
  using assms by (simp add: be_bytes_add be_bytes_0)

lemma be_nat_drop_mod:
  assumes "n \<le> length bs"
  shows "be_nat (drop (length bs - n) bs) = be_nat bs mod 256 ^ n"
proof -
  let ?k = "length bs - n"
  have "be_nat bs = be_nat (take ?k bs) * 256 ^ n + be_nat (drop ?k bs)"
    using assms be_nat_append [of "take ?k bs" "drop ?k bs"] by simp
  moreover have "be_nat (drop ?k bs) < 256 ^ n"
    using be_nat_less [of "drop ?k bs"] assms by simp
  ultimately show ?thesis by simp
qed

section \<open>Go slices with capacity\<close>

text \<open>
  A slice is its backing array up to the capacity and its length. The elements between length and
  capacity are not visible through the slice, but reslicing up to the capacity reveals them.
\<close>

record slice =
  s_arr :: bytes
  s_len :: nat

definition s_bytes :: "slice \<Rightarrow> bytes" where
  "s_bytes s = take (s_len s) (s_arr s)"

definition s_ok :: "slice \<Rightarrow> bool" where
  "s_ok s \<longleftrightarrow> s_len s \<le> length (s_arr s) \<and> (\<forall>b \<in> set (drop (s_len s) (s_arr s)). b = 0)"

definition s_empty :: slice where
  "s_empty = \<lparr>s_arr = [], s_len = 0\<rparr>"

text \<open>\<open>s[lo:hi]\<close> panics unless \<open>lo \<le> hi \<le> cap(s)\<close>; \<open>s[lo:]\<close> is \<open>s[lo:len(s)]\<close>.\<close>

definition s_sub :: "slice \<Rightarrow> nat \<Rightarrow> nat \<Rightarrow> bytes go" where
  "s_sub s lo hi =
     (if lo \<le> hi \<and> hi \<le> length (s_arr s) then Ret (take (hi - lo) (drop lo (s_arr s))) else Panic)"

text \<open>
  \<open>copy(s[lo:hi], src)\<close>: the bounds are those of \<open>s[lo:hi]\<close>, and at most \<open>hi - lo\<close> bytes of the
  source are written.
\<close>

definition s_copy :: "slice \<Rightarrow> nat \<Rightarrow> nat \<Rightarrow> bytes \<Rightarrow> slice go" where
  "s_copy s lo hi src =
     (if lo \<le> hi \<and> hi \<le> length (s_arr s)
      then Ret (s\<lparr>s_arr := list_put (s_arr s) lo (take (hi - lo) src)\<rparr>) else Panic)"

lemma s_ok_empty [simp]: "s_ok s_empty" "s_bytes s_empty = []" "s_len s_empty = 0"
  by (simp_all add: s_ok_def s_empty_def s_bytes_def)

lemma length_s_bytes: "s_ok s \<Longrightarrow> length (s_bytes s) = s_len s"
  by (simp add: s_ok_def s_bytes_def)

lemma s_sub_bytes:
  "s_ok s \<Longrightarrow> lo + n \<le> s_len s \<Longrightarrow> s_sub s lo (lo + n) = Ret (take n (drop lo (s_bytes s)))"
  by (simp add: s_ok_def s_bytes_def s_sub_def take_drop min_def add.commute)

lemma s_copy_bytes:
  assumes "s_ok s" and "hi \<le> s_len s" and "lo \<le> hi"
  shows "\<exists>s'. s_copy s lo hi src = Ret s' \<and> s_ok s' \<and> s_len s' = s_len s \<and>
    s_bytes s' = list_put (s_bytes s) lo (take (hi - lo) src)"
proof -
  let ?ys = "take (hi - lo) src"
  have le: "lo + length ?ys \<le> s_len s" using assms by simp
  have "drop (s_len s) (list_put (s_arr s) lo ?ys) = drop (s_len s) (s_arr s)"
    using le assms(1) by (intro nth_equalityI) (simp_all add: s_ok_def nth_list_put)
  moreover have "take (s_len s) (list_put (s_arr s) lo ?ys) = list_put (s_bytes s) lo ?ys"
    using le assms(1)
    by (intro nth_equalityI) (auto simp: s_ok_def s_bytes_def nth_list_put)
  ultimately show ?thesis
    using assms le by (simp add: s_copy_def s_ok_def s_bytes_def)
qed

end
