(* ===== verification/Big_Int.thy ===== *)
theory Big_Int
  imports Prelude
begin

text \<open>
  The part of Go's \<open>math/big\<close> the program uses, on unbounded integers: bit length, the magnitude as
  bytes and as 64-bit limbs, the truncating conversions \<open>Uint64\<close> and \<open>Int64\<close>, and the Euclidean
  division of \<open>Div\<close> and \<open>Mod\<close>.
\<close>

unbundle bit_operations_syntax

fun bitlen :: "nat \<Rightarrow> nat" where
  "bitlen n = (if n = 0 then 0 else Suc (bitlen (n div 2)))"

declare bitlen.simps [simp del]

fun nat_limbs :: "nat \<Rightarrow> u64 list" where
  "nat_limbs n = (if n = 0 then [] else of_nat n # nat_limbs (n div 2 ^ 64))"

declare nat_limbs.simps [simp del]

definition big_BitLen :: "int \<Rightarrow> nat" where
  "big_BitLen x = bitlen (nat \<bar>x\<bar>)"

definition big_Bytes :: "int \<Rightarrow> bytes" where
  "big_Bytes x = be_bytes ((big_BitLen x + 7) div 8) (nat \<bar>x\<bar>)"

definition big_SetBytes :: "bytes \<Rightarrow> int" where
  "big_SetBytes bs = int (be_nat bs)"

definition big_Bits :: "int \<Rightarrow> u64 list" where
  "big_Bits x = nat_limbs (nat \<bar>x\<bar>)"

definition big_Uint64 :: "int \<Rightarrow> u64" where
  "big_Uint64 x = of_int \<bar>x\<bar>"

text \<open>\<open>Int64\<close> gives the low 64 bits of the magnitude, negated for a negative number; \<open>sint\<close> reads it.\<close>

definition big_Int64 :: "int \<Rightarrow> 64 word" where
  "big_Int64 x = (if x < 0 then - of_int \<bar>x\<bar> else of_int \<bar>x\<bar>)"

definition big_IsUint64 :: "int \<Rightarrow> bool" where
  "big_IsUint64 x \<longleftrightarrow> 0 \<le> x \<and> x < 2 ^ 64"

definition big_IsInt64 :: "int \<Rightarrow> bool" where
  "big_IsInt64 x \<longleftrightarrow> - (2 ^ 63) \<le> x \<and> x < 2 ^ 63"

definition big_Div :: "int \<Rightarrow> int \<Rightarrow> int" where
  "big_Div a b = (if 0 < b then a div b else - (a div (- b)))"

definition big_Mod :: "int \<Rightarrow> int \<Rightarrow> int" where
  "big_Mod a b = a mod \<bar>b\<bar>"

section \<open>Bit length and limbs\<close>

lemma bitlen_le_iff: "bitlen n \<le> k \<longleftrightarrow> n < 2 ^ k"
proof (induction n arbitrary: k rule: bitlen.induct)
  case (1 n)
  show ?case
  proof (cases "n = 0")
    case True
    then show ?thesis by (simp add: bitlen.simps)
  next
    case False
    note IH = "1.IH" [OF False]
    show ?thesis
    proof (cases k)
      case 0
      with False show ?thesis by (simp add: bitlen.simps [of n])
    next
      case (Suc j)
      have "bitlen n \<le> k \<longleftrightarrow> bitlen (n div 2) \<le> j"
        using False Suc by (simp add: bitlen.simps [of n])
      also have "\<dots> \<longleftrightarrow> n div 2 < 2 ^ j" by (rule IH)
      also have "\<dots> \<longleftrightarrow> n < 2 ^ k" using Suc by auto
      finally show ?thesis .
    qed
  qed
qed

lemma big_BitLen_le_iff: "0 \<le> x \<Longrightarrow> big_BitLen x \<le> k \<longleftrightarrow> x < 2 ^ k"
  by (simp add: big_BitLen_def bitlen_le_iff nat_less_iff)

lemma big_BitLen_gt_iff: "0 \<le> x \<Longrightarrow> k < big_BitLen x \<longleftrightarrow> 2 ^ k \<le> x"
  using big_BitLen_le_iff [of x k] by linarith

lemma less_256_pow_bytes: "n < 256 ^ ((bitlen n + 7) div 8)"
proof -
  have "n < 2 ^ bitlen n" using bitlen_le_iff [of n "bitlen n"] by simp
  also have "(2 :: nat) ^ bitlen n \<le> 2 ^ (8 * ((bitlen n + 7) div 8))"
    by (intro power_increasing) auto
  also have "\<dots> = 256 ^ ((bitlen n + 7) div 8)"
    by (simp add: power_mult)
  finally show ?thesis .
qed

lemma be_nat_big_Bytes [simp]: "be_nat (big_Bytes x) = nat \<bar>x\<bar>"
  by (simp add: big_Bytes_def be_nat_be_bytes big_BitLen_def less_256_pow_bytes)

lemma big_SetBytes_Bytes [simp]: "big_SetBytes (big_Bytes x) = \<bar>x\<bar>"
  by (simp add: big_SetBytes_def)

lemma big_SetBytes_ge_0 [simp]: "0 \<le> big_SetBytes bs"
  by (simp add: big_SetBytes_def)

lemma big_SetBytes_less: "length bs \<le> n \<Longrightarrow> big_SetBytes bs < 256 ^ n"
proof -
  assume "length bs \<le> n"
  then have "(256 :: nat) ^ length bs \<le> 256 ^ n" by (intro power_increasing) auto
  with be_nat_less [of bs] have "be_nat bs < 256 ^ n" by linarith
  then show "big_SetBytes bs < 256 ^ n"
    unfolding big_SetBytes_def by (metis of_nat_less_iff of_nat_numeral of_nat_power)
qed

section \<open>Conversions to machine integers\<close>

lemma unat_big_Uint64: "0 \<le> x \<Longrightarrow> x < 2 ^ 64 \<Longrightarrow> unat (big_Uint64 x) = nat x"
  by (simp add: big_Uint64_def unsigned_of_int take_bit_int_eq_self)

lemma uint_big_Uint64: "big_IsUint64 x \<Longrightarrow> uint (big_Uint64 x) = x"
  by (simp add: big_Uint64_def big_IsUint64_def unsigned_of_int take_bit_int_eq_self)

lemma big_Uint64_of_nat: "big_Uint64 (int n) = of_nat n"
  by (simp add: big_Uint64_def)

lemma big_Int64_small: "0 \<le> x \<Longrightarrow> x < 2 ^ 63 \<Longrightarrow> sint (big_Int64 x) = x"
  by (simp add: big_Int64_def signed_of_int signed_take_bit_int_eq_self)

lemma big_Div_nonneg [simp]: "0 < b \<Longrightarrow> big_Div a b = a div b"
  by (simp add: big_Div_def)

lemma big_Mod_nonneg [simp]: "0 < b \<Longrightarrow> big_Mod a b = a mod b"
  by (simp add: big_Mod_def)

text \<open>\<open>Div\<close> and \<open>Mod\<close> are the Euclidean division the package documents.\<close>

lemma big_Div_Mod_euclid:
  "b \<noteq> 0 \<Longrightarrow> a = b * big_Div a b + big_Mod a b \<and> 0 \<le> big_Mod a b \<and> big_Mod a b < \<bar>b\<bar>"
  using mult_div_mod_eq [of b a] mult_div_mod_eq [of "- b" a]
  by (cases "0 < b") (simp_all add: big_Div_def big_Mod_def)

end
