(* ===== verification/Types.thy ===== *)
theory Types
  imports Big_Int
begin

text \<open>
  Package \<open>types\<close> and the hex helpers: the fixed-size \<open>Hash\<close> and \<open>Address\<close> arrays, their conversions
  from byte slices (copied right-aligned, truncated to the last bytes) and from hex strings.
\<close>

section \<open>Hash and Address\<close>

definition Hash_Bytes :: "hash \<Rightarrow> bytes" where
  "Hash_Bytes h = be_bytes 32 (unat h)"

definition Address_Bytes :: "address \<Rightarrow> bytes" where
  "Address_Bytes a = be_bytes 20 (unat a)"

text \<open>The array \<open>[n]byte\<close> that starts as zeros and receives the last bytes of the slice at its end.\<close>

definition right_align :: "nat \<Rightarrow> bytes \<Rightarrow> bytes" where
  "right_align n b = (let m = min (length b) n in list_put (replicate n 0) (n - m) (drop (length b - m) b))"

definition BytesToHash :: "bytes \<Rightarrow> hash" where
  "BytesToHash b = of_nat (be_nat (right_align 32 b))"

definition BytesToAddress :: "bytes \<Rightarrow> address" where
  "BytesToAddress b = of_nat (be_nat (right_align 20 b))"

section \<open>Hex strings\<close>

definition fromHexChar :: "char \<Rightarrow> nat option" where
  "fromHexChar c =
     (let n = of_char c :: nat in
      if 48 \<le> n \<and> n \<le> 57 then Some (n - 48)
      else if 97 \<le> n \<and> n \<le> 102 then Some (n - 87)
      else if 65 \<le> n \<and> n \<le> 70 then Some (n - 55)
      else None)"

definition toHexChar :: "nat \<Rightarrow> char" where
  "toHexChar d = char_of (if d < 10 then d + 48 else d + 87)"

text \<open>\<open>hex.DecodeString\<close>: the bytes before the first bad pair, and whether the whole string was good.\<close>

fun hex_DecodeString :: "string \<Rightarrow> bytes \<times> bool" where
  "hex_DecodeString [] = ([], True)"
| "hex_DecodeString [c] = ([], False)"
| "hex_DecodeString (c # d # s) =
     (case (fromHexChar c, fromHexChar d) of
        (Some a, Some b) \<Rightarrow>
          (let (bs, ok) = hex_DecodeString s in (of_nat (16 * a + b) # bs, ok))
      | _ \<Rightarrow> ([], False))"

fun hex_EncodeToString :: "bytes \<Rightarrow> string" where
  "hex_EncodeToString [] = []"
| "hex_EncodeToString (b # bs) =
     toHexChar (unat b div 16) # toHexChar (unat b mod 16) # hex_EncodeToString bs"

definition trim_0x :: "string \<Rightarrow> string" where
  "trim_0x s = (if take 2 s = ''0x'' then drop 2 s else s)"

definition EncodeToHex :: "bytes \<Rightarrow> string" where
  "EncodeToHex b = ''0x'' @ hex_EncodeToString b"

definition DecodeHex :: "string \<Rightarrow> bytes \<times> bool" where
  "DecodeHex s = hex_DecodeString (trim_0x s)"

definition MustDecodeHex :: "string \<Rightarrow> bytes go" where
  "MustDecodeHex s = (let (buf, ok) = DecodeHex s in if ok then Ret buf else Panic)"

definition stringToBytes :: "string \<Rightarrow> bytes" where
  "stringToBytes str =
     (let s = trim_0x str; s = (if length s mod 2 = 1 then CHR ''0'' # s else s)
      in fst (hex_DecodeString s))"

definition StringToHash :: "string \<Rightarrow> hash" where
  "StringToHash s = BytesToHash (stringToBytes s)"

definition StringToAddress :: "string \<Rightarrow> address" where
  "StringToAddress s = BytesToAddress (stringToBytes s)"

definition Hash_String :: "hash \<Rightarrow> string" where
  "Hash_String h = ''0x'' @ hex_EncodeToString (Hash_Bytes h)"

definition Address_String :: "address \<Rightarrow> string" where
  "Address_String a = ''0x'' @ hex_EncodeToString (Address_Bytes a)"

definition Hash_UnmarshalText :: "string \<Rightarrow> hash" where
  "Hash_UnmarshalText input = BytesToHash (stringToBytes input)"

text \<open>\<open>None\<close> is the error \<open>incorrect length\<close>.\<close>

definition Address_UnmarshalText :: "string \<Rightarrow> address option" where
  "Address_UnmarshalText input =
     (let buf = stringToBytes input in
      if length buf \<noteq> 20 then None else Some (BytesToAddress buf))"

definition Hash_MarshalText :: "hash \<Rightarrow> string" where
  "Hash_MarshalText h = Hash_String h"

definition Address_MarshalText :: "address \<Rightarrow> string" where
  "Address_MarshalText a = Address_String a"

section \<open>Conversions are inverse to each other\<close>

lemma length_Hash_Bytes [simp]: "length (Hash_Bytes h) = 32"
  by (simp add: Hash_Bytes_def)

lemma length_Address_Bytes [simp]: "length (Address_Bytes a) = 20"
  by (simp add: Address_Bytes_def)

lemma length_right_align [simp]: "length (right_align n b) = n"
  by (simp add: right_align_def Let_def list_put_def)

lemma right_align_short:
  "length b \<le> n \<Longrightarrow> right_align n b = replicate (n - length b) 0 @ b"
  by (simp add: right_align_def list_put_def min_def)

lemma right_align_long:
  "n \<le> length b \<Longrightarrow> right_align n b = drop (length b - n) b"
  by (simp add: right_align_def list_put_def min_def)

lemma be_nat_right_align: "be_nat (right_align n b) = be_nat b mod 256 ^ n"
proof (cases "length b \<le> n")
  case True
  then have "(256 :: nat) ^ length b \<le> 256 ^ n" by (intro power_increasing) auto
  with be_nat_less [of b] have "be_nat b < 256 ^ n" by linarith
  with True show ?thesis by (simp add: right_align_short)
next
  case False
  then show ?thesis by (simp add: right_align_long be_nat_drop_mod)
qed

lemma BytesToHash_eq: "BytesToHash b = of_nat (be_nat b)"
  by (rule word_unat_eq_iff [THEN iffD2])
    (simp add: BytesToHash_def be_nat_right_align unat_of_nat)

lemma BytesToAddress_eq: "BytesToAddress b = of_nat (be_nat b)"
  by (rule word_unat_eq_iff [THEN iffD2])
    (simp add: BytesToAddress_def be_nat_right_align unat_of_nat)

lemma unat_hash_less: "unat (h :: hash) < 256 ^ 32"
  using unsigned_less [where 'a = nat and 'b = 256, of h] by simp

lemma unat_address_less: "unat (a :: address) < 256 ^ 20"
  using unsigned_less [where 'a = nat and 'b = 160, of a] by simp

lemma be_nat_Hash_Bytes [simp]: "be_nat (Hash_Bytes h) = unat h"
  using unat_hash_less [of h] by (simp add: Hash_Bytes_def be_nat_be_bytes del: power_numeral)

lemma be_nat_Address_Bytes [simp]: "be_nat (Address_Bytes a) = unat a"
  using unat_address_less [of a] by (simp add: Address_Bytes_def be_nat_be_bytes del: power_numeral)

lemma BytesToHash_Bytes [simp]: "BytesToHash (Hash_Bytes h) = h"
  by (simp add: BytesToHash_eq)

lemma BytesToAddress_Bytes [simp]: "BytesToAddress (Address_Bytes a) = a"
  by (simp add: BytesToAddress_eq)

lemma Hash_Bytes_inject [simp]: "Hash_Bytes h = Hash_Bytes h' \<longleftrightarrow> h = h'"
  by (metis BytesToHash_Bytes)

lemma Address_Bytes_inject [simp]: "Address_Bytes a = Address_Bytes a' \<longleftrightarrow> a = a'"
  by (metis BytesToAddress_Bytes)

lemma Hash_Bytes_BytesToHash: "length b \<le> 32 \<Longrightarrow> Hash_Bytes (BytesToHash b) = right_align 32 b"
proof -
  have "unat (BytesToHash b) = be_nat (right_align 32 b)"
    by (simp add: BytesToHash_def unat_of_nat be_nat_right_align)
  then show ?thesis
    using be_bytes_be_nat [of "right_align 32 b"] by (simp add: Hash_Bytes_def)
qed

lemma Address_Bytes_BytesToAddress: "length b = 20 \<Longrightarrow> Address_Bytes (BytesToAddress b) = b"
proof -
  have "unat (BytesToAddress b) = be_nat (right_align 20 b)"
    by (simp add: BytesToAddress_def unat_of_nat be_nat_right_align)
  then show "length b = 20 \<Longrightarrow> Address_Bytes (BytesToAddress b) = b"
    using be_bytes_be_nat [of "right_align 20 b"] by (simp add: Address_Bytes_def right_align_long)
qed

lemma Hash_Address_Bytes_distinct [simp]:
  "Address_Bytes a \<noteq> Hash_Bytes h" "Hash_Bytes h \<noteq> Address_Bytes a"
  by (metis length_Hash_Bytes length_Address_Bytes numeral_eq_iff semiring_norm(87,88,89,90))+

section \<open>Hex round trips\<close>

lemma fromHexChar_toHexChar: "d < 16 \<Longrightarrow> fromHexChar (toHexChar d) = Some d"
  by (simp add: fromHexChar_def toHexChar_def Let_def)

lemma hex_Decode_Encode [simp]: "hex_DecodeString (hex_EncodeToString bs) = (bs, True)"
proof (induction bs)
  case Nil
  then show ?case by simp
next
  case (Cons b bs)
  have "unat b div 16 < 16" using unat_byte_less [of b] by arith
  moreover have "unat b mod 16 < 16" by simp
  moreover have "16 * (unat b div 16) + unat b mod 16 = unat b" by simp
  ultimately show ?case
    using Cons by (simp add: fromHexChar_toHexChar del: of_nat_add of_nat_mult)
qed

lemma length_hex_EncodeToString [simp]: "length (hex_EncodeToString bs) = 2 * length bs"
  by (induction bs) simp_all

lemma stringToBytes_0x_hex [simp]: "stringToBytes (''0x'' @ hex_EncodeToString bs) = bs"
  by (simp add: stringToBytes_def trim_0x_def Let_def)

section \<open>Round trips\<close>

text \<open>
  Hexadecimal text is a faithful representation: bytes, hashes and addresses printed in hexadecimal are read back
  unchanged, through the \<open>0x\<close> helpers, the string conversions and the JSON marshalling.
\<close>

lemma hex_roundtrip:
  "DecodeHex (EncodeToHex bs) = (bs, True) \<and> MustDecodeHex (EncodeToHex bs) = Ret bs \<and> StringToHash (Hash_String h) = h \<and>
   StringToAddress (Address_String a) = a \<and> Hash_UnmarshalText (Hash_MarshalText h) = h \<and>
   Address_UnmarshalText (Address_MarshalText a) = Some a"
proof -
  have "DecodeHex (EncodeToHex bs) = (bs, True)" by (simp add: DecodeHex_def EncodeToHex_def trim_0x_def)
  then show ?thesis
    by (simp add: MustDecodeHex_def StringToHash_def Hash_String_def StringToAddress_def Address_String_def Hash_UnmarshalText_def
        Hash_MarshalText_def Address_UnmarshalText_def Address_MarshalText_def Let_def del: append.simps)
qed

end
