(* ===== verification/Runtime.thy ===== *)
theory Runtime
  imports Types
begin

text \<open>
  Package \<open>runtime\<close>: fork activation (\<open>params.go\<close>), the contract being executed, the execution
  result with its errors, the transaction context and the \<open>Host\<close> interface between the virtual
  machine and the state transition (\<open>runtime.go\<close>). The third-party packages the program calls are
  the fields of the record \<open>ext\<close>, an argument of every definition that uses them.
\<close>

section \<open>Third-party code as a parameter\<close>

text \<open>
  RLP values, as the program builds them with the arena of \<open>fastrlp\<close> (a constructor for each \<open>New...\<close> method it
  uses) and takes them apart with \<open>Type\<close>, \<open>Elems\<close>, \<open>Get\<close> and \<open>Raw\<close>; a parsed value consists of byte strings and arrays. The
  encoding, its length and the checked conversions of a parsed value are parameters, \<open>None\<close> being an error.
\<close>

datatype rlp = RlpBytes bytes | RlpUint u64 | RlpBigInt int | RlpNull | RlpArray "rlp list"

typedecl pubkey
typedecl bn256_G1
typedecl bn256_G2

record ext =
  x_keccak256 :: "bytes \<Rightarrow> bytes"            \<comment> \<open>\<open>sha3.NewLegacyKeccak256\<close>\<close>
  x_rlp_marshal :: "rlp \<Rightarrow> bytes"            \<comment> \<open>\<open>fastrlp.Value.MarshalTo\<close>\<close>
  x_rlp_parse :: "bytes \<Rightarrow> rlp option"       \<comment> \<open>\<open>fastrlp.Parser.Parse\<close>\<close>
  x_rlp_len :: "rlp \<Rightarrow> u64"                  \<comment> \<open>\<open>fastrlp.Value.Len\<close>\<close>
  x_rlp_GetElems :: "rlp \<Rightarrow> rlp list option"
  x_rlp_GetBytes :: "rlp \<Rightarrow> bytes option"
  x_rlp_GetHash :: "rlp \<Rightarrow> hash option"
  x_rlp_GetUint64 :: "rlp \<Rightarrow> u64 option"
  x_rlp_GetBigInt :: "rlp \<Rightarrow> int option"
  x_append_cap :: "nat \<Rightarrow> nat \<Rightarrow> nat"        \<comment> \<open>capacity \<open>append\<close> chooses, from old capacity and length needed\<close>
  x_sha256 :: "bytes \<Rightarrow> bytes"
  x_ripemd160 :: "bytes \<Rightarrow> bytes"
  x_RecoverCompact :: "bytes \<Rightarrow> bytes \<Rightarrow> pubkey option"
  x_MarshalPublicKey :: "pubkey \<Rightarrow> bytes"
  x_G1_Unmarshal :: "bytes \<Rightarrow> bn256_G1 option"
  x_G1_Marshal :: "bn256_G1 \<Rightarrow> bytes"
  x_G1_Add :: "bn256_G1 \<Rightarrow> bn256_G1 \<Rightarrow> bn256_G1"
  x_G1_ScalarMult :: "bn256_G1 \<Rightarrow> int \<Rightarrow> bn256_G1"
  x_G2_Unmarshal :: "bytes \<Rightarrow> bn256_G2 option"
  x_PairingCheck :: "bn256_G1 list \<Rightarrow> bn256_G2 list \<Rightarrow> bool"

text \<open>\<open>helper.Keccak256\<close> hashes the concatenation of its arguments.\<close>

definition Keccak256 :: "ext \<Rightarrow> bytes list \<Rightarrow> bytes" where
  "Keccak256 X vs = x_keccak256 X (concat vs)"

text \<open>\<open>helper.Keccak256To\<close> appends the hash of the source to the destination.\<close>

definition Keccak256To :: "ext \<Rightarrow> bytes \<Rightarrow> bytes \<Rightarrow> bytes" where
  "Keccak256To X dst src = dst @ x_keccak256 X src"

definition CreateAddress :: "ext \<Rightarrow> address \<Rightarrow> u64 \<Rightarrow> address" where
  "CreateAddress X addr nonce =
     (let dst = x_rlp_marshal X (RlpArray [RlpBytes (Address_Bytes addr), RlpUint nonce])
      in BytesToAddress (drop 12 (Keccak256 X [dst])))"

definition CreateAddress2 :: "ext \<Rightarrow> address \<Rightarrow> hash \<Rightarrow> bytes \<Rightarrow> address" where
  "CreateAddress2 X addr salt inithash =
     BytesToAddress (drop 12 (Keccak256 X [[0xff], Address_Bytes addr, Hash_Bytes salt, Keccak256 X [inithash]]))"

section \<open>Forks\<close>

record forks_in_time =
  Homestead :: bool
  Byzantium :: bool
  Constantinople :: bool
  Petersburg :: bool
  Istanbul :: bool
  EIP150 :: bool
  EIP158 :: bool
  EIP155 :: bool

record forks =
  f_Homestead :: "u64 option"
  f_Byzantium :: "u64 option"
  f_Constantinople :: "u64 option"
  f_Petersburg :: "u64 option"
  f_Istanbul :: "u64 option"
  f_EIP150 :: "u64 option"
  f_EIP158 :: "u64 option"
  f_EIP155 :: "u64 option"

definition Fork_Active :: "u64 \<Rightarrow> u64 \<Rightarrow> bool" where
  "Fork_Active f block \<longleftrightarrow> f \<le> block"

definition Forks_active :: "u64 option \<Rightarrow> u64 \<Rightarrow> bool" where
  "Forks_active ff block = (case ff of None \<Rightarrow> False | Some f \<Rightarrow> Fork_Active f block)"

definition IsHomestead :: "forks \<Rightarrow> u64 \<Rightarrow> bool" where
  "IsHomestead f block = Forks_active (f_Homestead f) block"

definition IsByzantium :: "forks \<Rightarrow> u64 \<Rightarrow> bool" where
  "IsByzantium f block = Forks_active (f_Byzantium f) block"

definition IsConstantinople :: "forks \<Rightarrow> u64 \<Rightarrow> bool" where
  "IsConstantinople f block = Forks_active (f_Constantinople f) block"

definition IsPetersburg :: "forks \<Rightarrow> u64 \<Rightarrow> bool" where
  "IsPetersburg f block = Forks_active (f_Petersburg f) block"

definition IsEIP150 :: "forks \<Rightarrow> u64 \<Rightarrow> bool" where
  "IsEIP150 f block = Forks_active (f_EIP150 f) block"

definition IsEIP158 :: "forks \<Rightarrow> u64 \<Rightarrow> bool" where
  "IsEIP158 f block = Forks_active (f_EIP158 f) block"

definition IsEIP155 :: "forks \<Rightarrow> u64 \<Rightarrow> bool" where
  "IsEIP155 f block = Forks_active (f_EIP155 f) block"

definition Forks_At :: "forks \<Rightarrow> u64 \<Rightarrow> forks_in_time" where
  "Forks_At f block =
     \<lparr>Homestead = Forks_active (f_Homestead f) block,
      Byzantium = Forks_active (f_Byzantium f) block,
      Constantinople = Forks_active (f_Constantinople f) block,
      Petersburg = Forks_active (f_Petersburg f) block,
      Istanbul = Forks_active (f_Istanbul f) block,
      EIP150 = Forks_active (f_EIP150 f) block,
      EIP158 = Forks_active (f_EIP158 f) block,
      EIP155 = Forks_active (f_EIP155 f) block\<rparr>"

definition AllForksEnabled :: forks where
  "AllForksEnabled =
     \<lparr>f_Homestead = Some 0, f_Byzantium = Some 0, f_Constantinople = Some 0, f_Petersburg = Some 0,
      f_Istanbul = Some 0, f_EIP150 = Some 0, f_EIP158 = Some 0, f_EIP155 = Some 0\<rparr>"

section \<open>Contracts, results, context\<close>

datatype vm_error =
    ErrOutOfGas | ErrStackOverflow | ErrStackUnderflow | ErrNotEnoughFunds | ErrInsufficientBalance
  | ErrMaxCodeSizeExceeded | ErrContractAddressCollision | ErrDepth | ErrExecutionReverted
  | ErrCodeStoreOutOfGas
  | errGasUintOverflow | errWriteProtection | errInvalidJump | errOpCodeNotFound
  | errReturnDataOutOfBounds
  | ErrPrecompiled | ErrRuntimeNotFound

datatype storage_status =
  StorageUnchanged | StorageModified | StorageModifiedAgain | StorageAdded | StorageDeleted

datatype call_type = Call | CallCode | DelegateCall | StaticCall | Create | Create2

record contract =
  ct_Code :: bytes
  ct_Type :: call_type
  ct_CodeAddress :: address
  ct_Address :: address
  ct_Origin :: address
  ct_Caller :: address
  ct_Depth :: nat
  ct_Value :: "int option"      \<comment> \<open>\<open>nil\<close> when the call carries no value argument\<close>
  ct_Input :: bytes
  ct_Gas :: u64
  ct_Static :: bool

definition NewContract ::
    "nat \<Rightarrow> address \<Rightarrow> address \<Rightarrow> address \<Rightarrow> int option \<Rightarrow> u64 \<Rightarrow> bytes \<Rightarrow> contract" where
  "NewContract depth origin from to value g cd =
     \<lparr>ct_Code = cd, ct_Type = Call, ct_CodeAddress = to, ct_Address = to, ct_Origin = origin,
      ct_Caller = from, ct_Depth = depth, ct_Value = value, ct_Input = [], ct_Gas = g,
      ct_Static = False\<rparr>"

definition NewContractCreation ::
    "nat \<Rightarrow> address \<Rightarrow> address \<Rightarrow> address \<Rightarrow> int option \<Rightarrow> u64 \<Rightarrow> bytes \<Rightarrow> contract" where
  "NewContractCreation depth origin from to value g cd = NewContract depth origin from to value g cd"

definition NewContractCall ::
    "nat \<Rightarrow> address \<Rightarrow> address \<Rightarrow> address \<Rightarrow> int option \<Rightarrow> u64 \<Rightarrow> bytes \<Rightarrow> bytes \<Rightarrow> contract" where
  "NewContractCall depth origin from to value g cd input =
     (NewContract depth origin from to value g cd)\<lparr>ct_Input := input\<rparr>"

record exec_result =
  res_ReturnValue :: bytes
  res_GasLeft :: u64
  res_GasUsed :: u64
  res_Err :: "vm_error option"
  res_CreateAddress :: address

abbreviation mk_result :: "bytes \<Rightarrow> u64 \<Rightarrow> vm_error option \<Rightarrow> exec_result" where
  "mk_result rv g e \<equiv>
     \<lparr>res_ReturnValue = rv, res_GasLeft = g, res_GasUsed = 0, res_Err = e, res_CreateAddress = 0\<rparr>"

definition Succeeded :: "exec_result \<Rightarrow> bool" where
  "Succeeded r \<longleftrightarrow> res_Err r = None"

definition Failed :: "exec_result \<Rightarrow> bool" where
  "Failed r \<longleftrightarrow> res_Err r \<noteq> None"

definition Reverted :: "exec_result \<Rightarrow> bool" where
  "Reverted r \<longleftrightarrow> res_Err r = Some ErrExecutionReverted"

text \<open>The \<open>int64\<close> fields are words read with \<open>sint\<close>.\<close>

record tx_context =
  tx_Hash :: hash
  tx_GasPrice :: hash
  tx_Origin :: address
  tx_Coinbase :: address
  tx_Number :: "64 word"
  tx_Timestamp :: "64 word"
  tx_GasLimit :: "64 word"
  tx_ChainID :: "64 word"
  tx_Difficulty :: hash

section \<open>The host interface\<close>

text \<open>
  The operations of \<open>runtime.Host\<close> over a host state \<open>'h\<close>. Operations that change the host return
  its new state; \<open>Callx\<close> runs another contract, so it may also panic.
\<close>

record 'h host =
  AccountExists :: "'h \<Rightarrow> address \<Rightarrow> bool"
  GetStorage :: "'h \<Rightarrow> address \<Rightarrow> hash \<Rightarrow> hash"
  SetStorage :: "'h \<Rightarrow> address \<Rightarrow> hash \<Rightarrow> hash \<Rightarrow> forks_in_time \<Rightarrow> storage_status \<times> 'h"
  GetBalance :: "'h \<Rightarrow> address \<Rightarrow> int"
  GetCodeSize :: "'h \<Rightarrow> address \<Rightarrow> nat"
  GetCodeHash :: "'h \<Rightarrow> address \<Rightarrow> hash"
  GetCode :: "'h \<Rightarrow> address \<Rightarrow> bytes"
  Selfdestruct :: "'h \<Rightarrow> address \<Rightarrow> address \<Rightarrow> 'h"
  GetTxContext :: "'h \<Rightarrow> tx_context"
  GetBlockHash :: "'h \<Rightarrow> 64 word \<Rightarrow> hash"
  EmitLog :: "'h \<Rightarrow> address \<Rightarrow> hash list \<Rightarrow> bytes \<Rightarrow> 'h"
  Callx :: "'h \<Rightarrow> contract \<Rightarrow> (exec_result \<times> 'h) go"
  Empty :: "'h \<Rightarrow> address \<Rightarrow> bool"
  GetNonce :: "'h \<Rightarrow> address \<Rightarrow> u64"

section \<open>Fork activation\<close>

text \<open>The predicates agree with the flags that the transition is given.\<close>

lemma Forks_At_Is:
  "Homestead (Forks_At f b) = IsHomestead f b"
  "Byzantium (Forks_At f b) = IsByzantium f b"
  "Constantinople (Forks_At f b) = IsConstantinople f b"
  "Petersburg (Forks_At f b) = IsPetersburg f b"
  "EIP150 (Forks_At f b) = IsEIP150 f b"
  "EIP158 (Forks_At f b) = IsEIP158 f b"
  "EIP155 (Forks_At f b) = IsEIP155 f b"
  by (simp_all add: Forks_At_def IsHomestead_def IsByzantium_def IsConstantinople_def IsPetersburg_def IsEIP150_def IsEIP158_def IsEIP155_def)

text \<open>\<open>Fork.Int\<close> goes through \<open>int64\<close>.\<close>

definition Fork_Int :: "u64 \<Rightarrow> int" where
  "Fork_Int f = sint f"

text \<open>Forks stay active: a fork that is active at a block is active at every later one.\<close>

lemma Forks_active_mono: "Forks_active f b \<Longrightarrow> b \<le> b' \<Longrightarrow> Forks_active f b'"
  by (auto simp: Forks_active_def Fork_Active_def split: option.splits)

lemma Forks_At_AllForksEnabled:
  "Forks_At AllForksEnabled block =
     \<lparr>Homestead = True, Byzantium = True, Constantinople = True, Petersburg = True,
      Istanbul = True, EIP150 = True, EIP158 = True, EIP155 = True\<rparr>"
  by (simp add: Forks_At_def AllForksEnabled_def Forks_active_def Fork_Active_def)

text \<open>Forks stay active: a rule that is active at a block is active at every later block.\<close>

lemma Forks_At_mono:
  assumes "b \<le> b'"
  shows "(Homestead (Forks_At f b) \<longrightarrow> Homestead (Forks_At f b')) \<and> (Byzantium (Forks_At f b) \<longrightarrow> Byzantium (Forks_At f b')) \<and>
    (Constantinople (Forks_At f b) \<longrightarrow> Constantinople (Forks_At f b')) \<and> (Petersburg (Forks_At f b) \<longrightarrow> Petersburg (Forks_At f b')) \<and>
    (Istanbul (Forks_At f b) \<longrightarrow> Istanbul (Forks_At f b')) \<and> (EIP150 (Forks_At f b) \<longrightarrow> EIP150 (Forks_At f b')) \<and>
    (EIP158 (Forks_At f b) \<longrightarrow> EIP158 (Forks_At f b')) \<and> (EIP155 (Forks_At f b) \<longrightarrow> EIP155 (Forks_At f b'))"
  using assms by (simp add: Forks_At_def) (auto elim: Forks_active_mono)

end
