(* ===== verification/Txn.thy ===== *)
theory Txn
  imports Runtime
begin

text \<open>
  The transient state of a block (\<open>txn.go\<close>, with the data of \<open>account.go\<close>, \<open>state.go\<close>): objects,
  logs and the refund counter in one immutable radix tree over a read-only snapshot, with snapshots
  of the tree to revert to. The radix tree is third-party code, the record \<open>radix\<close>, once for the
  tree of the state and once for the storage of an object; \<open>trees_ok\<close> is the behaviour its
  documentation promises. Trees are immutable values, so taking a snapshot copies the value, and the
  copies that \<open>getStateObject\<close> and \<open>upsertAccount\<close> make are values here.
\<close>

section \<open>Third-party trees\<close>

record ('t, 'v) radix =
  rx_new :: 't
  rx_get :: "'t \<Rightarrow> bytes \<Rightarrow> 'v option"
  rx_insert :: "'t \<Rightarrow> bytes \<Rightarrow> 'v \<Rightarrow> 't"
  rx_delete :: "'t \<Rightarrow> bytes \<Rightarrow> 't"
  rx_walk :: "'t \<Rightarrow> (bytes \<times> 'v) list"

definition radix_ok :: "('t, 'v) radix \<Rightarrow> bool" where
  "radix_ok r \<longleftrightarrow>
     (\<forall>k. rx_get r (rx_new r) k = None) \<and>
     (\<forall>t k v k'. rx_get r (rx_insert r t k v) k' = (if k' = k then Some v else rx_get r t k')) \<and>
     (\<forall>t k k'. rx_get r (rx_delete r t k) k' = (if k' = k then None else rx_get r t k')) \<and>
     (\<forall>t. distinct (map fst (rx_walk r t)) \<and> map_of (rx_walk r t) = rx_get r t)"

section \<open>Data\<close>

record account =
  acc_Nonce :: u64
  acc_Balance :: int
  acc_Root :: hash
  acc_CodeHash :: bytes

text \<open>\<open>Account.Copy\<close> builds the new balance from the bytes of the old one, which drops a sign.\<close>

definition Account_Copy :: "account \<Rightarrow> account" where
  "Account_Copy a = a\<lparr>acc_Balance := big_SetBytes (big_Bytes (acc_Balance a))\<rparr>"

text \<open>The interface \<open>Snapshot\<close>: \<open>GetAccount\<close> returns an error, nil or an account.\<close>

record snapshot =
  snap_GetCode :: "hash \<Rightarrow> bytes \<times> bool"
  snap_GetStorage :: "hash \<Rightarrow> hash \<Rightarrow> hash"
  snap_GetAccount :: "address \<Rightarrow> unit + account option"

record 's stateObject =
  so_Account :: account
  so_Code :: bytes
  so_Suicide :: bool
  so_Deleted :: bool
  so_DirtyCode :: bool
  so_Txn :: "'s option"

record log =
  lg_Address :: address
  lg_Topics :: "hash list"
  lg_Data :: bytes

text \<open>
  The tree holds values of three Go types: objects under the bytes of an address, the logs under
  \<open>logIndex\<close> and the refund under \<open>refundIndex\<close>. The code asserts the type it expects.
\<close>

datatype 's entry = EntryObj "'s stateObject" | EntryLogs "log list" | EntryRefund u64

record ('t, 's) trees =
  tr_state :: "('t, 's entry) radix"
  tr_store :: "('s, bytes option) radix"

definition trees_ok :: "('t, 's) trees \<Rightarrow> bool" where
  "trees_ok T \<longleftrightarrow> radix_ok (tr_state T) \<and> radix_ok (tr_store T)"

record ('t, 's) txn =
  txn_snapshot :: snapshot
  txn_snapshots :: "'t list"
  txn_txn :: 't

definition EmptyStateHash :: hash where
  "EmptyStateHash = StringToHash ''0x56e81f171bcc55a6ff8345e692c0f86e5b48e01b996cadc001622fb5e363b421''"

definition EmptyCodeHash :: "ext \<Rightarrow> bytes" where
  "EmptyCodeHash X = Keccak256 X []"

definition logIndex :: bytes where
  "logIndex = Hash_Bytes (BytesToHash [2])"

definition refundIndex :: bytes where
  "refundIndex = Hash_Bytes (BytesToHash [3])"

definition stateObject_Empty :: "ext \<Rightarrow> 's stateObject \<Rightarrow> bool" where
  "stateObject_Empty X s \<longleftrightarrow> acc_Nonce (so_Account s) = 0 \<and> acc_Balance (so_Account s) = 0 \<and>
     acc_CodeHash (so_Account s) = EmptyCodeHash X"

definition stateObject_Copy :: "'s stateObject \<Rightarrow> 's stateObject" where
  "stateObject_Copy s = s\<lparr>so_Account := Account_Copy (so_Account s)\<rparr>"

definition newStateObject :: "ext \<Rightarrow> 's stateObject" where
  "newStateObject X =
     \<lparr>so_Account = \<lparr>acc_Nonce = 0, acc_Balance = 0, acc_Root = EmptyStateHash, acc_CodeHash = EmptyCodeHash X\<rparr>,
      so_Code = [], so_Suicide = False, so_Deleted = False, so_DirtyCode = False, so_Txn = None\<rparr>"

section \<open>Snapshots\<close>

definition newTxn :: "('t, 's) trees \<Rightarrow> snapshot \<Rightarrow> ('t, 's) txn" where
  "newTxn T snapshot = \<lparr>txn_snapshot = snapshot, txn_snapshots = [], txn_txn = rx_new (tr_state T)\<rparr>"

definition Txn_Snapshot :: "('t, 's) txn \<Rightarrow> nat \<times> ('t, 's) txn" where
  "Txn_Snapshot txn = (length (txn_snapshots txn), txn\<lparr>txn_snapshots := txn_snapshots txn @ [txn_txn txn]\<rparr>)"

text \<open>The guard lets \<open>id = len(snapshots)\<close> through, but the index then panics as well.\<close>

definition Txn_RevertToSnapshot :: "nat \<Rightarrow> ('t, 's) txn \<Rightarrow> ('t, 's) txn go" where
  "Txn_RevertToSnapshot i txn =
     (if length (txn_snapshots txn) < i then Panic
      else if i = length (txn_snapshots txn) then Panic
      else Ret (txn\<lparr>txn_txn := txn_snapshots txn ! i\<rparr>))"

section \<open>Objects\<close>

text \<open>
  The type assertion \<open>val.(*stateObject)\<close> panics on another type; \<open>tree_typed\<close> below, an invariant of
  every operation, says that it never does, and the model treats that case as a missing object.
\<close>

definition getStateObject :: "('t, 's) trees \<Rightarrow> ('t, 's) txn \<Rightarrow> address \<Rightarrow> 's stateObject option" where
  "getStateObject T txn addr =
     (case rx_get (tr_state T) (txn_txn txn) (Address_Bytes addr) of
        Some e \<Rightarrow>
          (case e of
             EntryObj obj \<Rightarrow> if so_Deleted obj then None else Some (stateObject_Copy obj)
           | _ \<Rightarrow> None)
      | None \<Rightarrow>
          (case snap_GetAccount (txn_snapshot txn) addr of
             Inl _ \<Rightarrow> None
           | Inr None \<Rightarrow> None
           | Inr (Some account) \<Rightarrow>
               Some \<lparr>so_Account = Account_Copy account, so_Code = [], so_Suicide = False,
                     so_Deleted = False, so_DirtyCode = False, so_Txn = None\<rparr>))"

definition Txn_GetAccount :: "('t, 's) trees \<Rightarrow> ('t, 's) txn \<Rightarrow> address \<Rightarrow> account option" where
  "Txn_GetAccount T txn addr = map_option so_Account (getStateObject T txn addr)"

text \<open>
  The callback \<open>f\<close> modifies an object that is there; the only caller that does not create one
  (\<open>Suicide\<close>) tests for nil and does nothing.
\<close>

definition upsertAccount ::
    "ext \<Rightarrow> ('t, 's) trees \<Rightarrow> address \<Rightarrow> bool \<Rightarrow> ('s stateObject \<Rightarrow> 's stateObject) \<Rightarrow> ('t, 's) txn \<Rightarrow> ('t, 's) txn" where
  "upsertAccount X T addr create f txn =
     (let object = (case getStateObject T txn addr of
                      Some obj \<Rightarrow> Some obj
                    | None \<Rightarrow> if create then Some (newStateObject X) else None)
      in case object of
           None \<Rightarrow> txn
         | Some obj \<Rightarrow>
             txn\<lparr>txn_txn := rx_insert (tr_state T) (txn_txn txn) (Address_Bytes addr) (EntryObj (f obj))\<rparr>)"

definition upd_account :: "(account \<Rightarrow> account) \<Rightarrow> 's stateObject \<Rightarrow> 's stateObject" where
  "upd_account f obj = obj\<lparr>so_Account := f (so_Account obj)\<rparr>"

section \<open>Balances\<close>

definition Txn_GetBalance :: "('t, 's) trees \<Rightarrow> ('t, 's) txn \<Rightarrow> address \<Rightarrow> int" where
  "Txn_GetBalance T txn addr =
     (case getStateObject T txn addr of None \<Rightarrow> 0 | Some obj \<Rightarrow> acc_Balance (so_Account obj))"

definition AddSealingReward :: "ext \<Rightarrow> ('t, 's) trees \<Rightarrow> address \<Rightarrow> int \<Rightarrow> ('t, 's) txn \<Rightarrow> ('t, 's) txn" where
  "AddSealingReward X T addr balance =
     upsertAccount X T addr True (\<lambda>obj.
       if so_Suicide obj
       then upd_account (\<lambda>a. a\<lparr>acc_Balance := big_SetBytes (big_Bytes balance)\<rparr>) (newStateObject X)
       else upd_account (\<lambda>a. a\<lparr>acc_Balance := acc_Balance a + balance\<rparr>) obj)"

definition Txn_AddBalance :: "ext \<Rightarrow> ('t, 's) trees \<Rightarrow> address \<Rightarrow> int \<Rightarrow> ('t, 's) txn \<Rightarrow> ('t, 's) txn" where
  "Txn_AddBalance X T addr balance =
     upsertAccount X T addr True (upd_account (\<lambda>a. a\<lparr>acc_Balance := acc_Balance a + balance\<rparr>))"

definition Txn_SubBalance ::
    "ext \<Rightarrow> ('t, 's) trees \<Rightarrow> address \<Rightarrow> int \<Rightarrow> ('t, 's) txn \<Rightarrow> vm_error option \<times> ('t, 's) txn" where
  "Txn_SubBalance X T addr amount txn =
     (if amount = 0 then (None, txn)
      else if Txn_GetBalance T txn addr < amount then (Some ErrNotEnoughFunds, txn)
      else (None, upsertAccount X T addr True (upd_account (\<lambda>a. a\<lparr>acc_Balance := acc_Balance a - amount\<rparr>)) txn))"

definition Txn_SetBalance :: "ext \<Rightarrow> ('t, 's) trees \<Rightarrow> address \<Rightarrow> int \<Rightarrow> ('t, 's) txn \<Rightarrow> ('t, 's) txn" where
  "Txn_SetBalance X T addr balance =
     upsertAccount X T addr True (upd_account (\<lambda>a. a\<lparr>acc_Balance := big_SetBytes (big_Bytes balance)\<rparr>))"

section \<open>Logs and refunds\<close>

definition tree_logs :: "('t, 's) trees \<Rightarrow> ('t, 's) txn \<Rightarrow> log list" where
  "tree_logs T txn = (case rx_get (tr_state T) (txn_txn txn) logIndex of Some (EntryLogs ls) \<Rightarrow> ls | _ \<Rightarrow> [])"

definition AddLog :: "('t, 's) trees \<Rightarrow> log \<Rightarrow> ('t, 's) txn \<Rightarrow> ('t, 's) txn" where
  "AddLog T log txn =
     txn\<lparr>txn_txn := rx_insert (tr_state T) (txn_txn txn) logIndex (EntryLogs (tree_logs T txn @ [log]))\<rparr>"

definition Txn_EmitLog :: "('t, 's) trees \<Rightarrow> address \<Rightarrow> hash list \<Rightarrow> bytes \<Rightarrow> ('t, 's) txn \<Rightarrow> ('t, 's) txn" where
  "Txn_EmitLog T addr topics data txn =
     (let log = \<lparr>lg_Address = addr, lg_Topics = topics, lg_Data = data\<rparr>
      in txn\<lparr>txn_txn := rx_insert (tr_state T) (txn_txn txn) logIndex (EntryLogs (tree_logs T txn @ [log]))\<rparr>)"

definition Txn_Logs :: "('t, 's) trees \<Rightarrow> ('t, 's) txn \<Rightarrow> log list \<times> ('t, 's) txn" where
  "Txn_Logs T txn =
     (case rx_get (tr_state T) (txn_txn txn) logIndex of
        None \<Rightarrow> ([], txn)
      | Some e \<Rightarrow> (tree_logs T txn, txn\<lparr>txn_txn := rx_delete (tr_state T) (txn_txn txn) logIndex\<rparr>))"

definition Txn_GetRefund :: "('t, 's) trees \<Rightarrow> ('t, 's) txn \<Rightarrow> u64" where
  "Txn_GetRefund T txn = (case rx_get (tr_state T) (txn_txn txn) refundIndex of Some (EntryRefund r) \<Rightarrow> r | _ \<Rightarrow> 0)"

definition Txn_AddRefund :: "('t, 's) trees \<Rightarrow> u64 \<Rightarrow> ('t, 's) txn \<Rightarrow> ('t, 's) txn" where
  "Txn_AddRefund T g txn =
     txn\<lparr>txn_txn := rx_insert (tr_state T) (txn_txn txn) refundIndex (EntryRefund (Txn_GetRefund T txn + g))\<rparr>"

definition Txn_SubRefund :: "('t, 's) trees \<Rightarrow> u64 \<Rightarrow> ('t, 's) txn \<Rightarrow> ('t, 's) txn" where
  "Txn_SubRefund T g txn =
     txn\<lparr>txn_txn := rx_insert (tr_state T) (txn_txn txn) refundIndex (EntryRefund (Txn_GetRefund T txn - g))\<rparr>"

section \<open>Storage\<close>

definition Txn_GetState :: "('t, 's) trees \<Rightarrow> ('t, 's) txn \<Rightarrow> address \<Rightarrow> hash \<Rightarrow> hash" where
  "Txn_GetState T txn addr key =
     (case getStateObject T txn addr of
        None \<Rightarrow> 0
      | Some object \<Rightarrow>
          (let committed = snap_GetStorage (txn_snapshot txn) (acc_Root (so_Account object)) key in
           case so_Txn object of
             None \<Rightarrow> committed
           | Some t \<Rightarrow>
               (case rx_get (tr_store T) t (Hash_Bytes key) of
                  None \<Rightarrow> committed
                | Some None \<Rightarrow> 0
                | Some (Some val) \<Rightarrow> BytesToHash val)))"

definition Txn_SetState :: "ext \<Rightarrow> ('t, 's) trees \<Rightarrow> address \<Rightarrow> hash \<Rightarrow> hash \<Rightarrow> ('t, 's) txn \<Rightarrow> ('t, 's) txn" where
  "Txn_SetState X T addr key value =
     upsertAccount X T addr True (\<lambda>object.
       let t = (case so_Txn object of None \<Rightarrow> rx_new (tr_store T) | Some t \<Rightarrow> t)
       in object\<lparr>so_Txn := Some (rx_insert (tr_store T) t (Hash_Bytes key)
                                   (if value = 0 then None else Some (Hash_Bytes value)))\<rparr>)"

definition Txn_GetCommittedState :: "('t, 's) trees \<Rightarrow> ('t, 's) txn \<Rightarrow> address \<Rightarrow> hash \<Rightarrow> hash" where
  "Txn_GetCommittedState T txn addr key =
     (case getStateObject T txn addr of
        None \<Rightarrow> 0
      | Some obj \<Rightarrow> snap_GetStorage (txn_snapshot txn) (acc_Root (so_Account obj)) key)"

definition Txn_SetStorage ::
    "ext \<Rightarrow> ('t, 's) trees \<Rightarrow> ('t, 's) txn \<Rightarrow> address \<Rightarrow> hash \<Rightarrow> hash \<Rightarrow> forks_in_time \<Rightarrow> storage_status \<times> ('t, 's) txn" where
  "Txn_SetStorage X T txn addr key value config =
     (let oldValue = Txn_GetState T txn addr key in
      if oldValue = value then (StorageUnchanged, txn)
      else
        let current = oldValue;
            original = Txn_GetCommittedState T txn addr key;
            txn = Txn_SetState X T addr key value txn;
            legacyGasMetering = (\<not> Istanbul config \<and> (Petersburg config \<or> \<not> Constantinople config))
        in if legacyGasMetering then
             (if oldValue = 0 then (StorageAdded, txn)
              else if value = 0 then (StorageDeleted, Txn_AddRefund T 15000 txn)
              else (StorageModified, txn))
           else if original = current then
             (if original = 0 then (StorageAdded, txn)
              else if value = 0 then (StorageDeleted, Txn_AddRefund T 15000 txn)
              else (StorageModified, txn))
           else
             let txn = (if original \<noteq> 0
                        then (if current = 0 then Txn_SubRefund T 15000 txn
                              else if value = 0 then Txn_AddRefund T 15000 txn
                              else txn)
                        else txn);
                 txn = (if original = value
                        then (if original = 0
                              then Txn_AddRefund T (if Istanbul config then 19200 else 19800) txn
                              else Txn_AddRefund T (if Istanbul config then 4200 else 4800) txn)
                        else txn)
             in (StorageModifiedAgain, txn))"

section \<open>Nonce and code\<close>

definition Txn_IncrNonce :: "ext \<Rightarrow> ('t, 's) trees \<Rightarrow> address \<Rightarrow> ('t, 's) txn \<Rightarrow> ('t, 's) txn" where
  "Txn_IncrNonce X T addr = upsertAccount X T addr True (upd_account (\<lambda>a. a\<lparr>acc_Nonce := acc_Nonce a + 1\<rparr>))"

definition Txn_SetNonce :: "ext \<Rightarrow> ('t, 's) trees \<Rightarrow> address \<Rightarrow> u64 \<Rightarrow> ('t, 's) txn \<Rightarrow> ('t, 's) txn" where
  "Txn_SetNonce X T addr nonce = upsertAccount X T addr True (upd_account (\<lambda>a. a\<lparr>acc_Nonce := nonce\<rparr>))"

definition Txn_GetNonce :: "('t, 's) trees \<Rightarrow> ('t, 's) txn \<Rightarrow> address \<Rightarrow> u64" where
  "Txn_GetNonce T txn addr = (case getStateObject T txn addr of None \<Rightarrow> 0 | Some obj \<Rightarrow> acc_Nonce (so_Account obj))"

definition Txn_SetCode :: "ext \<Rightarrow> ('t, 's) trees \<Rightarrow> address \<Rightarrow> bytes \<Rightarrow> ('t, 's) txn \<Rightarrow> ('t, 's) txn" where
  "Txn_SetCode X T addr cd =
     upsertAccount X T addr True (\<lambda>object.
       (upd_account (\<lambda>a. a\<lparr>acc_CodeHash := Keccak256 X [cd]\<rparr>) object)\<lparr>so_DirtyCode := True, so_Code := cd\<rparr>)"

definition Txn_GetCode :: "('t, 's) trees \<Rightarrow> ('t, 's) txn \<Rightarrow> address \<Rightarrow> bytes" where
  "Txn_GetCode T txn addr =
     (case getStateObject T txn addr of
        None \<Rightarrow> []
      | Some object \<Rightarrow>
          if so_DirtyCode object then so_Code object
          else fst (snap_GetCode (txn_snapshot txn) (BytesToHash (acc_CodeHash (so_Account object)))))"

definition Txn_GetCodeSize :: "('t, 's) trees \<Rightarrow> ('t, 's) txn \<Rightarrow> address \<Rightarrow> nat" where
  "Txn_GetCodeSize T txn addr = length (Txn_GetCode T txn addr)"

definition Txn_GetCodeHash :: "('t, 's) trees \<Rightarrow> ('t, 's) txn \<Rightarrow> address \<Rightarrow> hash" where
  "Txn_GetCodeHash T txn addr =
     (case getStateObject T txn addr of None \<Rightarrow> 0 | Some obj \<Rightarrow> BytesToHash (acc_CodeHash (so_Account obj)))"

section \<open>Life cycle of accounts\<close>

text \<open>The result of \<open>Suicide\<close> is discarded by its only caller.\<close>

definition Txn_Suicide :: "ext \<Rightarrow> ('t, 's) trees \<Rightarrow> address \<Rightarrow> ('t, 's) txn \<Rightarrow> ('t, 's) txn" where
  "Txn_Suicide X T addr =
     upsertAccount X T addr False (\<lambda>object.
       (upd_account (\<lambda>a. a\<lparr>acc_Balance := 0\<rparr>) object)\<lparr>so_Suicide := True\<rparr>)"

definition Txn_HasSuicided :: "('t, 's) trees \<Rightarrow> ('t, 's) txn \<Rightarrow> address \<Rightarrow> bool" where
  "Txn_HasSuicided T txn addr = (case getStateObject T txn addr of None \<Rightarrow> False | Some obj \<Rightarrow> so_Suicide obj)"

definition Txn_TouchAccount :: "ext \<Rightarrow> ('t, 's) trees \<Rightarrow> address \<Rightarrow> ('t, 's) txn \<Rightarrow> ('t, 's) txn" where
  "Txn_TouchAccount X T addr = upsertAccount X T addr True (\<lambda>obj. obj)"

definition Txn_Exist :: "('t, 's) trees \<Rightarrow> ('t, 's) txn \<Rightarrow> address \<Rightarrow> bool" where
  "Txn_Exist T txn addr \<longleftrightarrow> getStateObject T txn addr \<noteq> None"

definition Txn_Empty :: "ext \<Rightarrow> ('t, 's) trees \<Rightarrow> ('t, 's) txn \<Rightarrow> address \<Rightarrow> bool" where
  "Txn_Empty X T txn addr = (case getStateObject T txn addr of None \<Rightarrow> True | Some obj \<Rightarrow> stateObject_Empty X obj)"

definition Txn_CreateAccount :: "ext \<Rightarrow> ('t, 's) trees \<Rightarrow> address \<Rightarrow> ('t, 's) txn \<Rightarrow> ('t, 's) txn" where
  "Txn_CreateAccount X T addr txn =
     (let obj = (case getStateObject T txn addr of
                   None \<Rightarrow> newStateObject X
                 | Some prev \<Rightarrow>
                     upd_account (\<lambda>a. a\<lparr>acc_Balance := big_SetBytes (big_Bytes (acc_Balance (so_Account prev)))\<rparr>)
                       (newStateObject X))
      in txn\<lparr>txn_txn := rx_insert (tr_state T) (txn_txn txn) (Address_Bytes addr) (EntryObj obj)\<rparr>)"

text \<open>The second loop of \<open>CleanDeleteObjects\<close>; the explicit panics are its two checks.\<close>

fun mark_deleted :: "('t, 's) trees \<Rightarrow> bytes list \<Rightarrow> 't \<Rightarrow> 't go" where
  "mark_deleted T [] t = Ret t"
| "mark_deleted T (k # ks) t =
     (case rx_get (tr_state T) t k of
        None \<Rightarrow> Panic
      | Some v \<Rightarrow>
          (case v of
             EntryObj obj \<Rightarrow>
               mark_deleted T ks (rx_insert (tr_state T) t k (EntryObj ((stateObject_Copy obj)\<lparr>so_Deleted := True\<rparr>)))
           | _ \<Rightarrow> Panic))"

definition CleanDeleteObjects :: "ext \<Rightarrow> ('t, 's) trees \<Rightarrow> bool \<Rightarrow> ('t, 's) txn \<Rightarrow> ('t, 's) txn go" where
  "CleanDeleteObjects X T deleteEmptyObjects txn =
     (let remove = [k. (k, v) \<leftarrow> rx_walk (tr_state T) (txn_txn txn),
                       case v of EntryObj a \<Rightarrow> so_Suicide a \<or> stateObject_Empty X a \<and> deleteEmptyObjects | _ \<Rightarrow> False]
      in bnd (mark_deleted T remove (txn_txn txn)) (\<lambda>t.
         Ret (txn\<lparr>txn_txn := rx_delete (tr_state T) t refundIndex\<rparr>)))"

section \<open>Commit\<close>

record StorageObject =
  sto_Deleted :: bool
  sto_Key :: bytes
  sto_Val :: bytes

record Object =
  ob_Address :: address
  ob_CodeHash :: hash
  ob_Balance :: int
  ob_Root :: hash
  ob_Nonce :: u64
  ob_Deleted :: bool
  ob_DirtyCode :: bool
  ob_Code :: bytes
  ob_Storage :: "StorageObject list"

definition commit_storage :: "('t, 's) trees \<Rightarrow> 's option \<Rightarrow> StorageObject list" where
  "commit_storage T t =
     (case t of
        None \<Rightarrow> []
      | Some t \<Rightarrow>
          map (\<lambda>(k, v). case v of
                 None \<Rightarrow> \<lparr>sto_Deleted = True, sto_Key = k, sto_Val = []\<rparr>
               | Some val \<Rightarrow> \<lparr>sto_Deleted = False, sto_Key = k, sto_Val = val\<rparr>)
            (rx_walk (tr_store T) t))"

definition commit_object :: "('t, 's) trees \<Rightarrow> bytes \<Rightarrow> 's stateObject \<Rightarrow> Object" where
  "commit_object T k a =
     \<lparr>ob_Address = BytesToAddress k, ob_CodeHash = BytesToHash (acc_CodeHash (so_Account a)),
      ob_Balance = acc_Balance (so_Account a), ob_Root = acc_Root (so_Account a),
      ob_Nonce = acc_Nonce (so_Account a), ob_Deleted = so_Deleted a, ob_DirtyCode = so_DirtyCode a,
      ob_Code = so_Code a, ob_Storage = (if so_Deleted a then [] else commit_storage T (so_Txn a))\<rparr>"

definition Txn_Commit :: "('t, 's) trees \<Rightarrow> ('t, 's) txn \<Rightarrow> Object list" where
  "Txn_Commit T txn =
     [commit_object T k a. (k, EntryObj a) \<leftarrow> rx_walk (tr_state T) (txn_txn txn)]"

section \<open>What the snapshot promises\<close>

text \<open>The state trie has no code under the hash of the empty code and nothing under the empty root.\<close>

definition snapshot_ok :: "ext \<Rightarrow> snapshot \<Rightarrow> bool" where
  "snapshot_ok X sn \<longleftrightarrow> fst (snap_GetCode sn (BytesToHash (EmptyCodeHash X))) = [] \<and> (\<forall>k. snap_GetStorage sn EmptyStateHash k = 0)"

section \<open>What the trees promise\<close>

lemma trees_okD:
  assumes "trees_ok T"
  shows "rx_get (tr_state T) (rx_new (tr_state T)) k = None"
    and "rx_get (tr_state T) (rx_insert (tr_state T) t k v) k' = (if k' = k then Some v else rx_get (tr_state T) t k')"
    and "rx_get (tr_state T) (rx_delete (tr_state T) t k) k' = (if k' = k then None else rx_get (tr_state T) t k')"
    and "distinct (map fst (rx_walk (tr_state T) t))" and "map_of (rx_walk (tr_state T) t) = rx_get (tr_state T) t"
    and "rx_get (tr_store T) (rx_new (tr_store T)) k = None"
    and "rx_get (tr_store T) (rx_insert (tr_store T) u k w) k' = (if k' = k then Some w else rx_get (tr_store T) u k')"
  using assms by (simp_all add: trees_ok_def radix_ok_def)

text \<open>Addresses, logs and refund live under different keys.\<close>

lemma index_distinct [simp]:
  "Address_Bytes a \<noteq> logIndex" "Address_Bytes a \<noteq> refundIndex" "logIndex \<noteq> Address_Bytes a"
  "refundIndex \<noteq> Address_Bytes a" "logIndex \<noteq> refundIndex" "refundIndex \<noteq> logIndex"
proof -
  show 1: "Address_Bytes a \<noteq> logIndex" "Address_Bytes a \<noteq> refundIndex"
    by (simp_all add: logIndex_def refundIndex_def)
  then show "logIndex \<noteq> Address_Bytes a" "refundIndex \<noteq> Address_Bytes a" by metis+
  show 2: "logIndex \<noteq> refundIndex"
    by (simp add: logIndex_def refundIndex_def BytesToHash_eq be_nat_Cons)
  then show "refundIndex \<noteq> logIndex" by metis
qed

section \<open>Objects after an update\<close>

definition object_or_new :: "ext \<Rightarrow> ('t, 's) trees \<Rightarrow> ('t, 's) txn \<Rightarrow> address \<Rightarrow> 's stateObject" where
  "object_or_new X T txn a = (case getStateObject T txn a of Some obj \<Rightarrow> obj | None \<Rightarrow> newStateObject X)"

lemma getStateObject_live: "getStateObject T txn a = Some obj \<Longrightarrow> \<not> so_Deleted obj \<and> 0 \<le> acc_Balance (so_Account obj)"
  by (auto simp: getStateObject_def stateObject_Copy_def Account_Copy_def split: option.splits entry.splits sum.splits if_splits)

lemma object_or_new_live: "\<not> so_Deleted (object_or_new X T txn a)" "0 \<le> acc_Balance (so_Account (object_or_new X T txn a))"
  by (auto simp: object_or_new_def newStateObject_def dest: getStateObject_live split: option.split)

lemma object_or_new_balance: "acc_Balance (so_Account (object_or_new X T txn a)) = Txn_GetBalance T txn a"
  by (simp add: object_or_new_def Txn_GetBalance_def newStateObject_def split: option.split)

lemma upsert_True:
  "upsertAccount X T a True f txn =
     txn\<lparr>txn_txn := rx_insert (tr_state T) (txn_txn txn) (Address_Bytes a) (EntryObj (f (object_or_new X T txn a)))\<rparr>"
  by (simp add: upsertAccount_def object_or_new_def Let_def split: option.split)

text \<open>No operation touches the snapshot below; only \<open>Snapshot\<close> adds to the list of snapshots.\<close>

lemma upsert_fields [simp]:
  "txn_snapshot (upsertAccount X T a cr f txn) = txn_snapshot txn"
  "txn_snapshots (upsertAccount X T a cr f txn) = txn_snapshots txn"
  by (simp_all add: upsertAccount_def Let_def split: option.split)

lemmas txn_upsert_defs = Txn_AddBalance_def Txn_SetBalance_def Txn_IncrNonce_def Txn_SetNonce_def
  Txn_SetCode_def Txn_TouchAccount_def Txn_Suicide_def Txn_SetState_def

lemma txn_fields [simp]:
  "txn_snapshot (Txn_AddBalance X T a v txn) = txn_snapshot txn" "txn_snapshots (Txn_AddBalance X T a v txn) = txn_snapshots txn"
  "txn_snapshot (Txn_IncrNonce X T a txn) = txn_snapshot txn" "txn_snapshots (Txn_IncrNonce X T a txn) = txn_snapshots txn"
  "txn_snapshot (Txn_SetCode X T a cd txn) = txn_snapshot txn" "txn_snapshots (Txn_SetCode X T a cd txn) = txn_snapshots txn"
  "txn_snapshot (Txn_TouchAccount X T a txn) = txn_snapshot txn" "txn_snapshots (Txn_TouchAccount X T a txn) = txn_snapshots txn"
  "txn_snapshot (Txn_Suicide X T a txn) = txn_snapshot txn" "txn_snapshots (Txn_Suicide X T a txn) = txn_snapshots txn"
  "txn_snapshot (Txn_SetState X T a k w txn) = txn_snapshot txn" "txn_snapshots (Txn_SetState X T a k w txn) = txn_snapshots txn"
  "txn_snapshot (Txn_AddRefund T g txn) = txn_snapshot txn" "txn_snapshots (Txn_AddRefund T g txn) = txn_snapshots txn"
  "txn_snapshot (Txn_SubRefund T g txn) = txn_snapshot txn" "txn_snapshots (Txn_SubRefund T g txn) = txn_snapshots txn"
  "txn_snapshot (Txn_EmitLog T a ts d txn) = txn_snapshot txn" "txn_snapshots (Txn_EmitLog T a ts d txn) = txn_snapshots txn"
  "txn_snapshot (Txn_CreateAccount X T a txn) = txn_snapshot txn" "txn_snapshots (Txn_CreateAccount X T a txn) = txn_snapshots txn"
  "txn_snapshot (snd (Txn_SubBalance X T a v txn)) = txn_snapshot txn"
  "txn_snapshots (snd (Txn_SubBalance X T a v txn)) = txn_snapshots txn"
  by (simp_all add: txn_upsert_defs Txn_AddRefund_def Txn_SubRefund_def Txn_EmitLog_def Txn_CreateAccount_def
      Txn_SubBalance_def Let_def)

lemma SetStorage_fields [simp]:
  "txn_snapshot (snd (Txn_SetStorage X T txn a k v f)) = txn_snapshot txn"
  "txn_snapshots (snd (Txn_SetStorage X T txn a k v f)) = txn_snapshots txn"
  by (simp_all add: Txn_SetStorage_def Let_def)

lemma getStateObject_insert:
  assumes "trees_ok T"
  shows "getStateObject T (txn\<lparr>txn_txn := rx_insert (tr_state T) t (Address_Bytes a) (EntryObj obj)\<rparr>) b =
    (if b = a then (if so_Deleted obj then None else Some (stateObject_Copy obj)) else getStateObject T (txn\<lparr>txn_txn := t\<rparr>) b)"
  by (simp add: getStateObject_def trees_okD [OF assms] cong: option.case_cong)

lemma getStateObject_upsert:
  assumes "trees_ok T" and "\<And>obj. so_Deleted (f obj) = so_Deleted obj"
  shows "getStateObject T (upsertAccount X T a True f txn) b =
    (if b = a then Some (stateObject_Copy (f (object_or_new X T txn a))) else getStateObject T txn b)"
  using assms(2) object_or_new_live [of X T txn a]
  by (simp add: upsert_True getStateObject_insert [OF assms(1)])

lemma getStateObject_other:
  assumes "trees_ok T" and "\<And>a. k \<noteq> Address_Bytes a"
  shows "getStateObject T (txn\<lparr>txn_txn := rx_insert (tr_state T) t k e\<rparr>) b = getStateObject T (txn\<lparr>txn_txn := t\<rparr>) b"
    and "getStateObject T (txn\<lparr>txn_txn := rx_delete (tr_state T) t k\<rparr>) b = getStateObject T (txn\<lparr>txn_txn := t\<rparr>) b"
  using assms(2) [of b]
  by (simp_all add: getStateObject_def trees_okD [OF assms(1)] eq_commute [of k] cong: option.case_cong)

lemma txn_same [simp]: "txn\<lparr>txn_txn := txn_txn txn\<rparr> = txn"
  by simp

text \<open>Logs and refunds do not touch objects.\<close>

lemma getStateObject_aux:
  assumes "trees_ok T"
  shows "getStateObject T (Txn_EmitLog T a ts d txn) b = getStateObject T txn b"
    and "getStateObject T (AddLog T l txn) b = getStateObject T txn b"
    and "getStateObject T (Txn_AddRefund T g txn) b = getStateObject T txn b"
    and "getStateObject T (Txn_SubRefund T g txn) b = getStateObject T txn b"
    and "getStateObject T (snd (Txn_Logs T txn)) b = getStateObject T txn b"
  by (simp_all add: Txn_EmitLog_def AddLog_def Txn_AddRefund_def Txn_SubRefund_def Txn_Logs_def Let_def
      getStateObject_other [OF assms] split: option.split)

section \<open>Balances\<close>

lemma Txn_GetBalance_nonneg: "0 \<le> Txn_GetBalance T txn a"
  by (auto simp: Txn_GetBalance_def dest: getStateObject_live split: option.split)

lemma balance_upsert:
  assumes "trees_ok T" and "\<And>obj. so_Deleted (f obj) = so_Deleted obj"
    and "\<And>obj. acc_Balance (so_Account (f obj)) = g (acc_Balance (so_Account obj))"
  shows "Txn_GetBalance T (upsertAccount X T a True f txn) b =
    (if b = a then \<bar>g (Txn_GetBalance T txn a)\<bar> else Txn_GetBalance T txn b)"
  using assms(3) object_or_new_balance [of X T txn a]
  by (simp add: Txn_GetBalance_def [of T "upsertAccount _ _ _ _ _ _"] getStateObject_upsert [OF assms(1,2)]
      stateObject_Copy_def Account_Copy_def) (simp add: Txn_GetBalance_def)

lemma balance_ops:
  assumes "trees_ok T"
  shows "Txn_GetBalance T (Txn_AddBalance X T a v txn) b =
      (if b = a then \<bar>Txn_GetBalance T txn a + v\<bar> else Txn_GetBalance T txn b)"
    and "Txn_GetBalance T (Txn_SetBalance X T a v txn) b = (if b = a then \<bar>v\<bar> else Txn_GetBalance T txn b)"
    and "Txn_GetBalance T (Txn_IncrNonce X T a txn) b = Txn_GetBalance T txn b"
    and "Txn_GetBalance T (Txn_SetNonce X T a n txn) b = Txn_GetBalance T txn b"
    and "Txn_GetBalance T (Txn_SetCode X T a cd txn) b = Txn_GetBalance T txn b"
    and "Txn_GetBalance T (Txn_TouchAccount X T a txn) b = Txn_GetBalance T txn b"
    and "Txn_GetBalance T (Txn_SetState X T a k w txn) b = Txn_GetBalance T txn b"
proof -
  note u = balance_upsert [OF assms] and n = Txn_GetBalance_nonneg [of T txn a]
  show "Txn_GetBalance T (Txn_AddBalance X T a v txn) b =
      (if b = a then \<bar>Txn_GetBalance T txn a + v\<bar> else Txn_GetBalance T txn b)"
    unfolding Txn_AddBalance_def by (rule u) (simp_all add: upd_account_def)
  show "Txn_GetBalance T (Txn_SetBalance X T a v txn) b = (if b = a then \<bar>v\<bar> else Txn_GetBalance T txn b)"
    unfolding Txn_SetBalance_def by (subst u [where g = "\<lambda>_. \<bar>v\<bar>"]) (simp_all add: upd_account_def)
  have keep: "Txn_GetBalance T (upsertAccount X T a True f txn) b = Txn_GetBalance T txn b"
    if "\<And>obj. so_Deleted (f obj) = so_Deleted obj" "\<And>obj. acc_Balance (so_Account (f obj)) = acc_Balance (so_Account obj)" for f
    using u [where f = f and g = "\<lambda>x. x" and X = X and a = a and txn = txn and b = b] that n by simp
  show "Txn_GetBalance T (Txn_IncrNonce X T a txn) b = Txn_GetBalance T txn b"
    "Txn_GetBalance T (Txn_SetNonce X T a nn txn) b = Txn_GetBalance T txn b"
    "Txn_GetBalance T (Txn_SetCode X T a cd txn) b = Txn_GetBalance T txn b"
    "Txn_GetBalance T (Txn_TouchAccount X T a txn) b = Txn_GetBalance T txn b"
    "Txn_GetBalance T (Txn_SetState X T a k w txn) b = Txn_GetBalance T txn b" for nn
    unfolding Txn_IncrNonce_def Txn_SetNonce_def Txn_SetCode_def Txn_TouchAccount_def Txn_SetState_def
    by (intro keep; simp add: upd_account_def Let_def)+
qed

lemma balance_aux:
  assumes "trees_ok T"
  shows "Txn_GetBalance T (Txn_EmitLog T a ts d txn) b = Txn_GetBalance T txn b"
    and "Txn_GetBalance T (AddLog T l txn) b = Txn_GetBalance T txn b"
    and "Txn_GetBalance T (Txn_AddRefund T g txn) b = Txn_GetBalance T txn b"
    and "Txn_GetBalance T (Txn_SubRefund T g txn) b = Txn_GetBalance T txn b"
    and "Txn_GetBalance T (snd (Txn_Logs T txn)) b = Txn_GetBalance T txn b"
  by (simp_all add: Txn_GetBalance_def getStateObject_aux [OF assms])

lemma balance_SubBalance:
  assumes "trees_ok T" and "Txn_SubBalance X T a v txn = (None, txn')"
  shows "Txn_GetBalance T txn' b = (if b = a then Txn_GetBalance T txn a - v else Txn_GetBalance T txn b)"
    and "v = 0 \<or> v \<le> Txn_GetBalance T txn a"
proof -
  have u: "Txn_GetBalance T (upsertAccount X T a True (upd_account (\<lambda>x. x\<lparr>acc_Balance := acc_Balance x - v\<rparr>)) txn) b =
      (if b = a then \<bar>Txn_GetBalance T txn a - v\<bar> else Txn_GetBalance T txn b)"
    by (rule balance_upsert [OF assms(1)]) (simp_all add: upd_account_def)
  from assms(2) show "Txn_GetBalance T txn' b = (if b = a then Txn_GetBalance T txn a - v else Txn_GetBalance T txn b)"
    and "v = 0 \<or> v \<le> Txn_GetBalance T txn a"
    using u by (auto simp: Txn_SubBalance_def split: if_splits)
qed

lemma getStateObject_Suicide:
  assumes "trees_ok T"
  shows "getStateObject T (Txn_Suicide X T a txn) b =
    (if b = a then map_option (\<lambda>obj. (upd_account (\<lambda>x. x\<lparr>acc_Balance := 0\<rparr>) obj)\<lparr>so_Suicide := True\<rparr>) (getStateObject T txn a)
     else getStateObject T txn b)"
  using getStateObject_live [of T txn a]
  by (auto simp: Txn_Suicide_def upsertAccount_def getStateObject_insert [OF assms] upd_account_def
      stateObject_Copy_def Account_Copy_def split: option.split)

lemma balance_Suicide:
  assumes "trees_ok T"
  shows "Txn_GetBalance T (Txn_Suicide X T a txn) b = (if b = a then 0 else Txn_GetBalance T txn b)"
  by (simp add: Txn_GetBalance_def getStateObject_Suicide [OF assms] upd_account_def split: option.split)

lemma balance_CreateAccount:
  assumes "trees_ok T"
  shows "Txn_GetBalance T (Txn_CreateAccount X T a txn) b = Txn_GetBalance T txn b"
  using Txn_GetBalance_nonneg [of T txn a]
  by (auto simp: Txn_GetBalance_def Txn_CreateAccount_def Let_def getStateObject_insert [OF assms] upd_account_def
      newStateObject_def stateObject_Copy_def Account_Copy_def split: option.splits)

lemma balance_SetStorage:
  assumes "trees_ok T"
  shows "Txn_GetBalance T (snd (Txn_SetStorage X T txn a k v f)) b = Txn_GetBalance T txn b"
  by (simp add: Txn_SetStorage_def Let_def balance_ops [OF assms] balance_aux [OF assms])

section \<open>Supply\<close>

text \<open>The sum of all balances; there are finitely many addresses.\<close>

definition total_supply :: "('t, 's) trees \<Rightarrow> ('t, 's) txn \<Rightarrow> int" where
  "total_supply T txn = (\<Sum>a \<in> UNIV. Txn_GetBalance T txn a)"

lemma supply_cong: "(\<And>a. Txn_GetBalance T txn' a = Txn_GetBalance T txn a) \<Longrightarrow> total_supply T txn' = total_supply T txn"
  by (simp add: total_supply_def)

lemma supply_change:
  assumes "\<And>b. b \<noteq> a \<Longrightarrow> Txn_GetBalance T txn' b = Txn_GetBalance T txn b"
  shows "total_supply T txn' = total_supply T txn + (Txn_GetBalance T txn' a - Txn_GetBalance T txn a)"
proof -
  have "(\<Sum>b \<in> UNIV - {a}. Txn_GetBalance T txn' b) = (\<Sum>b \<in> UNIV - {a}. Txn_GetBalance T txn b)"
    using assms by (intro sum.cong) auto
  then show ?thesis by (simp add: total_supply_def sum.remove [of UNIV a])
qed

lemma supply_AddBalance:
  assumes "trees_ok T" and "0 \<le> v"
  shows "total_supply T (Txn_AddBalance X T a v txn) = total_supply T txn + v"
  using supply_change [of a T "Txn_AddBalance X T a v txn" txn] assms(2) Txn_GetBalance_nonneg [of T txn a]
  by (simp add: balance_ops [OF assms(1)])

lemma supply_SubBalance:
  assumes "trees_ok T" and "Txn_SubBalance X T a v txn = (None, txn')"
  shows "total_supply T txn' = total_supply T txn - v"
  using supply_change [of a T txn' txn] by (simp add: balance_SubBalance [OF assms])

lemma supply_Suicide:
  assumes "trees_ok T"
  shows "total_supply T (Txn_Suicide X T a txn) = total_supply T txn - Txn_GetBalance T txn a"
  using supply_change [of a T "Txn_Suicide X T a txn" txn] by (simp add: balance_Suicide [OF assms])

lemma supply_same:
  assumes "trees_ok T"
  shows "total_supply T (Txn_IncrNonce X T a txn) = total_supply T txn" "total_supply T (Txn_SetCode X T a cd txn) = total_supply T txn"
    "total_supply T (Txn_TouchAccount X T a txn) = total_supply T txn" "total_supply T (Txn_CreateAccount X T a txn) = total_supply T txn"
    "total_supply T (snd (Txn_SetStorage X T txn a k v f)) = total_supply T txn" "total_supply T (Txn_EmitLog T a ts d txn) = total_supply T txn"
    "total_supply T (Txn_AddRefund T g txn) = total_supply T txn" "total_supply T (snd (Txn_Logs T txn)) = total_supply T txn"
  by (simp_all add: total_supply_def balance_ops [OF assms] balance_aux [OF assms] balance_CreateAccount [OF assms]
      balance_SetStorage [OF assms])

section \<open>Types of the entries\<close>

definition tree_typed :: "('t, 's) trees \<Rightarrow> 't \<Rightarrow> bool" where
  "tree_typed T t \<longleftrightarrow>
     (\<forall>a e. rx_get (tr_state T) t (Address_Bytes a) = Some e \<longrightarrow> (\<exists>obj. e = EntryObj obj)) \<and>
     (\<forall>e. rx_get (tr_state T) t logIndex = Some e \<longrightarrow> (\<exists>ls. e = EntryLogs ls)) \<and>
     (\<forall>e. rx_get (tr_state T) t refundIndex = Some e \<longrightarrow> (\<exists>r. e = EntryRefund r)) \<and>
     (\<forall>k obj. rx_get (tr_state T) t k = Some (EntryObj obj) \<longrightarrow> (\<exists>a. k = Address_Bytes a))"

definition txn_ok :: "('t, 's) trees \<Rightarrow> ('t, 's) txn \<Rightarrow> bool" where
  "txn_ok T txn \<longleftrightarrow> tree_typed T (txn_txn txn) \<and> (\<forall>t \<in> set (txn_snapshots txn). tree_typed T t)"

lemma tree_typed_insert:
  assumes "trees_ok T" and "tree_typed T t"
  shows "tree_typed T (rx_insert (tr_state T) t (Address_Bytes a) (EntryObj obj))"
    and "tree_typed T (rx_insert (tr_state T) t logIndex (EntryLogs ls))"
    and "tree_typed T (rx_insert (tr_state T) t refundIndex (EntryRefund r))"
    and "tree_typed T (rx_delete (tr_state T) t logIndex)"
    and "tree_typed T (rx_delete (tr_state T) t refundIndex)"
  using assms(2) by (auto simp: tree_typed_def trees_okD [OF assms(1)])

lemma txn_ok_upd: "txn_ok T txn \<Longrightarrow> tree_typed T t \<Longrightarrow> txn_ok T (txn\<lparr>txn_txn := t\<rparr>)"
  by (simp add: txn_ok_def)

lemma txn_ok_upsert: "trees_ok T \<Longrightarrow> txn_ok T txn \<Longrightarrow> txn_ok T (upsertAccount X T a cr f txn)"
  by (auto simp: upsertAccount_def Let_def split: option.split intro!: txn_ok_upd tree_typed_insert)
    (auto simp: txn_ok_def)

lemma txn_ok_ops:
  assumes "trees_ok T" and "txn_ok T txn"
  shows "txn_ok T (Txn_AddBalance X T a v txn)" "txn_ok T (snd (Txn_SubBalance X T a v txn))"
    "txn_ok T (Txn_SetBalance X T a v txn)" "txn_ok T (Txn_IncrNonce X T a txn)" "txn_ok T (Txn_SetNonce X T a n txn)"
    "txn_ok T (Txn_SetCode X T a cd txn)" "txn_ok T (Txn_TouchAccount X T a txn)" "txn_ok T (Txn_Suicide X T a txn)"
    "txn_ok T (Txn_SetState X T a k w txn)" "txn_ok T (AddSealingReward X T a v txn)"
  using assms
  by (simp_all add: Txn_AddBalance_def Txn_SubBalance_def Txn_SetBalance_def Txn_IncrNonce_def Txn_SetNonce_def
      Txn_SetCode_def Txn_TouchAccount_def Txn_Suicide_def Txn_SetState_def AddSealingReward_def txn_ok_upsert)

lemma txn_ok_aux:
  assumes "trees_ok T" and "txn_ok T txn"
  shows "txn_ok T (Txn_EmitLog T a ts d txn)" "txn_ok T (AddLog T l txn)" "txn_ok T (Txn_AddRefund T g txn)"
    "txn_ok T (Txn_SubRefund T g txn)" "txn_ok T (snd (Txn_Logs T txn))" "txn_ok T (Txn_CreateAccount X T a txn)"
    "txn_ok T (snd (Txn_Snapshot txn))"
proof -
  have t: "tree_typed T (txn_txn txn)" using assms(2) by (simp add: txn_ok_def)
  note i = tree_typed_insert [OF assms(1) t] and u = txn_ok_upd [OF assms(2)]
  show "txn_ok T (Txn_EmitLog T a ts d txn)" "txn_ok T (AddLog T l txn)" "txn_ok T (Txn_AddRefund T g txn)"
    "txn_ok T (Txn_SubRefund T g txn)" "txn_ok T (snd (Txn_Logs T txn))" "txn_ok T (Txn_CreateAccount X T a txn)"
    using assms(2)
    by (auto simp: Txn_EmitLog_def AddLog_def Txn_AddRefund_def Txn_SubRefund_def Txn_Logs_def Txn_CreateAccount_def
        Let_def intro!: u i split: option.split)
  show "txn_ok T (snd (Txn_Snapshot txn))" using assms(2) by (auto simp: Txn_Snapshot_def txn_ok_def)
qed

lemma txn_ok_SetStorage:
  assumes "trees_ok T" and "txn_ok T txn"
  shows "txn_ok T (snd (Txn_SetStorage X T txn a k v f))"
  using assms by (simp add: Txn_SetStorage_def Let_def txn_ok_ops txn_ok_aux)

lemma txn_ok_Revert: "txn_ok T txn \<Longrightarrow> Txn_RevertToSnapshot i txn = Ret txn' \<Longrightarrow> txn_ok T txn'"
  by (auto simp: Txn_RevertToSnapshot_def txn_ok_def split: if_splits)

lemma txn_ok_new: "trees_ok T \<Longrightarrow> txn_ok T (newTxn T sn)"
  by (simp add: newTxn_def txn_ok_def tree_typed_def trees_okD)

section \<open>Deletion at the end of a transaction\<close>

definition deleted_entry :: "'s entry \<Rightarrow> 's entry" where
  "deleted_entry e = (case e of EntryObj obj \<Rightarrow> EntryObj ((stateObject_Copy obj)\<lparr>so_Deleted := True\<rparr>) | _ \<Rightarrow> e)"

lemma mark_deleted_spec:
  assumes "trees_ok T" and "distinct ks" and "\<forall>k \<in> set ks. \<exists>obj. rx_get (tr_state T) t k = Some (EntryObj obj)"
  shows "\<exists>t'. mark_deleted T ks t = Ret t' \<and>
    (\<forall>k. rx_get (tr_state T) t' k =
      (if k \<in> set ks then map_option deleted_entry (rx_get (tr_state T) t k) else rx_get (tr_state T) t k))"
  using assms(2,3)
proof (induction ks arbitrary: t)
  case (Cons k ks)
  obtain obj where obj: "rx_get (tr_state T) t k = Some (EntryObj obj)" using Cons.prems(2) by auto
  let ?t = "rx_insert (tr_state T) t k (EntryObj ((stateObject_Copy obj)\<lparr>so_Deleted := True\<rparr>))"
  have get: "rx_get (tr_state T) ?t j = (if j = k then Some (deleted_entry (EntryObj obj)) else rx_get (tr_state T) t j)" for j
    by (simp add: trees_okD [OF assms(1)] deleted_entry_def)
  have "\<forall>j \<in> set ks. \<exists>obj. rx_get (tr_state T) ?t j = Some (EntryObj obj)"
    using Cons.prems get by auto
  from Cons.IH [OF _ this] Cons.prems(1) obtain t' where
    t': "mark_deleted T ks ?t = Ret t'"
      "\<forall>j. rx_get (tr_state T) t' j = (if j \<in> set ks then map_option deleted_entry (rx_get (tr_state T) ?t j) else rx_get (tr_state T) ?t j)"
    by auto
  then have "rx_get (tr_state T) t' j =
      (if j \<in> set (k # ks) then map_option deleted_entry (rx_get (tr_state T) t j) else rx_get (tr_state T) t j)" for j
    using get obj Cons.prems(1) by auto
  with t'(1) obj show ?case by auto
qed simp

definition doomed :: "ext \<Rightarrow> bool \<Rightarrow> 's entry \<Rightarrow> bool" where
  "doomed X flag e = (case e of EntryObj a \<Rightarrow> so_Suicide a \<or> stateObject_Empty X a \<and> flag | _ \<Rightarrow> False)"

lemma CleanDeleteObjects_spec:
  assumes "trees_ok T" and "txn_ok T txn"
  shows "\<exists>t'. CleanDeleteObjects X T flag txn = Ret (txn\<lparr>txn_txn := t'\<rparr>) \<and>
    (\<forall>k. rx_get (tr_state T) t' k =
      (if k = refundIndex then None else map_option (\<lambda>e. if doomed X flag e then deleted_entry e else e) (rx_get (tr_state T) (txn_txn txn) k)))"
proof -
  let ?w = "rx_walk (tr_state T) (txn_txn txn)" and ?get = "rx_get (tr_state T)"
  let ?ks = "[k. (k, v) \<leftarrow> ?w, doomed X flag v]"
  have walk: "distinct (map fst ?w)" "map_of ?w = ?get (txn_txn txn)" using trees_okD(4,5) [OF assms(1)] by auto
  have ks: "k \<in> set ?ks \<longleftrightarrow> (\<exists>e. ?get (txn_txn txn) k = Some e \<and> doomed X flag e)" for k
    using map_of_eq_Some_iff [OF walk(1)] by (auto simp: walk(2) [symmetric])
  have kseq: "[k. (k, v) \<leftarrow> w, doomed X flag v] = map fst (filter (\<lambda>p. doomed X flag (snd p)) w)" for w :: "(bytes \<times> 's entry) list"
    by (induction w) auto
  have d: "distinct ?ks" unfolding kseq using walk(1) by (rule distinct_map_filter)
  have "\<forall>k \<in> set ?ks. \<exists>obj. ?get (txn_txn txn) k = Some (EntryObj obj)"
    using ks by (fastforce simp: doomed_def split: entry.splits)
  from mark_deleted_spec [OF assms(1) d this] obtain t' where t': "mark_deleted T ?ks (txn_txn txn) = Ret t'"
      "\<forall>k. ?get t' k = (if k \<in> set ?ks then map_option deleted_entry (?get (txn_txn txn) k) else ?get (txn_txn txn) k)"
    by auto
  have g: "?get t' k = map_option (\<lambda>e. if doomed X flag e then deleted_entry e else e) (?get (txn_txn txn) k)" for k
    using t'(2) ks by (cases "?get (txn_txn txn) k") auto
  have "CleanDeleteObjects X T flag txn = Ret (txn\<lparr>txn_txn := rx_delete (tr_state T) t' refundIndex\<rparr>)"
    using t'(1) by (simp add: CleanDeleteObjects_def doomed_def Let_def)
  then show ?thesis by (auto simp: trees_okD [OF assms(1)] g)
qed

definition same_kind :: "'s entry \<Rightarrow> 's entry \<Rightarrow> bool" where
  "same_kind e e' \<longleftrightarrow>
     (case e of EntryObj _ \<Rightarrow> (\<exists>x. e' = EntryObj x) | EntryLogs _ \<Rightarrow> (\<exists>x. e' = EntryLogs x) | EntryRefund _ \<Rightarrow> (\<exists>x. e' = EntryRefund x))"

lemma tree_typed_same_kind:
  assumes "tree_typed T t"
    and "\<And>k e'. rx_get (tr_state T) t' k = Some e' \<Longrightarrow> \<exists>e. rx_get (tr_state T) t k = Some e \<and> same_kind e e'"
  shows "tree_typed T t'"
  unfolding tree_typed_def
proof (intro conjI allI impI)
  fix a e
  assume "rx_get (tr_state T) t' (Address_Bytes a) = Some e"
  from assms(2) [OF this] assms(1) show "\<exists>obj. e = EntryObj obj" by (fastforce simp: tree_typed_def same_kind_def)
next
  fix e
  assume "rx_get (tr_state T) t' logIndex = Some e"
  from assms(2) [OF this] assms(1) show "\<exists>ls. e = EntryLogs ls" by (fastforce simp: tree_typed_def same_kind_def)
next
  fix e
  assume "rx_get (tr_state T) t' refundIndex = Some e"
  from assms(2) [OF this] assms(1) show "\<exists>r. e = EntryRefund r" by (fastforce simp: tree_typed_def same_kind_def)
next
  fix k obj
  assume "rx_get (tr_state T) t' k = Some (EntryObj obj)"
  from assms(2) [OF this] obtain e where e: "rx_get (tr_state T) t k = Some e" "same_kind e (EntryObj obj)" by auto
  then obtain x where "e = EntryObj x" by (cases e) (simp_all add: same_kind_def)
  with e(1) assms(1) show "\<exists>a. k = Address_Bytes a" by (auto simp: tree_typed_def)
qed

lemma CleanDeleteObjects_effect:
  assumes "trees_ok T" and "txn_ok T txn" and "CleanDeleteObjects X T flag txn = Ret txn'"
  shows "txn_ok T txn'" and "Txn_GetRefund T txn' = 0" and "tree_logs T txn' = tree_logs T txn"
    and "getStateObject T txn' a =
      (case rx_get (tr_state T) (txn_txn txn) (Address_Bytes a) of
         Some e \<Rightarrow> if doomed X flag e then None else getStateObject T txn a
       | None \<Rightarrow> getStateObject T txn a)"
    and "txn_snapshot txn' = txn_snapshot txn" and "txn_snapshots txn' = txn_snapshots txn"
proof -
  obtain t' where eq: "txn' = txn\<lparr>txn_txn := t'\<rparr>" and g: "\<And>k. rx_get (tr_state T) t' k =
      (if k = refundIndex then None else map_option (\<lambda>e. if doomed X flag e then deleted_entry e else e) (rx_get (tr_state T) (txn_txn txn) k))"
    using CleanDeleteObjects_spec [OF assms(1,2), of X flag] assms(3) by auto
  have typed: "tree_typed T (txn_txn txn)" using assms(2) by (simp add: txn_ok_def)
  have "\<exists>e. rx_get (tr_state T) (txn_txn txn) k = Some e \<and> same_kind e e'" if "rx_get (tr_state T) t' k = Some e'" for k e'
    using that by (auto simp: g same_kind_def deleted_entry_def split: if_splits entry.splits)
  then have "tree_typed T t'" using tree_typed_same_kind [OF typed] by blast
  then show "txn_ok T txn'" using assms(2) by (simp add: eq txn_ok_def)
  show "Txn_GetRefund T txn' = 0" by (simp add: Txn_GetRefund_def eq g)
  show "tree_logs T txn' = tree_logs T txn"
    by (auto simp: tree_logs_def eq g doomed_def deleted_entry_def split: option.splits entry.splits)
  show "getStateObject T txn' a =
      (case rx_get (tr_state T) (txn_txn txn) (Address_Bytes a) of
         Some e \<Rightarrow> if doomed X flag e then None else getStateObject T txn a
       | None \<Rightarrow> getStateObject T txn a)"
    by (auto simp: getStateObject_def eq g doomed_def deleted_entry_def split: option.splits entry.splits)
  show "txn_snapshot txn' = txn_snapshot txn" "txn_snapshots txn' = txn_snapshots txn" by (simp_all add: eq)
qed

lemma supply_CleanDeleteObjects:
  assumes "trees_ok T" and "txn_ok T txn" and "CleanDeleteObjects X T flag txn = Ret txn'"
  shows "total_supply T txn' \<le> total_supply T txn"
proof -
  have "Txn_GetBalance T txn' a \<le> Txn_GetBalance T txn a" for a
    using Txn_GetBalance_nonneg [of T txn a]
    by (auto simp: Txn_GetBalance_def CleanDeleteObjects_effect(4) [OF assms] split: option.splits)
  then show ?thesis unfolding total_supply_def by (intro sum_mono)
qed

end
