(* ===== verification/Example_Trees.thy ===== *)
theory Example_Trees
  imports Txn "HOL-Library.AList"
begin

text \<open>
  Concrete stand-ins for third-party code, for the witnesses: association lists as the trees of the
  transient state, which satisfy the laws \<open>trees_ok\<close>, and a record of simple functions as \<open>ext\<close>.
\<close>

section \<open>Trees\<close>

definition al_radix :: "((bytes \<times> 'v) list, 'v) radix" where
  "al_radix = \<lparr>rx_new = [], rx_get = map_of, rx_insert = (\<lambda>t k v. (k, v) # t),
     rx_delete = (\<lambda>t k. AList.delete k t), rx_walk = AList.clearjunk\<rparr>"

type_synonym al_store = "(bytes \<times> bytes option) list"
type_synonym al_state = "(bytes \<times> al_store entry) list"

definition al_trees :: "(al_state, al_store) trees" where
  "al_trees = \<lparr>tr_state = al_radix, tr_store = al_radix\<rparr>"

lemma radix_ok_al: "radix_ok al_radix"
  by (simp add: radix_ok_def al_radix_def delete_conv map_of_clearjunk distinct_clearjunk)

lemma trees_ok_al [simp]: "trees_ok al_trees"
  by (simp add: trees_ok_def al_trees_def radix_ok_al)

section \<open>Hashes and curves\<close>

definition ext0 :: ext where
  "ext0 = \<lparr>x_keccak256 = (\<lambda>bs. be_bytes 32 (Suc (be_nat bs))), x_rlp_marshal = (\<lambda>_. [1, 2, 3]),
     x_rlp_parse = (\<lambda>_. None), x_rlp_len = (\<lambda>_. 0), x_rlp_GetElems = (\<lambda>_. None), x_rlp_GetBytes = (\<lambda>_. None),
     x_rlp_GetHash = (\<lambda>_. None), x_rlp_GetUint64 = (\<lambda>_. None), x_rlp_GetBigInt = (\<lambda>_. None),
     x_append_cap = (\<lambda>c n. max c n), x_sha256 = (\<lambda>_. replicate 32 0), x_ripemd160 = (\<lambda>_. replicate 20 0),
     x_RecoverCompact = (\<lambda>_ _. None), x_MarshalPublicKey = (\<lambda>_. []), x_G1_Unmarshal = (\<lambda>_. None),
     x_G1_Marshal = (\<lambda>_. []), x_G1_Add = (\<lambda>p q. p), x_G1_ScalarMult = (\<lambda>p n. p), x_G2_Unmarshal = (\<lambda>_. None),
     x_PairingCheck = (\<lambda>_ _. True)\<rparr>"

definition snap0 :: snapshot where
  "snap0 = \<lparr>snap_GetCode = (\<lambda>h. ([], True)), snap_GetStorage = (\<lambda>r k. 0),
     snap_GetAccount = (\<lambda>a. Inr (if a = 0xaa
       then Some \<lparr>acc_Nonce = 0, acc_Balance = 1000000, acc_Root = EmptyStateHash, acc_CodeHash = EmptyCodeHash ext0\<rparr>
       else None))\<rparr>"

end
