(* ===== verification/Account.thy ===== *)
theory Account
  imports Txn
begin

text \<open>
  The RLP form of an account (\<open>account.go\<close>), and what the program relies on in the RLP library: a value that was
  marshalled can be parsed, numbers are big-endian byte strings without leading zeros and null is the
  empty byte string.
\<close>

section \<open>Definitions\<close>

text \<open>\<open>UnmarshalRlp\<close> of a zero account, as it is called; \<open>None\<close> is an error.\<close>

definition Account_UnmarshalRlp :: "ext \<Rightarrow> bytes \<Rightarrow> account option" where
  "Account_UnmarshalRlp X b =
     (case x_rlp_parse X b of
        None \<Rightarrow> None
      | Some v \<Rightarrow>
          (case x_rlp_GetElems X v of
             None \<Rightarrow> None
           | Some elems \<Rightarrow>
               if length elems \<noteq> 4 then None
               else
                 (case x_rlp_GetUint64 X (elems ! 0) of
                    None \<Rightarrow> None
                  | Some nonce \<Rightarrow>
                      (case x_rlp_GetBigInt X (elems ! 1) of
                         None \<Rightarrow> None
                       | Some balance \<Rightarrow>
                           (case x_rlp_GetHash X (elems ! 2) of
                              None \<Rightarrow> None
                            | Some root \<Rightarrow>
                                (case x_rlp_GetBytes X (elems ! 3) of
                                   None \<Rightarrow> None
                                 | Some codeHash \<Rightarrow>
                                     Some \<lparr>acc_Nonce = nonce, acc_Balance = balance, acc_Root = root, acc_CodeHash = codeHash\<rparr>))))))"

definition Account_MarshalWith :: "account \<Rightarrow> rlp" where
  "Account_MarshalWith a =
     RlpArray [RlpUint (acc_Nonce a), RlpBigInt (acc_Balance a), RlpBytes (Hash_Bytes (acc_Root a)), RlpBytes (acc_CodeHash a)]"

section \<open>Laws of the RLP library\<close>

fun rlp_flat :: "rlp \<Rightarrow> rlp" where
  "rlp_flat (RlpBytes b) = RlpBytes b"
| "rlp_flat (RlpUint n) = RlpBytes (big_Bytes (uint n))"
| "rlp_flat (RlpBigInt i) = RlpBytes (big_Bytes i)"
| "rlp_flat RlpNull = RlpBytes []"
| "rlp_flat (RlpArray vs) = RlpArray (map rlp_flat vs)"

definition rlp_ok :: "ext \<Rightarrow> bool" where
  "rlp_ok X \<longleftrightarrow>
     (\<forall>v. x_rlp_parse X (x_rlp_marshal X v) = Some (rlp_flat v)) \<and>
     (\<forall>vs. x_rlp_GetElems X (RlpArray vs) = Some vs) \<and>
     (\<forall>b. x_rlp_GetBytes X (RlpBytes b) = Some b) \<and>
     (\<forall>b. length b = 32 \<longrightarrow> x_rlp_GetHash X (RlpBytes b) = Some (BytesToHash b)) \<and>
     (\<forall>b. length b \<le> 8 \<longrightarrow> x_rlp_GetUint64 X (RlpBytes b) = Some (of_nat (be_nat b))) \<and>
     (\<forall>b. x_rlp_GetBigInt X (RlpBytes b) = Some (big_SetBytes b))"

section \<open>Round trip\<close>

lemma length_big_Bytes_u64: "length (big_Bytes (uint (n :: u64))) \<le> 8"
proof -
  have "big_BitLen (uint n) \<le> 64" using big_BitLen_le_iff [of "uint n" 64] uint_lt2p [of n] by simp
  then show ?thesis by (simp add: big_Bytes_def)
qed

lemma account_unmarshal:
  assumes "rlp_ok X" and "0 \<le> acc_Balance a"
  shows "Account_UnmarshalRlp X (x_rlp_marshal X (Account_MarshalWith a)) = Some a"
proof -
  have "of_nat (be_nat (big_Bytes (uint n))) = n" for n :: u64
    using be_nat_big_Bytes [of "uint n"] by simp
  moreover have "big_SetBytes (big_Bytes (acc_Balance a)) = acc_Balance a"
    using be_nat_big_Bytes [of "acc_Balance a"] assms(2) by (simp add: big_SetBytes_def)
  moreover have "BytesToHash (Hash_Bytes (acc_Root a)) = acc_Root a" by simp
  ultimately show ?thesis
    using assms(1) length_big_Bytes_u64 [of "acc_Nonce a"]
    by (simp add: Account_UnmarshalRlp_def Account_MarshalWith_def rlp_ok_def)
qed

text \<open>
  C33: An account survives its RLP form: what \<open>MarshalWith\<close> encodes, \<open>UnmarshalRlp\<close> reads back, for every account with a balance
  that is not negative, a code hash of any length included.
\<close>

theorem account_roundtrip:
  assumes "rlp_ok X" and "0 \<le> acc_Balance a"
  shows "Account_UnmarshalRlp X (x_rlp_marshal X (Account_MarshalWith a)) = Some a"
  using assms by (rule account_unmarshal)

end
