(* ===== verification/Itrie_Encoding.thy ===== *)
theory Itrie_Encoding
  imports Prelude
begin

text \<open>
  Keys of the Merkle Patricia trie (\<open>immutable-trie/encoding.go\<close>): a key of the trie is the list of its
  nibbles followed by the terminator 16; a part of a key is stored in the compact (hex prefix) encoding, two
  nibbles per byte behind a flag nibble that tells the parity and whether the terminator was there.
\<close>

unbundle bit_operations_syntax

section \<open>Definitions\<close>

definition hasTerm :: "bytes \<Rightarrow> bool" where
  "hasTerm s \<longleftrightarrow> 0 < length s \<and> s ! (length s - 1) = 16"

text \<open>The loop of \<open>decodeNibbles\<close> writes one byte per pair of nibbles and panics out of range.\<close>

fun decodeNibbles :: "bytes \<Rightarrow> bytes \<Rightarrow> bytes go" where
  "decodeNibbles [] dst = Ret dst"
| "decodeNibbles [a] dst = Panic"
| "decodeNibbles (a # b # ns) [] = Panic"
| "decodeNibbles (a # b # ns) (d # dst) = bnd (decodeNibbles ns dst) (\<lambda>r. Ret ((push_bit 4 a OR b) # r))"

definition hexToCompact :: "bytes \<Rightarrow> bytes go" where
  "hexToCompact hex =
     (let terminator = (if hasTerm hex then 1 else 0);
          hex = (if hasTerm hex then take (length hex - 1) hex else hex);
          buf = replicate (length hex div 2 + 1) 0;
          b0 = push_bit 5 terminator;
          (b0, hex) = (if length hex mod 2 = 1 then (b0 OR push_bit 4 1 OR hex ! 0, drop 1 hex) else (b0, hex))
      in bnd (decodeNibbles hex (drop 1 buf)) (\<lambda>rest. Ret (b0 # rest)))"

definition keybytesToHex :: "bytes \<Rightarrow> bytes" where
  "keybytesToHex str = concat (map (\<lambda>b. [b div 16, b mod 16]) str) @ [16]"

text \<open>\<open>base[chop:]\<close> panics when the slice is shorter, which is the case for an empty argument.\<close>

definition compactToHex :: "bytes \<Rightarrow> bytes go" where
  "compactToHex compact =
     (let base = keybytesToHex compact;
          base = (if base ! 0 < 2 then take (length base - 1) base else base);
          chop = unat (2 - (base ! 0 AND 1))
      in if length base < chop then Panic else Ret (drop chop base))"

section \<open>Nibbles\<close>

abbreviation nibbles :: "bytes \<Rightarrow> bool" where
  "nibbles ns \<equiv> \<forall>x \<in> set ns. x < 16"

text \<open>A part of a key: nibbles, with or without the terminator at the end.\<close>

definition valid_hex :: "bytes \<Rightarrow> bool" where
  "valid_hex h \<longleftrightarrow> nibbles h \<or> (\<exists>ns. h = ns @ [16] \<and> nibbles ns)"

lemma unat_nibble: "(x :: byte) < 16 \<longleftrightarrow> unat x < 16"
  by (simp add: word_less_nat_alt)

lemma byte_div_16 [simp]: "(b :: byte) div 16 < 16"
  using unat_byte_less [of b] by (simp add: word_less_nat_alt unat_div del: unat_byte_less)

lemma byte_mod_16 [simp]: "(b :: byte) mod 16 < 16"
  by (simp add: word_less_nat_alt unat_mod)

text \<open>Two nibbles make a byte; all pairs are checked.\<close>

lemma nibble_cases:
  assumes "(x :: byte) < 16"
  shows "x \<in> set (map of_nat [0..<16])"
proof -
  have "x = of_nat (unat x)" by simp
  moreover have "unat x \<in> set [0..<16]" using assms by (simp add: unat_nibble)
  ultimately show ?thesis by (metis image_eqI set_map)
qed

lemma pair_byte:
  assumes "(a :: byte) < 16" and "(b :: byte) < 16"
  shows "(push_bit 4 a OR b) div 16 = a" and "(push_bit 4 a OR b) mod 16 = b"
proof -
  have "\<forall>a \<in> set (map of_nat [0..<16]). \<forall>b \<in> set (map of_nat [0..<16]).
      (push_bit 4 a OR b) div 16 = (a :: byte) \<and> (push_bit 4 a OR b) mod 16 = b"
    by code_simp
  with nibble_cases [OF assms(1)] nibble_cases [OF assms(2)]
  show "(push_bit 4 a OR b) div 16 = a" and "(push_bit 4 a OR b) mod 16 = b" by blast+
qed

lemma keybytesToHex_simps [simp]:
  "keybytesToHex [] = [16]" "keybytesToHex (b # bs) = b div 16 # b mod 16 # keybytesToHex bs"
  by (simp_all add: keybytesToHex_def)

lemma length_keybytesToHex [simp]: "length (keybytesToHex bs) = 2 * length bs + 1"
  by (induction bs) simp_all

lemma keybytesToHex_nibbles: "\<exists>ns. keybytesToHex bs = ns @ [16] \<and> nibbles ns"
proof (induction bs)
  case Nil
  then show ?case by simp
next
  case (Cons b bs)
  then obtain ns where "keybytesToHex bs = ns @ [16]" "nibbles ns" by blast
  then show ?case by (intro exI [of _ "b div 16 # b mod 16 # ns"]) simp
qed

lemma byte_div_mod: "(b :: byte) = c \<longleftrightarrow> b div 16 = c div 16 \<and> b mod 16 = c mod 16"
  by (metis div_mult_mod_eq)

lemma keybytesToHex_inj [simp]: "keybytesToHex xs = keybytesToHex ys \<longleftrightarrow> xs = ys"
proof (induction xs arbitrary: ys)
  case Nil
  show ?case by (cases ys) simp_all
next
  case (Cons x xs)
  show ?case by (cases ys) (auto simp: Cons.IH byte_div_mod [of x])
qed

lemma decodeNibbles_pairs:
  assumes "length ns = 2 * n" and "nibbles ns"
  shows "\<exists>r. decodeNibbles ns (replicate n 0) = Ret r \<and> keybytesToHex r = ns @ [16]"
  using assms
proof (induction n arbitrary: ns)
  case 0
  then show ?case by simp
next
  case (Suc n)
  then obtain a b ns' where ns: "ns = a # b # ns'" "length ns' = 2 * n"
    by (cases ns; cases "tl ns") auto
  with Suc obtain r where "decodeNibbles ns' (replicate n 0) = Ret r" "keybytesToHex r = ns' @ [16]" by auto
  with Suc.prems ns show ?case by (simp add: pair_byte)
qed

section \<open>The compact encoding\<close>

lemma hasTerm_snoc [simp]: "hasTerm (ns @ [x]) \<longleftrightarrow> x = 16" "\<not> hasTerm []"
  by (simp_all add: hasTerm_def)

lemma nibbles_no_term: "nibbles ns \<Longrightarrow> \<not> hasTerm ns"
  by (cases ns rule: rev_cases) auto

lemma flag_nibbles:
  assumes "(x :: byte) < 16" and "f \<in> {0, 1}"
  shows "(push_bit 5 f OR push_bit 4 1 OR x) div 16 = 2 * f + 1" and "(push_bit 5 f OR push_bit 4 1 OR x) mod 16 = x"
    and "(push_bit 5 f) div 16 = 2 * f" and "(push_bit 5 f) mod 16 = 0"
proof -
  have "\<forall>f \<in> set [0, 1]. \<forall>x \<in> set (map of_nat [0..<16]).
      (push_bit 5 f OR push_bit 4 1 OR x) div 16 = (2 * f + 1 :: byte) \<and> (push_bit 5 f OR push_bit 4 1 OR x) mod 16 = x \<and>
      (push_bit 5 f) div 16 = 2 * f \<and> (push_bit 5 f) mod 16 = 0"
    by code_simp
  with nibble_cases [OF assms(1)] assms(2)
  show "(push_bit 5 f OR push_bit 4 1 OR x) div 16 = 2 * f + 1" "(push_bit 5 f OR push_bit 4 1 OR x) mod 16 = x"
    "(push_bit 5 f) div 16 = 2 * f" "(push_bit 5 f) mod 16 = 0" by (metis insert_iff list.simps(15) empty_iff)+
qed

text \<open>Both forms of a key part, by the value of the terminator flag.\<close>

definition with_term :: "byte \<Rightarrow> bytes \<Rightarrow> bytes" where
  "with_term f ns = (if f = 1 then ns @ [16] else ns)"

lemma valid_hex_cases:
  assumes "valid_hex h"
  obtains f ns where "f \<in> {0, 1}" and "nibbles ns" and "h = with_term f ns"
  using assms unfolding valid_hex_def with_term_def
  by (metis insertI1 insertI2 zero_neq_one singletonI)

lemma hexToCompact_with_term:
  assumes "f \<in> {0, 1}" and "nibbles ns"
  shows "hexToCompact (with_term f ns) =
    (if odd (length ns)
     then bnd (decodeNibbles (drop 1 ns) (replicate (length ns div 2) 0)) (\<lambda>r. Ret ((push_bit 5 f OR push_bit 4 1 OR ns ! 0) # r))
     else bnd (decodeNibbles ns (replicate (length ns div 2) 0)) (\<lambda>r. Ret (push_bit 5 f # r)))"
proof -
  have "hasTerm (with_term f ns) \<longleftrightarrow> f = 1" and "f = 1 \<Longrightarrow> take (length (with_term f ns) - 1) (with_term f ns) = ns"
    using nibbles_no_term [OF assms(2)] by (simp_all add: with_term_def)
  then show ?thesis
    using assms(1) by (auto simp: hexToCompact_def Let_def with_term_def odd_iff_mod_2_eq_one)
qed

lemma hexToCompact_parts:
  assumes "f \<in> {0, 1}" and "nibbles ns"
  shows "\<exists>b0 r. hexToCompact (with_term f ns) = Ret (b0 # r) \<and>
    (if odd (length ns)
     then b0 div 16 = 2 * f + 1 \<and> b0 mod 16 # keybytesToHex r = ns @ [16]
     else b0 div 16 = 2 * f \<and> keybytesToHex r = ns @ [16])"
proof (cases "odd (length ns)")
  case True
  then obtain x ns' where ns: "ns = x # ns'" "even (length ns')" by (cases ns) auto
  then obtain n where n: "length ns' = 2 * n" by auto
  obtain r where "decodeNibbles ns' (replicate n 0) = Ret r" "keybytesToHex r = ns' @ [16]"
    using decodeNibbles_pairs [OF n] assms(2) ns by auto
  moreover have "x < 16" using assms(2) ns by simp
  ultimately show ?thesis
    unfolding hexToCompact_with_term [OF assms]
    using ns n flag_nibbles(1,2) [OF \<open>x < 16\<close> assms(1)] by simp
next
  case False
  then obtain n where n: "length ns = 2 * n" by auto
  obtain r where "decodeNibbles ns (replicate n 0) = Ret r" "keybytesToHex r = ns @ [16]"
    using decodeNibbles_pairs [OF n assms(2)] by auto
  then show ?thesis
    using n flag_nibbles(3,4) [of 0, OF _ assms(1)] by (simp add: hexToCompact_with_term [OF assms])
qed

text \<open>
  The compact encoding of a part of a key is total and can be decoded: for nibbles of any number, with or
  without the terminator, \<open>hexToCompact\<close> does not panic and \<open>compactToHex\<close> gives the part back.
\<close>

lemma hexToCompact_decodes:
  assumes "valid_hex h"
  shows "\<exists>c. hexToCompact h = Ret c \<and> compactToHex c = Ret h"
proof -
  obtain f ns where h: "f \<in> {0, 1}" "nibbles ns" "h = with_term f ns" using valid_hex_cases [OF assms] .
  obtain b0 r where c: "hexToCompact h = Ret (b0 # r)" and
    p: "if odd (length ns) then b0 div 16 = 2 * f + 1 \<and> b0 mod 16 # keybytesToHex r = ns @ [16]
        else b0 div 16 = 2 * f \<and> keybytesToHex r = ns @ [16]"
    using hexToCompact_parts [OF h(1,2)] h(3) by blast
  have l: "2 * length r + 1 = length (keybytesToHex r)" by simp
  have "compactToHex (b0 # r) = Ret h"
  proof (cases "odd (length ns)")
    case True
    then obtain x ns' where "ns = x # ns'" by (cases ns) auto
    with True p l h show ?thesis by (auto simp: compactToHex_def with_term_def)
  next
    case False
    with p l h show ?thesis by (auto simp: compactToHex_def with_term_def)
  qed
  with c show ?thesis by blast
qed

end
