(* ===== verification/Itrie_Node.thy ===== *)
theory Itrie_Node
  imports Runtime Itrie_Encoding
begin

text \<open>
  Nodes of the Merkle Patricia trie and their decoding (\<open>immutable-trie/node.go\<close>). A node is a
  tree: the pointer to a child is the child itself, nil is \<open>None\<close>. The field \<open>hash\<close> of the
  embedded struct \<open>common\<close> is a cache, empty when the hash is not known.
\<close>

section \<open>Nodes\<close>

text \<open>
  \<open>ValueNode hash buf\<close>, \<open>ShortNode hash key child\<close>, \<open>FullNode hash epoch value children\<close>. A nil
  \<open>buf\<close> is \<open>None\<close>: \<open>Trie.Get\<close> tells it from an empty one.
\<close>

datatype node =
    ValueNode bool "bytes option"
  | ShortNode bytes bytes "node option"
  | FullNode bytes u32 "node option" "node option list"

definition slice_bytes :: "bytes option \<Rightarrow> bytes" where
  "slice_bytes b = (case b of None \<Rightarrow> [] | Some bs \<Rightarrow> bs)"

text \<open>\<open>append\<close> of bytes to a nil slice is nil when there are none.\<close>

definition append_nil :: "bytes \<Rightarrow> bytes option" where
  "append_nil bs = (if bs = [] then None else Some bs)"

fun node_Hash :: "node \<Rightarrow> bytes \<times> bool" where
  "node_Hash (ValueNode h buf) = (slice_bytes buf, h)"
| "node_Hash (ShortNode h k c) = (h, h \<noteq> [])"
| "node_Hash (FullNode h e v cs) = (h, h \<noteq> [])"

text \<open>\<open>common.SetHash\<close> makes the cache a copy of the argument; a value node panics.\<close>

fun SetHash :: "bytes \<Rightarrow> node \<Rightarrow> node go" where
  "SetHash b (ValueNode h buf) = Panic"
| "SetHash b (ShortNode h k c) = Ret (ShortNode b k c)"
| "SetHash b (FullNode h e v cs) = Ret (FullNode b e v cs)"

text \<open>The methods of \<open>FullNode\<close>; the array of children has 16 elements, and an index above 16 panics.\<close>

definition no_children :: "node option list" where
  "no_children = replicate 16 None"

fun FullNode_copy :: "node \<Rightarrow> node" where
  "FullNode_copy (FullNode h e v cs) = FullNode [] 0 v cs"
| "FullNode_copy n = n"

fun setEdge :: "byte \<Rightarrow> node option \<Rightarrow> node \<Rightarrow> node go" where
  "setEdge idx e (FullNode h ep v cs) =
     (if idx = 16 then Ret (FullNode h ep e cs)
      else if unat idx < length cs then Ret (FullNode h ep v (cs[unat idx := e])) else Panic)"
| "setEdge idx e n = Panic"

fun replaceEdge :: "byte \<Rightarrow> node option \<Rightarrow> node \<Rightarrow> node go" where
  "replaceEdge idx e (FullNode h ep v cs) =
     (if idx = 16 then Ret (FullNode h ep e cs)
      else if unat idx < length cs then Ret (FullNode h ep v (cs[unat idx := e])) else Panic)"
| "replaceEdge idx e n = Panic"

fun getEdge :: "byte \<Rightarrow> node \<Rightarrow> node option go" where
  "getEdge idx (FullNode h ep v cs) =
     (if idx = 16 then Ret v else if unat idx < length cs then Ret (cs ! unat idx) else Panic)"
| "getEdge idx n = Panic"

section \<open>Decoding\<close>

datatype decode_error =
    ErrParse | ErrNotArray | ErrShortKey | ErrShortLeafValue | ErrFullValue | ErrLeafs

lemma size_list_take_le: "size_list f (take n xs) \<le> size_list f xs"
  by (metis append_take_drop_id le_add1 size_list_append)

lemma size_nth_less_list: "i < length vs \<Longrightarrow> size (vs ! i) < Suc (size_list size vs)"
  by (meson le_imp_less_Suc nth_mem size_list_estimation' order_refl)

text \<open>
  A value that is not an array has no elements, so the last case covers it. The dead branch of
  \<open>DecodeNode\<close> for byte strings is where a reference to another node would be decoded; \<open>decodeNodeImpl\<close> has no such
  case.
\<close>

function (sequential) decodeNodeImpl :: "rlp \<Rightarrow> (decode_error + node) go"
  and decodeChildren :: "rlp list \<Rightarrow> (decode_error + node option list) go"
where
  "decodeNodeImpl (RlpArray vs) =
     (if length vs = 2 then
        (case vs ! 0 of
           RlpBytes raw \<Rightarrow>
             bnd (compactToHex raw) (\<lambda>key.
             if hasTerm key then
               (case vs ! 1 of
                  RlpBytes val \<Rightarrow> Ret (Inr (ShortNode [] key (Some (ValueNode False (append_nil val)))))
                | _ \<Rightarrow> Ret (Inl ErrShortLeafValue))
             else
               bnd (decodeNodeImpl (vs ! 1)) (\<lambda>r.
               case r of Inl err \<Rightarrow> Ret (Inl err) | Inr child \<Rightarrow> Ret (Inr (ShortNode [] key (Some child)))))
         | _ \<Rightarrow> Ret (Inl ErrShortKey))
      else if length vs = 17 then
        bnd (decodeChildren (take 16 vs)) (\<lambda>r.
        case r of
          Inl err \<Rightarrow> Ret (Inl err)
        | Inr children \<Rightarrow>
            (case vs ! 16 of
               RlpBytes val \<Rightarrow>
                 Ret (Inr (FullNode [] 0 (if val = [] then None else Some (ValueNode False (append_nil val))) children))
             | _ \<Rightarrow> Ret (Inl ErrFullValue)))
      else Ret (Inl ErrLeafs))"
| "decodeNodeImpl v = Ret (Inl ErrLeafs)"
| "decodeChildren [] = Ret (Inr [])"
| "decodeChildren (v # vs) =
     (if v = RlpBytes [] then
        bnd (decodeChildren vs) (\<lambda>r. case r of Inl err \<Rightarrow> Ret (Inl err) | Inr cs \<Rightarrow> Ret (Inr (None # cs)))
      else
        bnd (decodeNodeImpl v) (\<lambda>r.
        case r of
          Inl err \<Rightarrow> Ret (Inl err)
        | Inr c \<Rightarrow>
            bnd (decodeChildren vs) (\<lambda>r. case r of Inl err \<Rightarrow> Ret (Inl err) | Inr cs \<Rightarrow> Ret (Inr (Some c # cs)))))"
  by pat_completeness auto

termination
  by (relation "measure (case_sum size (size_list size))")
    (auto simp: size_nth_less_list intro: le_less_trans [OF size_list_take_le])

definition DecodeNode :: "ext \<Rightarrow> bytes \<Rightarrow> (decode_error + node) go" where
  "DecodeNode X data =
     (case x_rlp_parse X data of
        None \<Rightarrow> Ret (Inl ErrParse)
      | Some v \<Rightarrow> (case v of RlpArray _ \<Rightarrow> decodeNodeImpl v | _ \<Rightarrow> Ret (Inl ErrNotArray)))"

end
