(* ===== verification/Itrie.thy ===== *)
theory Itrie
  imports Itrie_Node
begin

text \<open>
  The trie (\<open>immutable-trie/trie.go\<close>): lookup, insertion and deletion on nodes, as the methods of a
  transaction \<open>Txn\<close> over a \<open>Trie\<close>.

  The code updates some nodes in place: \<open>lookup\<close> replaces a stored reference by the node it loads, \<open>delete\<close>
  empties the cached hash of the short nodes on its way, \<open>insert\<close> writes into the full nodes of its own epoch. Where the
  node that was passed in stays part of the trie, the model returns it with these updates.

  The recursion follows the key, but a reference is resolved without consuming any of it, and a stored
  node may have an empty key; so the recursions have a fuel. \<open>key_fuel\<close> is what the trie needs when no key part is
  empty: a reference and a node for each element of the key, the value and nil.
\<close>

section \<open>Storage and fuel\<close>

text \<open>\<open>TxnState.GetNode\<close>: an error, no node, or a node; it may panic.\<close>

type_synonym txn_state = "(bytes \<Rightarrow> (decode_error + node option) go) option"

definition GetNode_of :: "txn_state \<Rightarrow> bytes \<Rightarrow> node option go" where
  "GetNode_of st h = bnd (deref st) (\<lambda>g. bnd (g h) (\<lambda>r. case r of Inl err \<Rightarrow> Panic | Inr n \<Rightarrow> Ret n))"

definition key_fuel :: "bytes \<Rightarrow> nat" where
  "key_fuel key = 2 * length key + 5"

section \<open>Auxiliary functions\<close>

fun prefixLen :: "bytes \<Rightarrow> bytes \<Rightarrow> nat" where
  "prefixLen (a # k1) (b # k2) = (if a \<noteq> b then 0 else Suc (prefixLen k1 k2))"
| "prefixLen _ _ = 0"

definition concat_keys :: "bytes \<Rightarrow> bytes \<Rightarrow> bytes" where
  "concat_keys a b =
     (let c = replicate (length a + length b) 0; c = list_put c 0 a in list_put c (length a) b)"

section \<open>Lookup\<close>

text \<open>The results are the loaded node for the parent, the value, and the node after the updates.\<close>

primrec lookup :: "txn_state \<Rightarrow> nat \<Rightarrow> node option \<Rightarrow> bytes \<Rightarrow> (node option \<times> bytes option \<times> node option) go" where
  "lookup st 0 = (\<lambda>node key. NoFuel)"
| "lookup st (Suc n) = (\<lambda>node key.
     case node of
       None \<Rightarrow> Ret (None, None, None)
     | Some (ValueNode hash buf) \<Rightarrow>
         if hash then
           bnd (GetNode_of st (slice_bytes buf)) (\<lambda>r.
           case r of
             None \<Rightarrow> Ret (None, None, node)
           | Some nc \<Rightarrow> bnd (lookup st n (Some nc) key) (\<lambda>(_, res, nc). Ret (nc, res, node)))
         else Ret (None, if key = [] then buf else None, node)
     | Some (ShortNode hs k child) \<Rightarrow>
         let plen = length k in
         if length key < plen \<or> take plen key \<noteq> k then Ret (None, None, node)
         else
           bnd (lookup st n child (drop plen key)) (\<lambda>(c, res, child).
           Ret (None, res, Some (ShortNode hs k (if c \<noteq> None then c else child))))
     | Some (FullNode hs ep value children) \<Rightarrow>
         if key = [] then
           bnd (lookup st n value key) (\<lambda>(c, res, value). Ret (c, res, Some (FullNode hs ep value children)))
         else
           bnd (getEdge (key ! 0) (FullNode hs ep value children)) (\<lambda>edge.
           bnd (lookup st n edge (drop 1 key)) (\<lambda>(c, res, edge).
           if c \<noteq> None then
             (if unat (key ! 0) < length children
              then Ret (None, res, Some (FullNode hs ep value (children[unat (key ! 0) := c]))) else Panic)
           else bnd (setEdge (key ! 0) edge (FullNode hs ep value children)) (\<lambda>node. Ret (None, res, Some node)))))"

section \<open>Insertion\<close>

fun writeNode :: "u32 \<Rightarrow> node \<Rightarrow> node" where
  "writeNode epoch (FullNode h e v cs) = (if epoch = e then FullNode h e v cs else FullNode [] epoch v cs)"
| "writeNode epoch n = n"

definition new_value :: "bytes \<Rightarrow> node" where
  "new_value value = ValueNode False (Some value)"

fun set_value :: "node option \<Rightarrow> node \<Rightarrow> node" where
  "set_value x (FullNode h e v cs) = FullNode h e x cs"
| "set_value x n = n"

fun get_value :: "node \<Rightarrow> node option" where
  "get_value (FullNode h e v cs) = v"
| "get_value n = None"

primrec insert_node :: "txn_state \<Rightarrow> u32 \<Rightarrow> nat \<Rightarrow> node option \<Rightarrow> bytes \<Rightarrow> bytes \<Rightarrow> node option go" where
  "insert_node st epoch 0 = (\<lambda>node search value. NoFuel)"
| "insert_node st epoch (Suc n) = (\<lambda>node search value.
     case node of
       None \<Rightarrow>
         if length search = 0 then Ret (Some (new_value value))
         else bnd (insert_node st epoch n None [] value) (\<lambda>child. Ret (Some (ShortNode [] search child)))
     | Some (ValueNode hash buf) \<Rightarrow>
         if hash then
           bnd (GetNode_of st (slice_bytes buf)) (\<lambda>r.
           case r of None \<Rightarrow> Ret None | Some nc \<Rightarrow> insert_node st epoch n (Some nc) search value)
         else if length search = 0 then Ret (Some (new_value value))
         else insert_node st epoch n (Some (FullNode [] epoch node no_children)) search value
     | Some (ShortNode hs key child) \<Rightarrow>
         let plen = prefixLen search key in
         if plen = length key then
           bnd (insert_node st epoch n child (drop plen search) value) (\<lambda>child. Ret (Some (ShortNode [] key child)))
         else
           let b = FullNode [] epoch None no_children in
           bnd (if plen + 1 < length key
                then setEdge (key ! plen) (Some (ShortNode [] (drop (plen + 1) key) child)) b
                else setEdge (key ! plen) child b) (\<lambda>b.
           bnd (insert_node st epoch n (Some b) (drop plen search) value) (\<lambda>child.
           if plen = 0 then Ret child else Ret (Some (ShortNode [] (take plen search) child))))
     | Some (FullNode hs ep val children) \<Rightarrow>
         let nn = FullNode hs ep val children; b = writeNode epoch nn in
         if length search = 0 then
           bnd (insert_node st epoch n (get_value b) [] value) (\<lambda>v. Ret (Some (set_value v b)))
         else
           let k = search ! 0 in
           bnd (getEdge k nn) (\<lambda>child.
           bnd (insert_node st epoch n child (drop 1 search) value) (\<lambda>newChild.
           bnd (if child = None then setEdge k newChild b else replaceEdge k newChild b) (\<lambda>b. Ret (Some b)))))"

section \<open>Deletion\<close>

text \<open>
  The loop over the children stops at the second one that is not nil: the index of the first one, and
  whether there was a second.
\<close>

fun scan_children :: "node option list \<Rightarrow> nat \<Rightarrow> nat option \<Rightarrow> nat option \<times> bool" where
  "scan_children [] edge indx = (indx, False)"
| "scan_children (i # cs) edge indx =
     (if i \<noteq> None then (if indx \<noteq> None then (indx, True) else scan_children cs (edge + 1) (Some edge))
      else scan_children cs (edge + 1) indx)"

text \<open>What becomes of a full node from which an edge was removed, from the loop on.\<close>

fun shrink_full :: "txn_state \<Rightarrow> node \<Rightarrow> (node option \<times> bool) go" where
  "shrink_full st (FullNode h e value children) =
     (let (indx, notEmpty) = scan_children children 0 None;
          notEmpty = (if indx \<noteq> None \<and> value \<noteq> None then True else notEmpty)
      in if notEmpty then Ret (Some (FullNode h e value children), True)
         else
           (case indx of
              None \<Rightarrow>
                if value = None then Ret (None, True)
                else Ret (Some (ShortNode [] [0x10] value), True)
            | Some i \<Rightarrow>
                bnd (case children ! i of
                       Some (ValueNode True buf) \<Rightarrow> GetNode_of st (slice_bytes buf)
                     | nc \<Rightarrow> Ret nc) (\<lambda>r.
                case r of
                  None \<Rightarrow> Ret (None, False)
                | Some (ShortNode h' key child) \<Rightarrow> Ret (Some (ShortNode [] (concat_keys [of_nat i] key) child), True)
                | Some nc \<Rightarrow> Ret (Some (ShortNode [] [of_nat i] (Some nc)), True))))"
| "shrink_full st n = Panic"

text \<open>The results are the new node, whether there was something to delete, and the node after the updates.\<close>

primrec delete_node :: "txn_state \<Rightarrow> nat \<Rightarrow> node option \<Rightarrow> bytes \<Rightarrow> (node option \<times> bool \<times> node option) go" where
  "delete_node st 0 = (\<lambda>node search. NoFuel)"
| "delete_node st (Suc n) = (\<lambda>node search.
     case node of
       None \<Rightarrow> Ret (None, False, None)
     | Some (ShortNode hs key child) \<Rightarrow>
         let plen = prefixLen search key in
         if plen = length search then Ret (None, True, Some (ShortNode [] key child))
         else if plen = 0 then Ret (None, False, Some (ShortNode [] key child))
         else
           bnd (delete_node st n child (drop plen search)) (\<lambda>(newChild, ok, child).
           let node = Some (ShortNode [] key child) in
           if \<not> ok then Ret (None, False, node)
           else
             (case newChild of
                None \<Rightarrow> Ret (None, True, node)
              | Some (ShortNode h' key' child') \<Rightarrow> Ret (Some (ShortNode [] (concat_keys key key') child'), True, node)
              | Some c \<Rightarrow> Ret (Some (ShortNode [] key (Some c)), True, node)))
     | Some (ValueNode hash buf) \<Rightarrow>
         if hash then
           bnd (GetNode_of st (slice_bytes buf)) (\<lambda>r.
           case r of
             None \<Rightarrow> Ret (None, False, node)
           | Some nc \<Rightarrow> bnd (delete_node st n (Some nc) search) (\<lambda>(r, ok, _). Ret (r, ok, node)))
         else if length search \<noteq> 0 then Ret (None, False, node)
         else Ret (None, True, node)
     | Some (FullNode hs ep value children) \<Rightarrow>
         let nn = FullNode hs ep value children; c = FullNode_copy nn in
         if search = [] then Panic
         else
           let key = search ! 0 in
           bnd (getEdge key c) (\<lambda>edge.
           bnd (delete_node st n edge (drop 1 search)) (\<lambda>(newChild, ok, edge).
           bnd (setEdge key edge nn) (\<lambda>nn.
           if \<not> ok then Ret (None, False, Some nn)
           else
             bnd (setEdge key newChild c) (\<lambda>c.
             bnd (shrink_full st c) (\<lambda>(r, ok). Ret (r, ok, Some nn)))))))"

section \<open>Tries and transactions\<close>

record trie =
  tri_root :: "node option"
  tri_epoch :: u32
  tri_storage :: txn_state

text \<open>\<open>Putter\<close> is nil or a batch, which gets the nodes that are hashed; here it is whether there is one.\<close>

record itxn =
  itx_root :: "node option"
  itx_epoch :: u32
  itx_storage :: txn_state
  itx_batch :: bool

definition NewTrie :: trie where
  "NewTrie = \<lparr>tri_root = None, tri_epoch = 0, tri_storage = None\<rparr>"

definition Trie_Txn :: "trie \<Rightarrow> itxn" where
  "Trie_Txn t = \<lparr>itx_root = tri_root t, itx_epoch = tri_epoch t + 1, itx_storage = tri_storage t, itx_batch = False\<rparr>"

definition Itxn_Commit :: "itxn \<Rightarrow> trie" where
  "Itxn_Commit t = \<lparr>tri_root = itx_root t, tri_epoch = itx_epoch t, tri_storage = itx_storage t\<rparr>"

text \<open>The loaded node a lookup returns for the root is dropped.\<close>

definition Itxn_Lookup :: "bytes \<Rightarrow> itxn \<Rightarrow> (bytes option \<times> itxn) go" where
  "Itxn_Lookup key t =
     (let k = keybytesToHex key in
      bnd (lookup (itx_storage t) (key_fuel k) (itx_root t) k) (\<lambda>(_, res, root). Ret (res, t\<lparr>itx_root := root\<rparr>)))"

definition Itxn_Insert :: "bytes \<Rightarrow> bytes \<Rightarrow> itxn \<Rightarrow> itxn go" where
  "Itxn_Insert key value t =
     (let k = keybytesToHex key in
      bnd (insert_node (itx_storage t) (itx_epoch t) (key_fuel k) (itx_root t) k value) (\<lambda>root.
      if root \<noteq> None then Ret (t\<lparr>itx_root := root\<rparr>) else Ret t))"

definition Itxn_Delete :: "bytes \<Rightarrow> itxn \<Rightarrow> itxn go" where
  "Itxn_Delete key t =
     (let k = keybytesToHex key in
      bnd (delete_node (itx_storage t) (key_fuel k) (itx_root t) k) (\<lambda>(root, ok, old).
      if ok then Ret (t\<lparr>itx_root := root\<rparr>) else Ret (t\<lparr>itx_root := old\<rparr>)))"

text \<open>\<open>Get\<close> looks up in a transaction of its own; the updates in place reach the trie.\<close>

definition Trie_Get :: "bytes \<Rightarrow> trie \<Rightarrow> (bytes option \<times> trie) go" where
  "Trie_Get k t =
     bnd (Itxn_Lookup k (Trie_Txn t)) (\<lambda>(res, txn). Ret (res, t\<lparr>tri_root := itx_root txn\<rparr>))"

end
