(* ===== verification/Itrie_Map.thy ===== *)
theory Itrie_Map
  imports Itrie
begin

text \<open>
  The trie is a map. \<open>content\<close> is the map from keys to values that a node stands for and \<open>ok_node\<close> the form that
  the operations keep: no stored references, no empty key parts, terminators exactly at the values, no short
  node under a short node, and at least two entries in a full node.
\<close>

section \<open>Keys\<close>

fun valid_key :: "bytes \<Rightarrow> bool" where
  "valid_key [] \<longleftrightarrow> False"
| "valid_key (x # xs) \<longleftrightarrow> (if xs = [] then x = 16 else x < 16 \<and> valid_key xs)"

lemma valid_key_not_Nil: "valid_key k \<Longrightarrow> k \<noteq> []"
  by auto

lemma valid_key_append: "valid_key (ns @ k) \<longleftrightarrow> nibbles ns \<and> valid_key k" if "k \<noteq> []"
  using that by (induction ns) auto

lemma valid_key_keybytes [simp]: "valid_key (keybytesToHex bs)"
proof -
  obtain ns where "keybytesToHex bs = ns @ [16]" "nibbles ns" using keybytesToHex_nibbles by blast
  then show ?thesis by (simp add: valid_key_append)
qed

lemma valid_key_drop:
  assumes "valid_key k" and "n < length k"
  shows "valid_key (drop n k)" and "nibbles (take n k)"
  using assms valid_key_append [of "drop n k" "take n k"] by simp_all

text \<open>A valid key is no proper prefix of another.\<close>

lemma valid_key_prefix:
  assumes "valid_key a" and "valid_key (a @ b)"
  shows "b = []"
  using assms by (induction a rule: valid_key.induct) (auto split: if_splits)

lemma valid_key_nibbles: "valid_key (ns @ k) \<Longrightarrow> nibbles ns \<Longrightarrow> valid_key k"
  by (induction ns) (auto split: if_splits)

lemma valid_key_le_16: "valid_key (x # xs) \<Longrightarrow> x \<le> 16"
  by (auto split: if_splits)

section \<open>Common prefixes\<close>

lemma prefixLen_le: "prefixLen a b \<le> length a" "prefixLen a b \<le> length b"
  by (induction a b rule: prefixLen.induct) auto

lemma take_prefixLen: "take (prefixLen a b) a = take (prefixLen a b) b"
  by (induction a b rule: prefixLen.induct) auto

lemma prefixLen_differ:
  "prefixLen a b < length a \<Longrightarrow> prefixLen a b < length b \<Longrightarrow> a ! prefixLen a b \<noteq> b ! prefixLen a b"
  by (induction a b rule: prefixLen.induct) auto

lemma prefixLen_split:
  obtains p a' b' where "a = p @ a'" and "b = p @ b'" and "prefixLen a b = length p"
    and "a' = [] \<or> b' = [] \<or> hd a' \<noteq> hd b'"
proof
  let ?n = "prefixLen a b"
  show "a = take ?n a @ drop ?n a" by simp
  show "b = take ?n a @ drop ?n b" by (subst take_prefixLen) simp
  show "?n = length (take ?n a)" using prefixLen_le [of a b] by simp
  show "drop ?n a = [] \<or> drop ?n b = [] \<or> hd (drop ?n a) \<noteq> hd (drop ?n b)"
    using prefixLen_differ [of a b] prefixLen_le [of a b] by (auto simp: hd_drop_conv_nth)
qed

lemma concat_keys_append [simp]: "concat_keys a b = a @ b"
  by (simp add: concat_keys_def list_put_def Let_def)

section \<open>The map of a node\<close>

definition full_edge :: "node option \<Rightarrow> node option list \<Rightarrow> byte \<Rightarrow> node option" where
  "full_edge v cs x = (if x = 16 then v else if unat x < length cs then cs ! unat x else None)"

text \<open>Keys end with the terminator; a key that ends at a full node does not, and is not in the map.\<close>

fun content_n :: "node \<Rightarrow> bytes \<Rightarrow> bytes option" where
  "content_n (ValueNode h b) k = (if k = [] then b else None)"
| "content_n (ShortNode h key c) k =
     (if take (length key) k = key then (case c of None \<Rightarrow> None | Some c \<Rightarrow> content_n c (drop (length key) k)) else None)"
| "content_n (FullNode h e v cs) k =
     (case k of
        [] \<Rightarrow> None
      | x # xs \<Rightarrow>
          if x = 16 then (case v of None \<Rightarrow> None | Some c \<Rightarrow> content_n c xs)
          else if unat x < length cs then (case cs ! unat x of None \<Rightarrow> None | Some c \<Rightarrow> content_n c xs) else None)"

definition content :: "node option \<Rightarrow> bytes \<Rightarrow> bytes option" where
  "content node k = (case node of None \<Rightarrow> None | Some n \<Rightarrow> content_n n k)"

lemma content_None [simp]: "content None = (\<lambda>k. None)"
  by (simp add: content_def fun_eq_iff)

lemma content_Value [simp]: "content (Some (ValueNode h b)) k = (if k = [] then b else None)"
  by (simp add: content_def)

lemma content_Short:
  "content (Some (ShortNode h key c)) k = (if take (length key) k = key then content c (drop (length key) k) else None)"
  by (simp add: content_def)

lemma content_Short_append [simp]: "content (Some (ShortNode h key c)) (key @ k) = content c k"
  by (simp add: content_Short)

lemma content_Full [simp]:
  "content (Some (FullNode h e v cs)) [] = None"
  "content (Some (FullNode h e v cs)) (x # xs) = content (full_edge v cs x) xs"
  by (simp_all add: content_def full_edge_def)

section \<open>Well-formed nodes\<close>

fun ok_value :: "node option \<Rightarrow> bool" where
  "ok_value (Some (ValueNode False (Some b))) \<longleftrightarrow> True"
| "ok_value _ \<longleftrightarrow> False"

fun is_Full :: "node \<Rightarrow> bool" where
  "is_Full (FullNode h e v cs) \<longleftrightarrow> True"
| "is_Full _ \<longleftrightarrow> False"

definition entries :: "node option \<Rightarrow> node option list \<Rightarrow> nat" where
  "entries v cs = length (filter (\<lambda>c. c \<noteq> None) (cs @ [v]))"

fun ok_node :: "node \<Rightarrow> bool" where
  "ok_node (ValueNode h b) \<longleftrightarrow> False"
| "ok_node (ShortNode h key c) \<longleftrightarrow>
     valid_key key \<and> ok_value c \<or>
     key \<noteq> [] \<and> nibbles key \<and> (case c of None \<Rightarrow> False | Some n \<Rightarrow> is_Full n \<and> ok_node n)"
| "ok_node (FullNode h e v cs) \<longleftrightarrow>
     length cs = 16 \<and> 2 \<le> entries v cs \<and> (v = None \<or> ok_value v) \<and>
     (\<forall>c \<in> set cs. case c of None \<Rightarrow> True | Some n \<Rightarrow> ok_node n)"

text \<open>A node with the keys that are left when it is reached: none (a value), or a tree of valid keys.\<close>

definition ok_opt :: "node option \<Rightarrow> bool" where
  "ok_opt node \<longleftrightarrow> (case node of None \<Rightarrow> True | Some n \<Rightarrow> ok_node n)"

lemma ok_opt_simps [simp]: "ok_opt None" "ok_opt (Some n) \<longleftrightarrow> ok_node n"
  by (simp_all add: ok_opt_def)

lemma ok_valueE:
  assumes "ok_value c"
  obtains b where "c = Some (ValueNode False (Some b))"
  using assms by (cases c rule: ok_value.cases) auto

text \<open>Edges of a full node: the value under 16, a child under each nibble.\<close>

definition ok_edge :: "byte \<Rightarrow> node option \<Rightarrow> bool" where
  "ok_edge x c \<longleftrightarrow> c = None \<or> x = 16 \<and> ok_value c \<or> x < 16 \<and> ok_opt c"

lemma byte_le_16: "(x :: byte) \<le> 16 \<longleftrightarrow> x < 16 \<or> x = 16"
  by (auto simp: word_le_less_eq)

lemma full_edge_nth:
  assumes "length cs = 16"
  shows "full_edge v cs x = (if unat x < 17 then (cs @ [v]) ! unat x else None)"
proof -
  have "unat x = 16 \<longleftrightarrow> x = 16" using word_unat_eq_iff [of x 16] by simp
  then show ?thesis using assms by (auto simp: full_edge_def nth_append)
qed

lemma filter_two_iff:
  "2 \<le> length (filter P xs) \<longleftrightarrow> (\<exists>i j. i < length xs \<and> j < length xs \<and> i \<noteq> j \<and> P (xs ! i) \<and> P (xs ! j))"
proof -
  let ?S = "{i. i < length xs \<and> P (xs ! i)}"
  have f: "finite ?S" by simp
  have "2 \<le> card ?S \<longleftrightarrow> (\<exists>i \<in> ?S. \<exists>j \<in> ?S. i \<noteq> j)"
  proof
    assume "2 \<le> card ?S"
    then have "\<not> card ?S \<le> 1" by simp
    then show "\<exists>i \<in> ?S. \<exists>j \<in> ?S. i \<noteq> j" using card_le_Suc0_iff_eq [OF f] by auto
  next
    assume "\<exists>i \<in> ?S. \<exists>j \<in> ?S. i \<noteq> j"
    then have "\<not> card ?S \<le> Suc 0" using card_le_Suc0_iff_eq [OF f] by auto
    then show "2 \<le> card ?S" by simp
  qed
  then show ?thesis by (auto simp: length_filter_conv_card)
qed

lemma entries_two_iff:
  assumes "length cs = 16"
  shows "2 \<le> entries v cs \<longleftrightarrow> (\<exists>x y. x \<noteq> y \<and> full_edge v cs x \<noteq> None \<and> full_edge v cs y \<noteq> None)"
    (is "?l \<longleftrightarrow> ?r")
proof
  assume ?l
  then obtain i j where ij: "i < 17" "j < 17" "i \<noteq> j" "(cs @ [v]) ! i \<noteq> None" "(cs @ [v]) ! j \<noteq> None"
    using assms unfolding entries_def filter_two_iff by auto
  have u: "unat (of_nat k :: byte) = k" if "k < 17" for k using that by (simp add: unat_of_nat)
  have "(of_nat i :: byte) \<noteq> of_nat j" using ij u by metis
  with ij u show ?r by (intro exI [of _ "of_nat i"] exI [of _ "of_nat j"]) (simp add: full_edge_nth [OF assms])
next
  assume ?r
  then obtain x y :: byte where xy: "x \<noteq> y" "full_edge v cs x \<noteq> None" "full_edge v cs y \<noteq> None" by blast
  then show ?l
    using assms word_unat_eq_iff [of x y] unfolding entries_def filter_two_iff
    by (intro exI [of _ "unat x"] exI [of _ "unat y"]) (auto simp: full_edge_nth [OF assms] split: if_splits)
qed

lemma ok_node_Full:
  "ok_node (FullNode h e v cs) \<longleftrightarrow>
     length cs = 16 \<and> (\<exists>x y. x \<noteq> y \<and> full_edge v cs x \<noteq> None \<and> full_edge v cs y \<noteq> None) \<and>
     (\<forall>x. ok_edge x (full_edge v cs x))" (is "?l \<longleftrightarrow> ?r")
proof (cases "length cs = 16")
  case True
  have "(\<forall>c \<in> set cs. ok_opt c) \<longleftrightarrow> (\<forall>x < 16. ok_opt (full_edge v cs x))"
  proof (intro iffI allI impI ballI)
    fix x :: byte
    assume "\<forall>c \<in> set cs. ok_opt c" and "x < 16"
    then show "ok_opt (full_edge v cs x)" using True by (auto simp: full_edge_def unat_nibble)
  next
    fix c
    assume a: "\<forall>x < 16. ok_opt (full_edge v cs x)" and "c \<in> set cs"
    then obtain i where i: "i < 16" "c = cs ! i" using True by (metis in_set_conv_nth)
    have u: "unat (of_nat i :: byte) = i" using i by (simp add: unat_of_nat)
    moreover from u i have "(of_nat i :: byte) < 16" by (simp add: unat_nibble)
    ultimately show "ok_opt c" using a i True by (metis full_edge_def order_less_irrefl)
  qed
  then have c: "(\<forall>c \<in> set cs. ok_opt c) \<longleftrightarrow> (\<forall>x < 16. ok_edge x (full_edge v cs x))"
    by (auto simp: ok_edge_def)
  have v: "v = None \<or> ok_value v \<longleftrightarrow> ok_edge 16 (full_edge v cs 16)"
    by (simp add: ok_edge_def full_edge_def)
  have n: "ok_edge x (full_edge v cs x)" if "\<not> x < 16" "x \<noteq> 16" for x
    using that True by (simp add: ok_edge_def full_edge_def unat_nibble)
  have "(\<forall>x. ok_edge x (full_edge v cs x)) \<longleftrightarrow> ok_edge 16 (full_edge v cs 16) \<and> (\<forall>x < 16. ok_edge x (full_edge v cs x))"
    using n by metis
  then show ?thesis
    unfolding ok_node.simps ok_opt_def [abs_def, symmetric] c v entries_two_iff [OF True] by simp
qed simp

lemma getEdge_Full:
  assumes "length cs = 16" and "x \<le> 16"
  shows "getEdge x (FullNode h e v cs) = Ret (full_edge v cs x)"
  using assms by (auto simp: full_edge_def unat_nibble byte_le_16)

lemma replaceEdge_setEdge: "replaceEdge x c n = setEdge x c n"
  by (cases n) simp_all

lemma setEdge_Full:
  assumes "length cs = 16" and "x \<le> 16"
  shows "\<exists>v' cs'. setEdge x c (FullNode h e v cs) = Ret (FullNode h e v' cs') \<and> length cs' = 16 \<and>
    full_edge v' cs' = (full_edge v cs)(x := c)"
proof (cases "x = 16")
  case True
  then show ?thesis using assms by (intro exI [of _ c] exI [of _ cs]) (auto simp: full_edge_def fun_eq_iff)
next
  case False
  then have "unat x < 16" using assms by (simp add: byte_le_16 unat_nibble)
  then show ?thesis
    using assms False word_unat_eq_iff [of _ x]
    by (intro exI [of _ v] exI [of _ "cs[unat x := c]"]) (auto simp: full_edge_def fun_eq_iff nth_list_update)
qed

lemma setEdge_same:
  assumes "length cs = 16" and "x \<le> 16"
  shows "setEdge x (full_edge v cs x) (FullNode h e v cs) = Ret (FullNode h e v cs)"
  using assms by (auto simp: full_edge_def unat_nibble byte_le_16)

declare getEdge.simps [simp del] setEdge.simps [simp del] replaceEdge.simps [simp del] ok_node.simps(3) [simp del]

lemma ok_Short_cases:
  assumes "ok_node (ShortNode h key c)"
  obtains (leaf) b where "valid_key key" and "c = Some (ValueNode False (Some b))"
    | (ext) h' e v cs where "key \<noteq> []" and "nibbles key" and "c = Some (FullNode h' e v cs)" and "ok_node (FullNode h' e v cs)"
proof (cases "ok_value c")
  case True
  then obtain b where "c = Some (ValueNode False (Some b))" by (rule ok_valueE)
  with assms leaf show ?thesis by auto
next
  case False
  with assms obtain n where "key \<noteq> []" "nibbles key" "c = Some n" "is_Full n" "ok_node n"
    by (auto split: option.splits)
  with ext show ?thesis by (cases n) auto
qed

lemma ok_edge_cases:
  assumes "ok_edge x c"
  obtains (none) "c = None" | (val) b where "x = 16" and "c = Some (ValueNode False (Some b))"
    | (child) n where "x < 16" and "c = Some n" and "ok_node n"
  using assms unfolding ok_edge_def by (cases c) (auto elim: ok_valueE)

lemma ok_Full_edge: "ok_node (FullNode h e v cs) \<Longrightarrow> length cs = 16" "ok_node (FullNode h e v cs) \<Longrightarrow> ok_edge x (full_edge v cs x)"
  by (simp_all only: ok_node_Full)

text \<open>Induction over the nodes of a well-formed trie.\<close>

lemma ok_node_induct [consumes 1, case_names leaf ext full]:
  assumes "ok_node n"
    and "\<And>h key b. valid_key key \<Longrightarrow> P (ShortNode h key (Some (ValueNode False (Some b))))"
    and "\<And>h key h' e v cs. key \<noteq> [] \<Longrightarrow> nibbles key \<Longrightarrow> ok_node (FullNode h' e v cs) \<Longrightarrow> P (FullNode h' e v cs) \<Longrightarrow>
      P (ShortNode h key (Some (FullNode h' e v cs)))"
    and "\<And>h e v cs. ok_node (FullNode h e v cs) \<Longrightarrow>
      (\<And>x m. x < 16 \<Longrightarrow> full_edge v cs x = Some m \<Longrightarrow> ok_node m \<Longrightarrow> P m) \<Longrightarrow> P (FullNode h e v cs)"
  shows "P n"
  using assms(1)
proof (induction "size n" arbitrary: n rule: less_induct)
  case less
  show ?case
  proof (cases n)
    case (ValueNode h b)
    then show ?thesis using less.prems by simp
  next
    case (ShortNode h key c)
    from less.prems [unfolded ShortNode] show ?thesis
    proof (cases rule: ok_Short_cases)
      case leaf
      then show ?thesis using assms(2) ShortNode by simp
    next
      case (ext h' e v cs)
      then show ?thesis using assms(3) less.hyps [of "FullNode h' e v cs"] ShortNode by simp
    qed
  next
    case (FullNode h e v cs)
    have "size m < size n" if "x < 16" "full_edge v cs x = Some m" for x m
    proof -
      have "length cs = 16" using less.prems [unfolded FullNode] by (rule ok_Full_edge)
      then have "cs ! unat x = Some m" and "unat x < length cs"
        using that by (auto simp: full_edge_def unat_nibble split: if_splits)
      then have "Some m \<in> set cs" by (metis nth_mem)
      then have "size m \<le> size_list (size_option size) cs" by (rule size_list_estimation') simp
      then show ?thesis using FullNode by simp
    qed
    then show ?thesis using assms(4) less FullNode by simp
  qed
qed

lemma content_valid_key:
  assumes "ok_node n" and "content (Some n) k \<noteq> None"
  shows "valid_key k"
  using assms
proof (induction arbitrary: k rule: ok_node_induct)
  case (leaf h key b)
  then show ?case by (auto simp: content_Short split: if_splits)
next
  case (ext h key h' e v cs)
  then have "take (length key) k = key" and c: "content (Some (FullNode h' e v cs)) (drop (length key) k) \<noteq> None"
    by (simp_all add: content_Short split: if_splits)
  then have k: "k = key @ drop (length key) k" by (metis append_take_drop_id)
  from ext.IH [OF c] ext.hyps(2) valid_key_append [of "drop (length key) k" key] k show ?case
    using valid_key_not_Nil by metis
next
  case (full h e v cs)
  note ok = ok_Full_edge(2) [OF full.hyps(1)]
  show ?case
  proof (cases k)
    case Nil
    then show ?thesis using full.prems by simp
  next
    case (Cons x xs)
    from ok [of x] show ?thesis
    proof (cases rule: ok_edge_cases)
      case (child n)
      then show ?thesis using full.IH [of x n xs] full.prems Cons by auto
    qed (use full.prems Cons in \<open>auto split: if_splits\<close>)
  qed
qed

lemma content_nonempty:
  assumes "ok_node n"
  shows "\<exists>k. content (Some n) k \<noteq> None"
  using assms
proof (induction rule: ok_node_induct)
  case (leaf h key b)
  have "content (Some (ShortNode h key (Some (ValueNode False (Some b))))) (key @ []) \<noteq> None"
    unfolding content_Short_append by simp
  then show ?case by blast
next
  case (ext h key h' e v cs)
  then show ?case by (metis content_Short_append)
next
  case (full h e v cs)
  then obtain x where x: "full_edge v cs x \<noteq> None" unfolding ok_node_Full by blast
  from ok_Full_edge(2) [OF full.hyps(1), of x] show ?case
  proof (cases rule: ok_edge_cases)
    case (val b)
    then have "content (Some (FullNode h e v cs)) [x] \<noteq> None" by simp
    then show ?thesis by blast
  next
    case (child m)
    then show ?thesis using full.IH [of x m] by (metis content_Full(2))
  qed (use x in simp)
qed

section \<open>Lookup\<close>

text \<open>A lookup in a well-formed trie returns the value of the map and changes nothing.\<close>

lemma lookup_content:
  assumes "ok_node n" and "valid_key key" and "length key + 2 \<le> f"
  shows "lookup st f (Some n) key = Ret (None, content (Some n) key, Some n)"
  using assms
proof (induction arbitrary: key f rule: ok_node_induct)
  case (leaf h k b)
  then obtain g where "f = Suc (Suc g)" by (metis add_2_eq_Suc' le_Suc_ex add_Suc_shift plus_nat.simps(2))
  then show ?case by (auto simp: content_Short Let_def)
next
  case (ext h k h' e v cs)
  obtain g where g: "f = Suc g" using ext.prems by (cases f) auto
  show ?case
  proof (cases "take (length k) key = k")
    case True
    then obtain r where key: "key = k @ r" by (metis append_take_drop_id)
    with ext.prems(1) ext.hyps(2) have "valid_key r" by (blast intro: valid_key_nibbles)
    moreover have "length r + 2 \<le> g" using ext.hyps(1) ext.prems(2) g key by (cases k) auto
    ultimately have "lookup st g (Some (FullNode h' e v cs)) r = Ret (None, content (Some (FullNode h' e v cs)) r, Some (FullNode h' e v cs))"
      by (rule ext.IH)
    then show ?thesis using g key by (simp add: Let_def)
  next
    case False
    then show ?thesis using g by (auto simp: content_Short Let_def)
  qed
next
  case (full h e v cs)
  obtain g where g: "f = Suc g" using full.prems by (cases f) auto
  obtain x xs where key: "key = x # xs" using full.prems(1) by (cases key) auto
  have x: "x \<le> 16" using full.prems(1) key by (auto intro: valid_key_le_16)
  note ok = ok_Full_edge [OF full.hyps(1)]
  have "lookup st g (full_edge v cs x) xs = Ret (None, content (full_edge v cs x) xs, full_edge v cs x)"
    using ok(2) [of x]
  proof (cases rule: ok_edge_cases)
    case (child m)
    then have "valid_key xs" using full.prems(1) key by (auto split: if_splits)
    with child show ?thesis using full.IH [of x m xs g] full.prems g key by simp
  qed (use full.prems g key in \<open>cases g; auto\<close>)+
  then show ?case using g key x ok(1) by (simp add: getEdge_Full setEdge_same)
qed

section \<open>Insertion\<close>

lemma content_Short_upd:
  assumes "content c' = (content c)(r := v)"
  shows "content (Some (ShortNode h key c')) = (content (Some (ShortNode h' key c)))(key @ r := v)"
proof
  fix k
  show "content (Some (ShortNode h key c')) k = ((content (Some (ShortNode h' key c)))(key @ r := v)) k"
  proof (cases "take (length key) k = key")
    case True
    then obtain k' where "k = key @ k'" by (metis append_take_drop_id)
    then show ?thesis using assms by simp
  next
    case False
    then show ?thesis by (auto simp: content_Short)
  qed
qed

lemma content_Short_Short: "content (Some (ShortNode h p (Some (ShortNode h' q c)))) = content (Some (ShortNode h'' (p @ q) c))"
proof
  fix k
  show "content (Some (ShortNode h p (Some (ShortNode h' q c)))) k = content (Some (ShortNode h'' (p @ q) c)) k"
  proof (cases "take (length p) k = p")
    case True
    then obtain k' where k: "k = p @ k'" by (metis append_take_drop_id)
    show ?thesis unfolding k content_Short_append by (simp add: content_Short)
  next
    case False
    moreover have "take (length p) (take (length (p @ q)) k) = take (length p) k" by simp
    ultimately have "take (length (p @ q)) k \<noteq> p @ q" by (metis append_eq_conv_conj)
    with False show ?thesis by (simp add: content_Short)
  qed
qed

lemma content_Full_upd:
  assumes "full_edge v' cs' = (full_edge v cs)(x := c')" and "content c' = (content (full_edge v cs x))(xs := r)"
  shows "content (Some (FullNode h' e' v' cs')) = (content (Some (FullNode h e v cs)))(x # xs := r)"
proof
  fix k
  show "content (Some (FullNode h' e' v' cs')) k = ((content (Some (FullNode h e v cs)))(x # xs := r)) k"
    using assms by (cases k) simp_all
qed

lemma insert_None:
  assumes "2 \<le> f"
  shows "insert_node st ep f None search value =
    Ret (Some (if search = [] then new_value value else ShortNode [] search (Some (new_value value))))"
proof -
  obtain g where "f = Suc (Suc g)" using assms by (metis add_2_eq_Suc le_Suc_ex)
  then show ?thesis by simp
qed

lemma insert_edge:
  assumes "ok_edge x c" and "valid_key (x # xs)" and "2 \<le> f"
    and "\<And>m. x < 16 \<Longrightarrow> c = Some m \<Longrightarrow> ok_node m \<Longrightarrow> valid_key xs \<Longrightarrow>
      \<exists>m'. insert_node st ep f (Some m) xs value = Ret (Some m') \<and> ok_node m' \<and> content (Some m') = (content (Some m))(xs := Some value)"
  shows "\<exists>c'. insert_node st ep f c xs value = Ret (Some c') \<and> ok_edge x (Some c') \<and> content (Some c') = (content c)(xs := Some value)"
  using assms(1)
proof (cases rule: ok_edge_cases)
  case none
  then show ?thesis
    using assms(2,3) by (auto simp: insert_None ok_edge_def new_value_def content_Short fun_eq_iff split: if_splits)
next
  case (val b)
  then have "xs = []" using assms(2) by (auto split: if_splits)
  moreover obtain g where "f = Suc g" using assms(3) by (cases f) auto
  ultimately show ?thesis using val by (simp add: new_value_def ok_edge_def fun_eq_iff)
next
  case (child m)
  then have "valid_key xs" using assms(2) by (auto split: if_splits)
  from assms(4) [OF child this] child show ?thesis by (auto simp: ok_edge_def)
qed

lemma insert_Full:
  assumes "length cs = 16" and "x \<le> 16" and "insert_node st ep g (full_edge v cs x) xs value = Ret (Some c')"
  shows "\<exists>h' e' v' cs'. insert_node st ep (Suc g) (Some (FullNode h e v cs)) (x # xs) value = Ret (Some (FullNode h' e' v' cs')) \<and>
    length cs' = 16 \<and> full_edge v' cs' = (full_edge v cs)(x := Some c')"
proof -
  obtain h0 e0 where w: "writeNode ep (FullNode h e v cs) = FullNode h0 e0 v cs" by (cases "ep = e") auto
  obtain v' cs' where "setEdge x (Some c') (FullNode h0 e0 v cs) = Ret (FullNode h0 e0 v' cs')" "length cs' = 16"
      "full_edge v' cs' = (full_edge v cs)(x := Some c')"
    using setEdge_Full [OF assms(1,2)] by blast
  then show ?thesis
    using assms w by (simp add: getEdge_Full replaceEdge_setEdge Let_def del: writeNode.simps)
qed

text \<open>The branch at which the key of a short node and the new key part.\<close>

lemma full_edge_new: "full_edge None no_children = (\<lambda>x. None)" "length no_children = 16"
  by (auto simp: full_edge_def no_children_def fun_eq_iff)

lemma insert_branch:
  assumes "x \<noteq> y" and "ok_edge y c0" and "c0 \<noteq> None" and "y \<le> 16" and "valid_key (x # xs)" and "3 \<le> f"
  shows "\<exists>b h' e' v' cs'. setEdge y c0 (FullNode [] ep None no_children) = Ret b \<and>
    insert_node st ep f (Some b) (x # xs) value = Ret (Some (FullNode h' e' v' cs')) \<and> ok_node (FullNode h' e' v' cs') \<and>
    content (Some (FullNode h' e' v' cs')) = (\<lambda>k. case k of [] \<Rightarrow> None | z # zs \<Rightarrow> if z = y then content c0 zs else None)(x # xs := Some value)"
proof -
  obtain v cs where b: "setEdge y c0 (FullNode [] ep None no_children) = Ret (FullNode [] ep v cs)" "length cs = 16"
    and e: "full_edge v cs = (\<lambda>x. None)(y := c0)"
    using setEdge_Full [OF full_edge_new(2) assms(4), of c0 "[]" ep None] unfolding full_edge_new by blast
  obtain g where f: "f = Suc g" "2 \<le> g" using assms(6) by (cases f) auto
  have x: "x \<le> 16" using assms(5) by (rule valid_key_le_16)
  have "ok_edge x (full_edge v cs x)" using assms(1) e by (simp add: ok_edge_def)
  from insert_edge [OF this assms(5) f(2)] assms(1) e
  obtain c' where c': "insert_node st ep g (full_edge v cs x) xs value = Ret (Some c')" "ok_edge x (Some c')"
      "content (Some c') = (content (full_edge v cs x))(xs := Some value)" by fastforce
  from insert_Full [OF b(2) x c'(1), of "[]" ep] obtain h' e' v' cs' where
    i: "insert_node st ep f (Some (FullNode [] ep v cs)) (x # xs) value = Ret (Some (FullNode h' e' v' cs'))"
      "length cs' = 16" "full_edge v' cs' = (full_edge v cs)(x := Some c')" using f(1) by blast
  have "x \<noteq> y \<and> full_edge v' cs' x \<noteq> None \<and> full_edge v' cs' y \<noteq> None" using i(3) e assms(1,3) by simp
  moreover have "ok_edge z (full_edge v' cs' z)" for z using i(3) e assms(2) c'(2) by (simp add: ok_edge_def)
  ultimately have "ok_node (FullNode h' e' v' cs')" unfolding ok_node_Full using i(2) by blast
  moreover have "content (Some (FullNode [] ep v cs)) = (\<lambda>k. case k of [] \<Rightarrow> None | z # zs \<Rightarrow> if z = y then content c0 zs else None)"
    by (rule ext) (simp add: e split: list.split)
  ultimately show ?thesis
    using b(1) i(1) content_Full_upd [OF i(3) c'(3), of h' e' "[]" ep] by auto
qed

text \<open>The search ends in the child of the short node.\<close>

lemma insert_Short_match:
  assumes "ok_node (ShortNode h key c)" and "valid_key (key @ a)" and "2 * length (key @ a) + 2 \<le> g"
    and "\<And>h' e v cs r g. c = Some (FullNode h' e v cs) \<Longrightarrow> ok_node (FullNode h' e v cs) \<Longrightarrow> valid_key r \<Longrightarrow> 2 * length r + 3 \<le> g \<Longrightarrow>
      \<exists>n'. insert_node st ep g (Some (FullNode h' e v cs)) r value = Ret (Some n') \<and> ok_node n' \<and>
        content (Some n') = (content (Some (FullNode h' e v cs)))(r := Some value) \<and> is_Full n'"
  shows "\<exists>n'. insert_node st ep (Suc g) (Some (ShortNode h key c)) (key @ a) value = Ret (Some n') \<and> ok_node n' \<and>
    content (Some n') = (content (Some (ShortNode h key c)))(key @ a := Some value)"
proof -
  have p: "prefixLen (key @ a) key = length key" by (induction key) auto
  from assms(1) show ?thesis
  proof (cases rule: ok_Short_cases)
    case (leaf b)
    then have "a = []" using assms(2) valid_key_prefix [of key a] by simp
    with leaf p assms(3) show ?thesis
      using content_Short_upd [of "Some (new_value value)" c "[]" "Some value" "[]" key h]
      by (cases g) (auto simp: new_value_def fun_eq_iff)
  next
    case (ext h' e v cs)
    then have a: "valid_key a" using assms(2) by (auto intro: valid_key_nibbles)
    have "2 * length a + 3 \<le> g" using ext(1) assms(3) by (cases key) auto
    from assms(4) [OF ext(3,4) a this] obtain n' where
      n': "insert_node st ep g c a value = Ret (Some n')" "ok_node n'" "content (Some n') = (content c)(a := Some value)" "is_Full n'"
      using ext(3) by blast
    then show ?thesis using p ext content_Short_upd [OF n'(3), of "[]" key h] by simp
  qed
qed

text \<open>The search parts from the key, and a full node separates the two.\<close>

lemma insert_Short_split:
  assumes ok: "ok_node (ShortNode h (p @ y # ys) c)" and vk: "valid_key (p @ x # xs)" and xy: "x \<noteq> y" and g: "3 \<le> g"
  shows "\<exists>n'. insert_node st ep (Suc g) (Some (ShortNode h (p @ y # ys) c)) (p @ x # xs) value = Ret (Some n') \<and> ok_node n' \<and>
    content (Some n') = (content (Some (ShortNode h (p @ y # ys) c)))(p @ x # xs := Some value)"
proof -
  have pl: "prefixLen (p @ x # xs) (p @ y # ys) = length p" using xy by (induction p) auto
  have vx: "valid_key (x # xs)" and np: "nibbles p" using vk by (simp_all add: valid_key_append)
  let ?c0 = "if ys \<noteq> [] then Some (ShortNode [] ys c) else c"
  have c0: "ok_edge y ?c0" "?c0 \<noteq> None" "y \<le> 16"
    using ok
  proof (atomize (full), cases rule: ok_Short_cases)
    case (leaf b)
    then have "valid_key (y # ys)" by (simp add: valid_key_append)
    with leaf show "ok_edge y ?c0 \<and> ?c0 \<noteq> None \<and> y \<le> 16"
      using valid_key_le_16 [of y ys] by (auto simp: ok_edge_def split: if_splits)
  next
    case (ext h' e v cs)
    then show "ok_edge y ?c0 \<and> ?c0 \<noteq> None \<and> y \<le> 16" by (auto simp: ok_edge_def byte_le_16)
  qed
  from insert_branch [OF xy c0 vx g] obtain b h' e' v' cs' where
    b: "setEdge y ?c0 (FullNode [] ep None no_children) = Ret b" and
    n: "insert_node st ep g (Some b) (x # xs) value = Ret (Some (FullNode h' e' v' cs'))" "ok_node (FullNode h' e' v' cs')"
      "content (Some (FullNode h' e' v' cs')) =
        (\<lambda>k. case k of [] \<Rightarrow> None | z # zs \<Rightarrow> if z = y then content ?c0 zs else None)(x # xs := Some value)"
    by blast
  have "(\<lambda>k. case k of [] \<Rightarrow> None | z # zs \<Rightarrow> if z = y then content ?c0 zs else None) = content (Some (ShortNode h (y # ys) c))"
    by (rule ext) (auto simp: content_Short split: list.split)
  with n(3) have c: "content (Some (FullNode h' e' v' cs')) = (content (Some (ShortNode h (y # ys) c)))(x # xs := Some value)" by simp
  have "insert_node st ep (Suc g) (Some (ShortNode h (p @ y # ys) c)) (p @ x # xs) value =
      (if p = [] then Ret (Some (FullNode h' e' v' cs')) else Ret (Some (ShortNode [] p (Some (FullNode h' e' v' cs')))))"
    using pl b n(1) by (auto simp: Let_def nth_append)
  moreover have "content (Some (ShortNode [] p (Some (FullNode h' e' v' cs')))) =
      (content (Some (ShortNode h (p @ y # ys) c)))(p @ x # xs := Some value)"
    using content_Short_upd [OF c, of "[]" p "[]"] content_Short_Short [of "[]" p h "y # ys" c h] by simp
  ultimately show ?thesis using n(2) np c by (cases "p = []") auto
qed

lemma insert_Short:
  assumes "ok_node (ShortNode h key c)" and "valid_key search" and "2 * length search + 3 \<le> f"
    and IH: "\<And>h' e v cs r g. c = Some (FullNode h' e v cs) \<Longrightarrow> ok_node (FullNode h' e v cs) \<Longrightarrow> valid_key r \<Longrightarrow> 2 * length r + 3 \<le> g \<Longrightarrow>
      \<exists>n'. insert_node st ep g (Some (FullNode h' e v cs)) r value = Ret (Some n') \<and> ok_node n' \<and>
        content (Some n') = (content (Some (FullNode h' e v cs)))(r := Some value) \<and> is_Full n'"
  shows "\<exists>n'. insert_node st ep f (Some (ShortNode h key c)) search value = Ret (Some n') \<and> ok_node n' \<and>
    content (Some n') = (content (Some (ShortNode h key c)))(search := Some value)"
proof -
  obtain g where g: "f = Suc g" "2 * length search + 2 \<le> g" using assms(3) by (cases f) auto
  obtain p a' b' where sp: "search = p @ a'" "key = p @ b'" "a' = [] \<or> b' = [] \<or> hd a' \<noteq> hd b'"
    by (rule prefixLen_split)
  show ?thesis
  proof (cases "b' = []")
    case True
    with sp have key: "search = key @ a'" by simp
    from insert_Short_match [OF assms(1,2) [unfolded key] _ IH] g show ?thesis by (simp add: key)
  next
    case False
    then obtain y ys where b': "b' = y # ys" by (cases b') auto
    have "a' \<noteq> []"
      using assms(1)
    proof (cases rule: ok_Short_cases)
      case leaf
      then show ?thesis using assms(2) sp False valid_key_prefix [of p b'] by auto
    next
      case ext
      then show ?thesis using assms(2) sp valid_key_nibbles [of p "[]"] by auto
    qed
    then obtain x xs where a': "a' = x # xs" by (cases a') auto
    have "x \<noteq> y" "3 \<le> g" using sp(3) a' b' g sp(1) by simp_all
    from insert_Short_split [OF _ _ this] show ?thesis using assms(1,2) sp a' b' g(1) by blast
  qed
qed

lemma insert_content:
  assumes "ok_node n" and "valid_key search" and "2 * length search + 3 \<le> f"
  shows "\<exists>n'. insert_node st ep f (Some n) search value = Ret (Some n') \<and> ok_node n' \<and>
    content (Some n') = (content (Some n))(search := Some value) \<and> (is_Full n \<longrightarrow> is_Full n')"
  using assms
proof (induction arbitrary: search f rule: ok_node_induct)
  case (leaf h key b)
  then have "ok_node (ShortNode h key (Some (ValueNode False (Some b))))" by simp
  from insert_Short [OF this leaf.prems, of st ep "value"] show ?case using is_Full.simps by blast
next
  case (ext h key h' e v cs)
  then have "ok_node (ShortNode h key (Some (FullNode h' e v cs)))" by simp
  from insert_Short [OF this ext.prems, of st ep "value"] ext.IH show ?case using is_Full.simps by blast
next
  case (full h e v cs)
  obtain g where g: "f = Suc g" "2 * length search + 2 \<le> g" using full.prems by (cases f) auto
  obtain x xs where s: "search = x # xs" using full.prems(1) by (cases search) auto
  note ok = ok_Full_edge [OF full.hyps(1)]
  have f: "2 \<le> g" "2 * length xs + 3 \<le> g" using g s by auto
  have "\<exists>c'. insert_node st ep g (full_edge v cs x) xs value = Ret (Some c') \<and> ok_edge x (Some c') \<and>
      content (Some c') = (content (full_edge v cs x))(xs := Some value)"
    using ok(2) [of x] full.prems(1) [unfolded s] f(1)
    by (rule insert_edge) (use full.IH f(2) in blast)
  then obtain c' where c': "insert_node st ep g (full_edge v cs x) xs value = Ret (Some c')" "ok_edge x (Some c')"
      "content (Some c') = (content (full_edge v cs x))(xs := Some value)" by blast
  have "x \<le> 16" using full.prems(1) s by (auto intro: valid_key_le_16)
  from insert_Full [OF ok(1) this c'(1)] obtain h' e' v' cs' where
    i: "insert_node st ep f (Some (FullNode h e v cs)) search value = Ret (Some (FullNode h' e' v' cs'))"
      "length cs' = 16" "full_edge v' cs' = (full_edge v cs)(x := Some c')" using g s by blast
  obtain y z where yz: "y \<noteq> z" "full_edge v cs y \<noteq> None" "full_edge v cs z \<noteq> None"
    using full.hyps(1) unfolding ok_node_Full by blast
  then have "y \<noteq> z \<and> full_edge v' cs' y \<noteq> None \<and> full_edge v' cs' z \<noteq> None" using i(3) by simp
  moreover have "ok_edge z (full_edge v' cs' z)" for z using i(3) ok(2) c'(2) by simp
  ultimately have "ok_node (FullNode h' e' v' cs')" unfolding ok_node_Full using i(2) by blast
  then show ?case using i(1) content_Full_upd [OF i(3) c'(3), of h' e' h e] s by (simp add: fun_upd_def)
qed

section \<open>Deletion\<close>

text \<open>All keys of the map have the same length, as the hashes that the program uses as keys.\<close>

definition uniform :: "nat \<Rightarrow> node option \<Rightarrow> bool" where
  "uniform n node \<longleftrightarrow> (\<forall>k. content node k \<noteq> None \<longrightarrow> length k = n)"

lemma uniform_Short:
  assumes "uniform n (Some (ShortNode h key c))"
  shows "uniform (n - length key) c"
  unfolding uniform_def
proof (intro allI impI)
  fix k
  assume "content c k \<noteq> None"
  then have "content (Some (ShortNode h key c)) (key @ k) \<noteq> None" by simp
  with assms have "length (key @ k) = n" unfolding uniform_def by blast
  then show "length k = n - length key" by simp
qed

lemma uniform_Full:
  assumes "uniform n (Some (FullNode h e v cs))"
  shows "uniform (n - 1) (full_edge v cs x)"
  unfolding uniform_def
proof (intro allI impI)
  fix k
  assume "content (full_edge v cs x) k \<noteq> None"
  then have "content (Some (FullNode h e v cs)) (x # k) \<noteq> None" by simp
  with assms have "length (x # k) = n" unfolding uniform_def by blast
  then show "length k = n - 1" by simp
qed

text \<open>Every node has a key, so the length is known from it.\<close>

lemma uniform_key:
  assumes "ok_node n" and "uniform l (Some n)"
  shows "0 < l"
proof -
  obtain k where "content (Some n) k \<noteq> None" using content_nonempty [OF assms(1)] by blast
  moreover from this have "k \<noteq> []" using content_valid_key [OF assms(1)] valid_key_not_Nil by blast
  ultimately show ?thesis using assms(2) unfolding uniform_def by fastforce
qed

lemma uniform_Short_length:
  assumes "ok_node (ShortNode h key c)" and "uniform l (Some (ShortNode h key c))"
  shows "length key \<le> l" and "ok_value c \<longleftrightarrow> length key = l"
  using assms(1)
proof (atomize (full), cases rule: ok_Short_cases)
  case (leaf b)
  then have "content (Some (ShortNode h key c)) key \<noteq> None" by (simp add: content_Short)
  then have "length key = l" using assms(2) unfolding uniform_def by blast
  then show "length key \<le> l \<and> (ok_value c \<longleftrightarrow> length key = l)" using leaf by simp
next
  case (ext h' e v cs)
  from uniform_key [OF ext(4), of "l - length key"] uniform_Short [OF assms(2)] ext(3) show "length key \<le> l \<and> (ok_value c \<longleftrightarrow> length key = l)"
    by simp
qed

text \<open>A full node has no value then: the value would be the only entry.\<close>

lemma uniform_Full_edge:
  assumes "ok_node (FullNode h e v cs)" and "uniform l (Some (FullNode h e v cs))"
  shows "2 \<le> l" and "full_edge v cs 16 = None"
proof -
  obtain x where x: "x \<noteq> 16" "full_edge v cs x \<noteq> None"
    using assms(1) unfolding ok_node_Full by metis
  from ok_Full_edge(2) [OF assms(1), of x] obtain m where m: "x < 16" "full_edge v cs x = Some m" "ok_node m"
    using x by (cases rule: ok_edge_cases) auto
  from uniform_key [OF m(3), of "l - 1"] uniform_Full [OF assms(2), of x] m(2) show "2 \<le> l" by simp
  with uniform_Full [OF assms(2), of 16] have "content (full_edge v cs 16) [] = None" by (auto simp: uniform_def)
  with ok_Full_edge(2) [OF assms(1), of 16] show "full_edge v cs 16 = None" by (auto elim: ok_edge_cases)
qed

lemma scan_found: "scan_children cs k (Some j) = (Some j, \<exists>c \<in> set cs. c \<noteq> None)"
  by (induction cs arbitrary: k) auto

lemma scan_one:
  assumes "i < length cs" and "cs ! i \<noteq> None" and "\<And>j. j < length cs \<Longrightarrow> j \<noteq> i \<Longrightarrow> cs ! j = None"
  shows "scan_children cs k None = (Some (k + i), False)"
  using assms
proof (induction cs arbitrary: k i)
  case (Cons c cs)
  show ?case
  proof (cases i)
    case 0
    have "c' = None" if "c' \<in> set cs" for c'
      using that Cons.prems(3) [of "Suc _"] 0 by (metis Suc_less_eq in_set_conv_nth length_Cons nat.distinct(1) nth_Cons_Suc)
    then show ?thesis using Cons.prems(2) 0 by (auto simp: scan_found)
  next
    case (Suc i')
    have "c = None" using Cons.prems(3) [of 0] Suc by simp
    moreover have "scan_children cs (k + 1) None = (Some (k + 1 + i'), False)"
      using Cons.prems Suc by (intro Cons.IH) force+
    ultimately show ?thesis using Suc by simp
  qed
qed simp

lemma scan_two:
  assumes "i < length cs" and "j < length cs" and "i \<noteq> j" and "cs ! i \<noteq> None" and "cs ! j \<noteq> None"
  shows "\<exists>n. scan_children cs k None = (Some n, True)"
  using assms
proof (induction cs arbitrary: k i j)
  case (Cons c cs)
  show ?case
  proof (cases "c = None")
    case True
    with Cons.prems obtain i' j' where "i = Suc i'" "j = Suc j'" by (cases i; cases j) auto
    then show ?thesis using Cons True by auto
  next
    case False
    obtain m where "m < length cs" "cs ! m \<noteq> None"
    proof (cases i)
      case 0
      then show ?thesis using that [of "j - 1"] Cons.prems by (cases j) auto
    next
      case (Suc i')
      then show ?thesis using that [of i'] Cons.prems by simp
    qed
    then have "\<exists>c \<in> set cs. c \<noteq> None" using nth_mem by blast
    then show ?thesis using False by (simp add: scan_found)
  qed
qed simp

lemma unat_less_nibble: "x < 16 \<Longrightarrow> length cs = 16 \<Longrightarrow> full_edge v cs x = cs ! unat x"
  by (auto simp: full_edge_def unat_nibble)

lemma shrink_two:
  assumes "length cs = 16" and "x < 16" and "y < 16" and "x \<noteq> y" and "full_edge v cs x \<noteq> None" and "full_edge v cs y \<noteq> None"
  shows "shrink_full st (FullNode h e v cs) = Ret (Some (FullNode h e v cs), True)"
proof -
  have "\<exists>n. scan_children cs 0 None = (Some n, True)"
    using assms word_unat_eq_iff [of x y]
    by (intro scan_two [of "unat x" _ "unat y"]) (auto simp: unat_less_nibble unat_nibble)
  then show ?thesis by auto
qed

lemma shrink_one:
  assumes "length cs = 16" and "x < 16" and "full_edge v cs x = Some m" and "ok_node m" and "\<And>y. y \<noteq> x \<Longrightarrow> full_edge v cs y = None"
  shows "\<exists>n'. shrink_full st (FullNode h e v cs) = Ret (Some n', True) \<and> ok_node n' \<and> content (Some n') = content (Some (FullNode h e v cs))"
proof -
  have x: "cs ! unat x = Some m" "unat x < 16" using assms(1-3) by (simp_all add: unat_less_nibble unat_nibble)
  have v: "v = None" using assms(2) assms(5) [of 16] by (auto simp: full_edge_def)
  have "cs ! j = None" if "j < length cs" "j \<noteq> unat x" for j
  proof -
    have u: "unat (of_nat j :: byte) = j" using that assms(1) by (simp add: unat_of_nat)
    then have "(of_nat j :: byte) \<noteq> x" "(of_nat j :: byte) < 16" using that assms(1) by (auto simp: unat_nibble)
    with assms(5) [of "of_nat j"] u show ?thesis using assms(1) by (simp add: unat_less_nibble)
  qed
  then have "scan_children cs 0 None = (Some (unat x), False)"
    using scan_one [of "unat x" cs 0] x assms(1) by simp
  moreover have "(case m of ShortNode h' key child \<Rightarrow> content (Some (ShortNode [] (x # key) child))
      | _ \<Rightarrow> content (Some (ShortNode [] [x] (Some m)))) = content (Some (FullNode h e v cs))"
  proof
    fix k
    show "(case m of ShortNode h' key child \<Rightarrow> content (Some (ShortNode [] (x # key) child))
      | _ \<Rightarrow> content (Some (ShortNode [] [x] (Some m)))) k = content (Some (FullNode h e v cs)) k"
    proof (cases k)
      case Nil
      then show ?thesis by (cases m) (simp_all add: content_Short)
    next
      case (Cons y ys)
      then show ?thesis using assms(3) assms(5) [of y] by (cases "y = x"; cases m) (auto simp: content_Short)
    qed
  qed
  ultimately show ?thesis using assms(2,4) x v by (cases m) (auto simp: ok_node.simps(2) split: if_splits)
qed

declare shrink_full.simps [simp del]

text \<open>
  What a deletion promises: whether the key was there, the new node if it was, and the old node with
  some cached hashes emptied.
\<close>

definition deleted :: "node \<Rightarrow> bytes \<Rightarrow> (node option \<times> bool \<times> node option) go \<Rightarrow> bool" where
  "deleted n s r \<longleftrightarrow>
     (\<exists>new ok old. r = Ret (new, ok, Some old) \<and> ok_node old \<and> content (Some old) = content (Some n) \<and> (is_Full n \<longrightarrow> is_Full old) \<and>
        (ok \<longleftrightarrow> content (Some n) s \<noteq> None) \<and> (ok \<longrightarrow> ok_opt new \<and> content new = (content (Some n))(s := None)))"

lemma deleted_yes:
  assumes "ok_node old" and "content (Some old) = content (Some n)" and "is_Full n \<longrightarrow> is_Full old" and "content (Some n) s \<noteq> None"
    and "ok_opt new" and "content new = (content (Some n))(s := None)"
  shows "deleted n s (Ret (new, True, Some old))"
  using assms unfolding deleted_def by blast

lemma deleted_no:
  assumes "ok_node old" and "content (Some old) = content (Some n)" and "is_Full n \<longrightarrow> is_Full old" and "content (Some n) s = None"
  shows "deleted n s (Ret (new, False, Some old))"
  using assms unfolding deleted_def by blast

lemma deletedE:
  assumes "deleted n s r"
  obtains new ok old where "r = Ret (new, ok, Some old)" and "ok_node old" and "content (Some old) = content (Some n)"
    and "is_Full n \<longrightarrow> is_Full old" and "ok \<longleftrightarrow> content (Some n) s \<noteq> None" and "ok \<Longrightarrow> ok_opt new"
    and "ok \<Longrightarrow> content new = (content (Some n))(s := None)"
  using assms unfolding deleted_def by blast

lemma content_Short_hash: "content (Some (ShortNode h key c)) = content (Some (ShortNode h' key c))"
  by (rule ext) (simp add: content_Short)

lemma delete_leaf:
  assumes "valid_key key" and "valid_key s" and "2 \<le> f" and c: "c = Some (ValueNode False (Some b))"
  shows "deleted (ShortNode h key c) s (delete_node st f (Some (ShortNode h key c)) s)"
proof -
  obtain g where f: "f = Suc (Suc g)" using assms(3) by (metis add_2_eq_Suc le_Suc_ex)
  obtain p a' b' where sp: "s = p @ a'" "key = p @ b'" "prefixLen s key = length p" "a' = [] \<or> b' = [] \<or> hd a' \<noteq> hd b'"
    by (rule prefixLen_split)
  have old: "ok_node (ShortNode [] key c)" "content (Some (ShortNode [] key c)) = content (Some (ShortNode h key c))"
    using assms(1) c by (simp, intro content_Short_hash)
  show ?thesis
  proof (cases "a' = []")
    case True
    then have "s = key" using sp assms(1,2) valid_key_prefix [of p b'] by simp
    moreover from this have "content (Some (ShortNode h key c)) k = (if k = s then Some b else None)" for k
      using c by (auto simp: content_Short)
    ultimately have "deleted (ShortNode h key c) s (Ret (None, True, Some (ShortNode [] key c)))"
      using old by (intro deleted_yes) (simp_all add: fun_eq_iff)
    then show ?thesis using f sp True by (simp add: Let_def)
  next
    case False
    have "content (Some (ShortNode h key c)) s = None"
      using sp False c by (auto simp: content_Short)
    then have "deleted (ShortNode h key c) s (Ret (None, False, Some (ShortNode [] key c)))"
      using old by (intro deleted_no) simp_all
    then show ?thesis using f sp False c by (auto simp: Let_def)
  qed
qed

text \<open>The new child of a short node is merged with it when it is short as well.\<close>

lemma merge_Short:
  assumes "key \<noteq> []" "nibbles key" and "ok_node m"
  shows "\<exists>x. (case m of ShortNode h' key' child' \<Rightarrow> Ret (Some (ShortNode [] (concat_keys key key') child'), True, node)
      | c \<Rightarrow> Ret (Some (ShortNode [] key (Some c)), True, node)) = Ret (Some x, True, node) \<and>
    ok_node x \<and> content (Some x) = content (Some (ShortNode [] key (Some m)))"
proof (cases m)
  case (ShortNode h' key' child')
  have "ok_node (ShortNode [] (key @ key') child')"
    using assms(3) [unfolded ShortNode] assms(2) by (cases rule: ok_Short_cases) (auto simp: valid_key_append valid_key_not_Nil)
  then show ?thesis using ShortNode content_Short_Short [of "[]" key h' key' child' "[]"] by simp
next
  case (FullNode h' e v cs)
  then have "ok_node (ShortNode [] key (Some m))" using assms by simp
  with FullNode show ?thesis by simp
qed (use assms(3) in simp)

lemma delete_Short_into:
  assumes c: "key \<noteq> []" "nibbles key" "c = Some n" "is_Full n" and r: "deleted n a (delete_node st g c a)" and a: "a \<noteq> []"
  shows "deleted (ShortNode h key c) (key @ a) (delete_node st (Suc g) (Some (ShortNode h key c)) (key @ a))"
  using r
proof (cases rule: deletedE)
  case (1 new ok old)
  let ?old = "Some (ShortNode [] key (Some old))"
  have "prefixLen (key @ a) key = length key" by (induction key) auto
  then have d: "delete_node st (Suc g) (Some (ShortNode h key c)) (key @ a) =
      (if \<not> ok then Ret (None, False, ?old)
       else
         (case new of
            None \<Rightarrow> Ret (None, True, ?old)
          | Some m \<Rightarrow>
              (case m of ShortNode h' key' child' \<Rightarrow> Ret (Some (ShortNode [] (concat_keys key key') child'), True, ?old)
               | c \<Rightarrow> Ret (Some (ShortNode [] key (Some c)), True, ?old))))"
    using 1(1) c(1,3) a by (simp add: Let_def)
  have old: "ok_node (ShortNode [] key (Some old))" using 1 c by (simp add: ok_node.simps(2))
  have oc: "content ?old = content (Some (ShortNode h key c))"
    using 1(3) c(3) by (intro ext) (simp add: content_Short)
  have s: "content (Some (ShortNode h key c)) (key @ a) = content (Some n) a" using c(3) by simp
  show ?thesis
  proof (cases ok)
    case False
    then have "deleted (ShortNode h key c) (key @ a) (Ret (None, False, ?old))"
      using old oc s 1(5) by (intro deleted_no) simp_all
    then show ?thesis using False unfolding d by simp
  next
    case True
    have nc: "content (Some (ShortNode [] key new)) = (content (Some (ShortNode h key c)))(key @ a := None)"
      using 1(7) [OF True] c(3) by (intro content_Short_upd) simp
    have yes: "deleted (ShortNode h key c) (key @ a) (Ret (x, True, ?old))"
      if "ok_opt x" and "content x = content (Some (ShortNode [] key new))" for x
      using that old oc s 1(5) True nc by (intro deleted_yes) simp_all
    show ?thesis
    proof (cases new)
      case None
      have "content None = content (Some (ShortNode [] key None))" by (intro ext) (simp add: content_Short)
      with None True yes [of None] show ?thesis unfolding d by simp
    next
      case (Some m)
      then have "ok_node m" using 1(6) [OF True] by simp
      from merge_Short [OF c(1,2) this, of ?old] Some True yes show ?thesis unfolding d by auto
    qed
  qed
qed

lemma delete_ext:
  assumes "ok_node (ShortNode h key (Some n))" and "is_Full n" and "uniform l (Some (ShortNode h key (Some n)))"
    and "valid_key s" and "l \<le> length s" and "length s + 2 \<le> f"
    and IH: "\<And>s f. valid_key s \<Longrightarrow> l - length key \<le> length s \<Longrightarrow> length s + 2 \<le> f \<Longrightarrow> deleted n s (delete_node st f (Some n) s)"
  shows "deleted (ShortNode h key (Some n)) s (delete_node st f (Some (ShortNode h key (Some n))) s)"
proof -
  have c: "key \<noteq> []" "nibbles key" "ok_node n" using assms(1,2) by (cases n; auto)+
  obtain g where f: "f = Suc g" using assms(6) by (cases f) auto
  obtain p a b where sp: "s = p @ a" "key = p @ b" "prefixLen s key = length p" "a = [] \<or> b = [] \<or> hd a \<noteq> hd b"
    by (rule prefixLen_split)
  have va: "valid_key a" using assms(4) sp c(2) by (auto intro: valid_key_nibbles)
  then have a: "a \<noteq> []" by (rule valid_key_not_Nil)
  have le: "length key \<le> l" using uniform_Short_length(1) [OF assms(1,3)] .
  have rec: "deleted n a (delete_node st g (Some n) a)" if "p \<noteq> []"
  proof (rule IH [OF va])
    show "l - length key \<le> length a" using assms(5) sp by simp
    show "length a + 2 \<le> g" using assms(6) sp f that by (cases p) auto
  qed
  show ?thesis
  proof (cases "b = []")
    case True
    with rec sp c assms(2) a f delete_Short_into [OF c(1,2) refl assms(2) _ a, of st g h] show ?thesis by simp
  next
    case False
    have no: "content (Some (ShortNode h key (Some n))) s = None"
      using sp False a by (cases a; cases b; auto simp: content_Short)
    have "deleted (ShortNode h key (Some n)) s (Ret (None, False, Some (ShortNode [] key (Some m))))"
      if "ok_node m" "is_Full m" "content (Some m) = content (Some n)" for m
      using that c no by (intro deleted_no) (auto simp: content_Short fun_eq_iff)
    note res = this [of n] this
    show ?thesis
    proof (cases "p = []")
      case True
      then show ?thesis using res(1) c assms(2) sp f a by (simp add: Let_def)
    next
      case p: False
      have "length a \<noteq> l - length key" using sp False le assms(5) by (cases b) auto
      then have "content (Some n) a = None" using uniform_Short [OF assms(3)] unfolding uniform_def by blast
      with rec [OF p] obtain m where m: "delete_node st g (Some n) a = Ret (fst m, False, Some (snd m))" "ok_node (snd m)"
          "content (Some (snd m)) = content (Some n)" "is_Full (snd m)"
        using assms(2) by (auto elim!: deletedE)
      then show ?thesis using res(2) [of "snd m"] sp p f a by (simp add: Let_def)
    qed
  qed
qed

lemma content_Full_same:
  assumes "full_edge v' cs' = (full_edge v cs)(x := c)" and "content c = content (full_edge v cs x)"
  shows "content (Some (FullNode h' e' v' cs')) = content (Some (FullNode h e v cs))"
proof
  fix k
  show "content (Some (FullNode h' e' v' cs')) k = content (Some (FullNode h e v cs)) k"
    using assms by (cases k) simp_all
qed

lemma ok_Full_upd:
  assumes "ok_node (FullNode h e v cs)" and "length cs' = 16" and "full_edge v' cs' = (full_edge v cs)(x := c)"
    and "ok_edge x c" and "c \<noteq> None \<or> full_edge v cs x = None"
  shows "ok_node (FullNode h' e' v' cs')"
proof -
  obtain y z where yz: "y \<noteq> z" "full_edge v cs y \<noteq> None" "full_edge v cs z \<noteq> None"
    using assms(1) unfolding ok_node_Full by blast
  then have "y \<noteq> z \<and> full_edge v' cs' y \<noteq> None \<and> full_edge v' cs' z \<noteq> None" using assms(3,5) by auto
  moreover have "ok_edge w (full_edge v' cs' w)" for w using assms ok_Full_edge(2) [OF assms(1)] by simp
  ultimately show ?thesis unfolding ok_node_Full using assms(2) by blast
qed

text \<open>A full node keeps at least one edge when one is removed, and then it becomes a short node.\<close>

lemma shrink_Full:
  assumes "ok_node (FullNode h e v cs)" and "full_edge v cs 16 = None" and "length cs' = 16"
    and "full_edge v' cs' = (full_edge v cs)(x := c)" and "x < 16" and "ok_opt c"
  shows "\<exists>n'. shrink_full st (FullNode h' e' v' cs') = Ret (Some n', True) \<and> ok_node n' \<and>
    content (Some n') = content (Some (FullNode h' e' v' cs'))"
proof -
  let ?E = "full_edge v' cs'"
  have ok: "ok_edge z (?E z)" for z
    using ok_Full_edge(2) [OF assms(1)] assms(4-6) by (auto simp: ok_edge_def)
  have "?E 16 = None" using assms(2,4,5) by auto
  with ok have nib: "z < 16 \<and> (\<exists>m. ?E z = Some m \<and> ok_node m)" if "?E z \<noteq> None" for z
    using ok [of z] that by (cases rule: ok_edge_cases) auto
  obtain y where y: "y \<noteq> x" "full_edge v cs y \<noteq> None" using assms(1) unfolding ok_node_Full by metis
  then have Ey: "?E y \<noteq> None" using assms(4) by simp
  show ?thesis
  proof (cases "\<exists>z. z \<noteq> y \<and> ?E z \<noteq> None")
    case True
    then obtain z where z: "z \<noteq> y" "?E z \<noteq> None" by blast
    then have "ok_node (FullNode h' e' v' cs')" unfolding ok_node_Full using assms(3) Ey ok by blast
    then show ?thesis using shrink_two [OF assms(3), of y z v' st h' e'] nib z Ey by auto
  next
    case False
    obtain m where "y < 16" "?E y = Some m" "ok_node m" using nib [OF Ey] by blast
    then show ?thesis using shrink_one [OF assms(3), of y v' m st h' e'] False by auto
  qed
qed

lemma delete_Full:
  assumes ok: "ok_node (FullNode h e v cs)" and "full_edge v cs 16 = None" and x: "x < 16"
    and r: "case full_edge v cs x of None \<Rightarrow> True | Some m \<Rightarrow> deleted m xs (delete_node st g (Some m) xs)" and g: "0 < g"
  shows "deleted (FullNode h e v cs) (x # xs) (delete_node st (Suc g) (Some (FullNode h e v cs)) (x # xs))"
proof -
  have x16: "x \<le> 16" and l: "length cs = 16" using x ok_Full_edge(1) [OF ok] by auto
  have "\<exists>new b old. delete_node st g (full_edge v cs x) xs = Ret (new, b, old) \<and> ok_edge x old \<and>
      (old = None \<longleftrightarrow> full_edge v cs x = None) \<and> content old = content (full_edge v cs x) \<and>
      (b \<longleftrightarrow> content (full_edge v cs x) xs \<noteq> None) \<and> (b \<longrightarrow> ok_opt new \<and> content new = (content (full_edge v cs x))(xs := None))"
  proof (cases "full_edge v cs x")
    case None
    then show ?thesis using g by (cases g) (auto simp: ok_edge_def)
  next
    case (Some m)
    with r have "deleted m xs (delete_node st g (Some m) xs)" by simp
    then show ?thesis using Some x unfolding deleted_def ok_edge_def by auto
  qed
  then obtain new b old where d: "delete_node st g (full_edge v cs x) xs = Ret (new, b, old)" "ok_edge x old"
      "old = None \<longleftrightarrow> full_edge v cs x = None" "content old = content (full_edge v cs x)"
      "b \<longleftrightarrow> content (full_edge v cs x) xs \<noteq> None"
      "b \<longrightarrow> ok_opt new \<and> content new = (content (full_edge v cs x))(xs := None)" by (elim exE conjE) (rule that)
  obtain vo cso where o: "setEdge x old (FullNode h e v cs) = Ret (FullNode h e vo cso)" "length cso = 16"
      "full_edge vo cso = (full_edge v cs)(x := old)" using setEdge_Full [OF l x16] by blast
  obtain vn csn where n: "setEdge x new (FullNode [] 0 v cs) = Ret (FullNode [] 0 vn csn)" "length csn = 16"
      "full_edge vn csn = (full_edge v cs)(x := new)" using setEdge_Full [OF l x16] by blast
  have oo: "ok_node (FullNode h e vo cso)" using ok o(2,3) d(2,3) by (intro ok_Full_upd [OF ok]) auto
  have oc: "content (Some (FullNode h e vo cso)) = content (Some (FullNode h e v cs))" using o(3) d(4) by (rule content_Full_same)
  show ?thesis
  proof (cases b)
    case False
    then have "deleted (FullNode h e v cs) (x # xs) (Ret (None, False, Some (FullNode h e vo cso)))"
      using oo oc d(5) by (intro deleted_no) simp_all
    then show ?thesis using False d(1) o(1) l x16 by (simp add: getEdge_Full Let_def)
  next
    case True
    then obtain n' where n': "shrink_full st (FullNode [] 0 vn csn) = Ret (Some n', True)" "ok_node n'"
        "content (Some n') = content (Some (FullNode [] 0 vn csn))"
      using shrink_Full [OF ok assms(2) n(2,3) x] d(6) by blast
    have "content (Some n') = (content (Some (FullNode h e v cs)))(x # xs := None)"
      unfolding n'(3) using d(6) True by (intro content_Full_upd [OF n(3)]) blast
    then have "deleted (FullNode h e v cs) (x # xs) (Ret (Some n', True, Some (FullNode h e vo cso)))"
      using oo oc d(5) True n'(2) by (intro deleted_yes) simp_all
    then show ?thesis using True d(1) o(1) n(1) n'(1) l x16 by (simp add: getEdge_Full Let_def)
  qed
qed

lemma delete_content:
  assumes "ok_node n" and "uniform l (Some n)" and "valid_key s" and "l \<le> length s" and "length s + 2 \<le> f"
  shows "deleted n s (delete_node st f (Some n) s)"
  using assms
proof (induction arbitrary: l s f rule: ok_node_induct)
  case (leaf h key b)
  then show ?case by (intro delete_leaf) simp_all
next
  case (ext h key h' e v cs)
  show ?case
    using uniform_Short [OF ext.prems(1)] ext
    by (intro delete_ext [of _ _ _ l]) simp_all
next
  case (full h e v cs)
  note u = uniform_Full_edge [OF full.hyps(1) full.prems(1)]
  obtain x xs where s: "s = x # xs" "x < 16" "valid_key xs"
    using full.prems(2,3) u(1) by (cases s) (auto split: if_splits)
  obtain g where f: "f = Suc g" using full.prems(4) by (cases f) auto
  have "deleted m xs (delete_node st g (Some m) xs)" if "full_edge v cs x = Some m" for m
  proof (rule full.IH [OF s(2) that])
    show "ok_node m" using ok_Full_edge(2) [OF full.hyps(1), of x] that s(2) by (auto simp: ok_edge_def)
    show "uniform (l - 1) (Some m)" using uniform_Full [OF full.prems(1), of x] that by simp
  qed (use full.prems s f in auto)
  then show ?case
    using delete_Full [OF full.hyps(1) u(2) s(2), of xs st g] full.prems(4) f s(1) by (auto split: option.split)
qed

end
