(* ===== verification/Itrie_Spec.thy ===== *)
theory Itrie_Spec
  imports Itrie_Map
begin

text \<open>
  The contract of a key-value store as a locale, with what follows from it for sequences of operations, and its
  interpretation on the transactions of the trie.
\<close>

section \<open>Key-value stores\<close>

datatype kv_op = KvInsert bytes bytes | KvDelete bytes

primrec kv_key :: "kv_op \<Rightarrow> bytes" where
  "kv_key (KvInsert k v) = k"
| "kv_key (KvDelete k) = k"

text \<open>The specification: operations on a map.\<close>

primrec kv_map :: "kv_op \<Rightarrow> (bytes \<Rightarrow> bytes option) \<Rightarrow> bytes \<Rightarrow> bytes option" where
  "kv_map (KvInsert k v) m = m(k := Some v)"
| "kv_map (KvDelete k) m = m(k := None)"

primrec kv_run :: "('k \<Rightarrow> 's \<Rightarrow> 's go) \<Rightarrow> 'k list \<Rightarrow> 's \<Rightarrow> 's go" where
  "kv_run stp [] s = Ret s"
| "kv_run stp (op # ops) s = bnd (stp op s) (kv_run stp ops)"

locale kv_store =
  fixes stp :: "kv_op \<Rightarrow> 's \<Rightarrow> 's go"
    and abs :: "'s \<Rightarrow> bytes \<Rightarrow> bytes option"
    and inv :: "'s \<Rightarrow> bool"
    and key_ok :: "bytes \<Rightarrow> bool"
  assumes step: "inv s \<Longrightarrow> key_ok (kv_key op) \<Longrightarrow> \<exists>s'. stp op s = Ret s' \<and> inv s' \<and> abs s' = kv_map op (abs s)"
begin

lemma run:
  assumes "inv s" and "\<forall>op \<in> set ops. key_ok (kv_key op)"
  shows "\<exists>s'. kv_run stp ops s = Ret s' \<and> inv s' \<and> abs s' = fold kv_map ops (abs s)"
  using assms
proof (induction ops arbitrary: s)
  case Nil
  then show ?case by simp
next
  case (Cons op ops)
  then obtain s1 where "stp op s = Ret s1" "inv s1" "abs s1 = kv_map op (abs s)" using step by force
  with Cons show ?case by force
qed

end

section \<open>Transactions of the trie\<close>

primrec Itxn_step :: "kv_op \<Rightarrow> itxn \<Rightarrow> itxn go" where
  "Itxn_step (KvInsert k v) t = Itxn_Insert k v t"
| "Itxn_step (KvDelete k) t = Itxn_Delete k t"

definition itxn_map :: "itxn \<Rightarrow> bytes \<Rightarrow> bytes option" where
  "itxn_map t k = content (itx_root t) (keybytesToHex k)"

text \<open>All keys have \<open>l\<close> bytes.\<close>

definition itxn_inv :: "nat \<Rightarrow> itxn \<Rightarrow> bool" where
  "itxn_inv l t \<longleftrightarrow> ok_opt (itx_root t) \<and> uniform (2 * l + 1) (itx_root t)"

lemma key_fuel_keybytes [simp]: "key_fuel (keybytesToHex k) = 4 * length k + 7"
  by (simp add: key_fuel_def)

lemma lookup_nil: "0 < f \<Longrightarrow> lookup st f None k = Ret (None, None, None)"
  and delete_nil: "0 < f \<Longrightarrow> delete_node st f None k = Ret (None, False, None)"
  by (cases f; simp)+

lemma Itxn_Lookup_map:
  assumes "ok_opt (itx_root t)"
  shows "Itxn_Lookup k t = Ret (itxn_map t k, t)"
proof (cases "itx_root t")
  case None
  then show ?thesis by (simp add: Itxn_Lookup_def itxn_map_def lookup_nil)
next
  case (Some n)
  then have "lookup (itx_storage t) (key_fuel (keybytesToHex k)) (itx_root t) (keybytesToHex k) =
      Ret (None, itxn_map t k, itx_root t)"
    using lookup_content [of n "keybytesToHex k"] assms by (simp add: itxn_map_def)
  then show ?thesis by (simp add: Itxn_Lookup_def Let_def)
qed

lemma Itxn_Insert_map:
  assumes "ok_opt (itx_root t)"
  shows "\<exists>n. Itxn_Insert k v t = Ret (t\<lparr>itx_root := Some n\<rparr>) \<and> ok_node n \<and>
    content (Some n) = (content (itx_root t))(keybytesToHex k := Some v)"
proof (cases "itx_root t")
  case None
  let ?n = "ShortNode [] (keybytesToHex k) (Some (new_value v))"
  have "keybytesToHex k \<noteq> []" by (rule valid_key_not_Nil) simp
  with None have "Itxn_Insert k v t = Ret (t\<lparr>itx_root := Some ?n\<rparr>)" by (simp add: Itxn_Insert_def Let_def insert_None)
  moreover have "content (Some ?n) = (content (itx_root t))(keybytesToHex k := Some v)"
    using None by (auto simp: content_Short new_value_def fun_eq_iff)
  moreover have "ok_node ?n" by (simp add: new_value_def)
  ultimately show ?thesis by blast
next
  case (Some n)
  then obtain n' where "insert_node (itx_storage t) (itx_epoch t) (key_fuel (keybytesToHex k)) (itx_root t) (keybytesToHex k) v = Ret (Some n')"
      "ok_node n'" "content (Some n') = (content (itx_root t))(keybytesToHex k := Some v)"
    using insert_content [of n "keybytesToHex k" "key_fuel (keybytesToHex k)" "itx_storage t" "itx_epoch t" v] assms by auto
  then show ?thesis by (intro exI [of _ n']) (simp add: Itxn_Insert_def Let_def)
qed

lemma Itxn_Delete_map:
  assumes "itxn_inv (length k) t"
  shows "\<exists>r. Itxn_Delete k t = Ret (t\<lparr>itx_root := r\<rparr>) \<and> ok_opt r \<and> content r = (content (itx_root t))(keybytesToHex k := None)"
proof (cases "itx_root t")
  case None
  then show ?thesis by (intro exI [of _ None]) (simp add: Itxn_Delete_def delete_nil)
next
  case (Some n)
  then have "deleted n (keybytesToHex k) (delete_node (itx_storage t) (key_fuel (keybytesToHex k)) (itx_root t) (keybytesToHex k))"
    using delete_content [of n "2 * length k + 1" "keybytesToHex k"] assms by (simp add: itxn_inv_def)
  then show ?thesis
  proof (cases rule: deletedE)
    case (1 new ok old)
    then show ?thesis
      by (intro exI [of _ "if ok then new else Some old"])
        (cases ok; simp add: Itxn_Delete_def Let_def Some fun_upd_idem)
  qed
qed

lemma uniform_upd:
  assumes "uniform l c" and "length k = l" and "content c' = (content c)(k := v)"
  shows "uniform l c'"
  using assms by (auto simp: uniform_def)

interpretation trie: kv_store Itxn_step itxn_map "itxn_inv l" "\<lambda>k. length k = l" for l
proof
  fix s op
  assume i: "itxn_inv l s" and k: "length (kv_key op) = l"
  have u: "itxn_inv l (s\<lparr>itx_root := r\<rparr>) \<and> itxn_map (s\<lparr>itx_root := r\<rparr>) = (itxn_map s)(kv_key op := v)"
    if "ok_opt r" "content r = (content (itx_root s))(keybytesToHex (kv_key op) := v)" for r v
    using that i k uniform_upd [of "2 * l + 1" "itx_root s" "keybytesToHex (kv_key op)" r v]
    by (auto simp: itxn_inv_def itxn_map_def)
  show "\<exists>s'. Itxn_step op s = Ret s' \<and> itxn_inv l s' \<and> itxn_map s' = kv_map op (itxn_map s)"
  proof (cases op)
    case (KvInsert key v)
    then show ?thesis using Itxn_Insert_map [of s key v] i u by (fastforce simp: itxn_inv_def)
  next
    case (KvDelete key)
    then show ?thesis using Itxn_Delete_map [of key s] i k u by fastforce
  qed
qed

section \<open>Properties\<close>

lemma empty_txn: "itxn_inv l (Trie_Txn NewTrie)" "itxn_map (Trie_Txn NewTrie) = (\<lambda>k. None)"
  by (simp_all add: itxn_inv_def itxn_map_def Trie_Txn_def NewTrie_def uniform_def fun_eq_iff)

text \<open>
  C29: The trie is a map. After any sequence of insertions and deletions of keys of one length (the program uses hashes as keys) on an
  empty trie, no operation having panicked, every lookup returns what the same operations leave in a map, and
  changes nothing.
\<close>

theorem trie_refines_map:
  assumes "\<forall>op \<in> set ops. length (kv_key op) = l"
  shows "\<exists>t. kv_run Itxn_step ops (Trie_Txn NewTrie) = Ret t \<and>
    (\<forall>k. Itxn_Lookup k t = Ret (fold kv_map ops (\<lambda>k. None) k, t))"
proof -
  from trie.run [OF empty_txn(1) assms] obtain t where t: "kv_run Itxn_step ops (Trie_Txn NewTrie) = Ret t" "itxn_inv l t"
    "itxn_map t = fold kv_map ops (\<lambda>k. None)" unfolding empty_txn(2) by blast
  then show ?thesis using Itxn_Lookup_map [of t] by (simp add: itxn_inv_def)
qed

theorem trie_refines_map_witness:
  "\<exists>t. kv_run Itxn_step [KvInsert [1, 2] [7], KvInsert [1, 3] [8], KvDelete [1, 2]] (Trie_Txn NewTrie) = Ret t \<and>
    (\<forall>k. Itxn_Lookup k t = Ret (fold kv_map [KvInsert [1, 2] [7], KvInsert [1, 3] [8], KvDelete [1, 2]] (\<lambda>k. None) k, t))"
  by (rule trie_refines_map [of _ 2]) simp

text \<open>
  C32: Insertion works for keys of any lengths, a key that is a prefix of another included: a lookup afterwards
  returns the new value for the key and what it returned before for every other key, and the trie stays
  well-formed.
\<close>

theorem trie_insert_lookup:
  assumes "ok_opt (itx_root t)"
  shows "\<exists>t'. Itxn_Insert k v t = Ret t' \<and> ok_opt (itx_root t') \<and> Itxn_Lookup k t' = Ret (Some v, t') \<and>
    (\<forall>k'. k' \<noteq> k \<longrightarrow> (\<exists>r. Itxn_Lookup k' t = Ret (r, t) \<and> Itxn_Lookup k' t' = Ret (r, t')))"
proof -
  obtain n where n: "Itxn_Insert k v t = Ret (t\<lparr>itx_root := Some n\<rparr>)" "ok_node n"
      "content (Some n) = (content (itx_root t))(keybytesToHex k := Some v)"
    using Itxn_Insert_map [OF assms] by blast
  let ?t = "t\<lparr>itx_root := Some n\<rparr>"
  have "itxn_map ?t k' = (if k' = k then Some v else itxn_map t k')" for k'
    using n(3) by (simp add: itxn_map_def)
  then show ?thesis using n(1,2) Itxn_Lookup_map [OF assms] Itxn_Lookup_map [of ?t] by auto
qed

theorem trie_insert_lookup_witness:
  "\<exists>t'. Itxn_Insert [1, 2] [7] (Trie_Txn NewTrie) = Ret t' \<and> ok_opt (itx_root t') \<and> Itxn_Lookup [1, 2] t' = Ret (Some [7], t') \<and>
    (\<forall>k'. k' \<noteq> [1, 2] \<longrightarrow> (\<exists>r. Itxn_Lookup k' (Trie_Txn NewTrie) = Ret (r, Trie_Txn NewTrie) \<and> Itxn_Lookup k' t' = Ret (r, t')))"
  by (rule trie_insert_lookup) (simp add: Trie_Txn_def NewTrie_def)

text \<open>The two keys below share a short node over a full node.\<close>

definition two_leaf :: "byte \<Rightarrow> node" where
  "two_leaf v = ShortNode [] [16] (Some (new_value [v]))"

definition two_keys :: node where
  "two_keys = ShortNode [] [1, 2, 3] (Some (FullNode [] 1 None (no_children[4 := Some (two_leaf 7), 5 := Some (two_leaf 8)])))"

lemma two_keys_ops:
  "insert_node None 1 15 None [1, 2, 3, 4, 16] [7] = Ret (Some (ShortNode [] [1, 2, 3, 4, 16] (Some (new_value [7]))))"
  "insert_node None 1 15 (Some (ShortNode [] [1, 2, 3, 4, 16] (Some (new_value [7])))) [1, 2, 3, 5, 16] [8] = Ret (Some two_keys)"
  "lookup None 15 (Some two_keys) [1, 2, 3, 4, 16] = Ret (None, Some [7], Some two_keys)"
  "lookup None 11 (Some two_keys) [1, 4, 16] = Ret (None, None, Some two_keys)"
  "delete_node None 11 (Some two_keys) [1, 4, 16] = Ret (Some (ShortNode [] [1, 2, 3, 5, 16] (Some (new_value [8]))), True, Some two_keys)"
  "lookup None 15 (Some (ShortNode [] [1, 2, 3, 5, 16] (Some (new_value [8])))) [1, 2, 3, 4, 16] =
     Ret (None, None, Some (ShortNode [] [1, 2, 3, 5, 16] (Some (new_value [8]))))"
  by code_simp+

text \<open>
  Deletion does not compare the whole key of a short node. With keys of different lengths it removes
  the wrong one: in a trie with the keys \<open>0x1234\<close> and \<open>0x1235\<close>, deleting \<open>0x14\<close>, which is not there, removes \<open>0x1234\<close>.
\<close>

lemma trie_delete_other_key:
  "\<exists>t t'. kv_run Itxn_step [KvInsert [0x12, 0x34] [7], KvInsert [0x12, 0x35] [8]] (Trie_Txn NewTrie) = Ret t \<and>
    Itxn_Lookup [0x12, 0x34] t = Ret (Some [7], t) \<and> Itxn_Lookup [0x14] t = Ret (None, t) \<and>
    Itxn_Delete [0x14] t = Ret t' \<and> Itxn_Lookup [0x12, 0x34] t' = Ret (None, t')"
proof -
  let ?t = "(Trie_Txn NewTrie)\<lparr>itx_root := Some two_keys\<rparr>"
  let ?t' = "(Trie_Txn NewTrie)\<lparr>itx_root := Some (ShortNode [] [1, 2, 3, 5, 16] (Some (new_value [8])))\<rparr>"
  have k: "keybytesToHex [0x12, 0x34] = [1, 2, 3, 4, 16]" "keybytesToHex [0x12, 0x35] = [1, 2, 3, 5, 16]" "keybytesToHex [0x14] = [1, 4, 16]"
    by simp_all
  note e = k Trie_Txn_def NewTrie_def Itxn_Insert_def Itxn_Delete_def Itxn_Lookup_def key_fuel_def two_keys_ops
  show ?thesis by (intro exI [of _ ?t] exI [of _ ?t'] conjI) (simp_all add: e)
qed

end
