(* ===== verification/Itrie_Canonical.thy ===== *)
theory Itrie_Canonical
  imports Itrie_Spec
begin

text \<open>
  The form of a well-formed trie is determined by its map: two tries with the same map are the same tree
  up to the caches, the hash and the epoch of a node. So the form does not depend on the order or the kind of operations that
  built it, which is what lets a root hash identify a state.
\<close>

section \<open>The tree without its caches\<close>

fun erase :: "node \<Rightarrow> node" where
  "erase (ValueNode h b) = ValueNode h b"
| "erase (ShortNode h k c) = ShortNode [] k (map_option erase c)"
| "erase (FullNode h e v cs) = FullNode [] 0 (map_option erase v) (map (map_option erase) cs)"

lemma full_two_heads:
  assumes "ok_node (FullNode h e v cs)"
  obtains x xs y ys where "x \<noteq> y" and "content (Some (FullNode h e v cs)) (x # xs) \<noteq> None"
    and "content (Some (FullNode h e v cs)) (y # ys) \<noteq> None"
proof -
  have ne: "\<exists>xs. content (full_edge v cs x) xs \<noteq> None" if "full_edge v cs x \<noteq> None" for x
    using ok_Full_edge(2) [OF assms, of x] that content_nonempty by (cases rule: ok_edge_cases) auto
  obtain x y where "x \<noteq> y" "full_edge v cs x \<noteq> None" "full_edge v cs y \<noteq> None"
    using assms unfolding ok_node_Full by blast
  then show ?thesis using that [of x y] ne [of x] ne [of y] by auto
qed

lemma content_leaf: "content (Some (ShortNode h key (Some (ValueNode False (Some b))))) k = (if k = key then Some b else None)"
  by (auto simp: content_Short)

lemma content_Short_prefix:
  "content (Some (ShortNode h key c)) k \<noteq> None \<Longrightarrow> take (length key) k = key"
  by (auto simp: content_Short split: if_splits)

text \<open>A prefix of two keys that part behind \<open>p\<close> is at most as long as \<open>p\<close>.\<close>

lemma prefix_of_parting:
  assumes "take (length q) (p @ x # xs) = q" and "take (length q) (p @ y # ys) = q" and "x \<noteq> y"
  shows "length q \<le> length p"
proof (rule ccontr)
  assume "\<not> length q \<le> length p"
  then have "take (length q) (p @ x # xs) ! length p = x" and "take (length q) (p @ y # ys) ! length p = y"
    by (simp_all add: nth_append)
  with assms show False by simp
qed

lemma ext_ext_key:
  assumes a: "ok_node (FullNode h e v cs)" and b: "ok_node (FullNode h' e' v' cs')"
    and eq: "content (Some (ShortNode g key (Some (FullNode h e v cs)))) = content (Some (ShortNode g' key' (Some (FullNode h' e' v' cs'))))"
  shows "key = key'"
proof -
  obtain x xs y ys where A: "x \<noteq> y" "content (Some (FullNode h e v cs)) (x # xs) \<noteq> None"
      "content (Some (FullNode h e v cs)) (y # ys) \<noteq> None" using a by (rule full_two_heads)
  obtain z zs w ws where B: "z \<noteq> w" "content (Some (FullNode h' e' v' cs')) (z # zs) \<noteq> None"
      "content (Some (FullNode h' e' v' cs')) (w # ws) \<noteq> None" using b by (rule full_two_heads)
  have A': "take (length key') (key @ k) = key'" if "content (Some (FullNode h e v cs)) k \<noteq> None" for k
    using content_Short_prefix eq that by (metis content_Short_append)
  have B': "take (length key) (key' @ k) = key" if "content (Some (FullNode h' e' v' cs')) k \<noteq> None" for k
    using content_Short_prefix eq that by (metis content_Short_append)
  have "length key' \<le> length key" using prefix_of_parting [OF A' [OF A(2)] A' [OF A(3)] A(1)] .
  moreover have "length key \<le> length key'" using prefix_of_parting [OF B' [OF B(2)] B' [OF B(3)] B(1)] .
  ultimately show ?thesis using A' [OF A(2)] by simp
qed

section \<open>Canonical form\<close>

lemma canonical_leaf:
  assumes "ok_node b" and "\<And>k. content (Some b) k = (if k = key then Some v else None)"
  shows "\<exists>h. b = ShortNode h key (Some (ValueNode False (Some v)))"
  using assms
proof (cases b)
  case (ShortNode h key' c)
  with assms(1) have "ok_node (ShortNode h key' c)" by simp
  then show ?thesis
  proof (cases rule: ok_Short_cases)
    case (leaf b')
    then have "(if k = key' then Some b' else None) = (if k = key then Some v else None)" for k
      using assms(2) [of k] ShortNode by (simp add: content_leaf)
    from this [of key'] leaf ShortNode show ?thesis by (auto split: if_splits)
  next
    case (ext h' e w cs)
    obtain x xs y ys where A: "x \<noteq> y" "content c (x # xs) \<noteq> None" "content c (y # ys) \<noteq> None"
      using ext(3,4) full_two_heads by metis
    have "key' @ x # xs = key" "key' @ y # ys = key"
      using A(2,3) assms(2) [of "key' @ x # xs"] assms(2) [of "key' @ y # ys"] ShortNode by (auto split: if_splits)
    then show ?thesis using A(1) by auto
  qed
next
  case (FullNode h e w cs)
  with assms(1) obtain x xs y ys where A: "x \<noteq> y" "content (Some b) (x # xs) \<noteq> None" "content (Some b) (y # ys) \<noteq> None"
    using full_two_heads by metis
  then show ?thesis using assms(2) [of "x # xs"] assms(2) [of "y # ys"] by (auto split: if_splits)
qed simp

lemma canonical_edge:
  assumes "ok_edge x c" and "ok_edge x c'" and "content c = content c'"
    and "\<And>m m'. x < 16 \<Longrightarrow> c = Some m \<Longrightarrow> ok_node m \<Longrightarrow> ok_node m' \<Longrightarrow> content (Some m) = content (Some m') \<Longrightarrow> erase m = erase m'"
  shows "map_option erase c = map_option erase c'"
proof -
  have ne: "\<exists>k. content c k \<noteq> None" if "ok_edge x c" "c \<noteq> None" for c
    using that content_nonempty by (cases rule: ok_edge_cases) auto
  show ?thesis
  proof (cases "c = None \<or> c' = None")
    case True
    then have "c = None \<and> c' = None" using ne [OF assms(1)] ne [OF assms(2)] assms(3) by (metis content_None)
    then show ?thesis by simp
  next
    case False
    from assms(1) show ?thesis
    proof (cases rule: ok_edge_cases)
      case (val b)
      then obtain b' where "c' = Some (ValueNode False (Some b'))" using assms(2) False by (auto elim: ok_edge_cases)
      then show ?thesis using val fun_cong [OF assms(3), of "[]"] by simp
    next
      case (child m)
      then obtain m' where "c' = Some m'" "ok_node m'" using assms(2) False by (auto elim: ok_edge_cases)
      then show ?thesis using assms(3,4) child by simp
    qed (use False in simp)
  qed
qed

lemma canonical_ext:
  assumes a: "key \<noteq> []" "nibbles key" "ok_node (FullNode h' e v cs)" and b: "ok_node b"
    and eq: "content (Some (ShortNode h key (Some (FullNode h' e v cs)))) = content (Some b)"
  shows "\<exists>g h1 e1 v1 cs1. b = ShortNode g key (Some (FullNode h1 e1 v1 cs1)) \<and> ok_node (FullNode h1 e1 v1 cs1) \<and>
    content (Some (FullNode h' e v cs)) = content (Some (FullNode h1 e1 v1 cs1))"
proof (cases b)
  case (ShortNode g key' c)
  with b have "ok_node (ShortNode g key' c)" by simp
  then show ?thesis
  proof (cases rule: ok_Short_cases)
    case (leaf b')
    then have "content (Some (ShortNode h key (Some (FullNode h' e v cs)))) k = (if k = key' then Some b' else None)" for k
      using eq ShortNode by (simp add: content_leaf)
    moreover have "ok_node (ShortNode h key (Some (FullNode h' e v cs)))" using a by simp
    ultimately show ?thesis using canonical_leaf by blast
  next
    case (ext h1 e1 v1 cs1)
    have k: "key = key'" using ext_ext_key [OF a(3) ext(4)] eq ShortNode ext(3) by simp
    have "content (Some (FullNode h' e v cs)) k = content (Some (FullNode h1 e1 v1 cs1)) k" for k
      using fun_cong [OF eq, of "key @ k"] ShortNode ext(3) k by simp
    then show ?thesis using ShortNode ext k by blast
  qed
next
  case (FullNode g e1 v1 cs1)
  with b obtain x xs y ys where A: "x \<noteq> y" "content (Some b) (x # xs) \<noteq> None" "content (Some b) (y # ys) \<noteq> None"
    using full_two_heads by metis
  obtain z zs where "key = z # zs" using a(1) by (cases key) auto
  then show ?thesis using A content_Short_prefix eq by (metis length_Cons list.inject take_Suc_Cons)
qed (use b in simp)

lemma canonical_full:
  assumes a: "ok_node (FullNode h e v cs)" and b: "ok_node b" and eq: "content (Some (FullNode h e v cs)) = content (Some b)"
  shows "\<exists>h1 e1 v1 cs1. b = FullNode h1 e1 v1 cs1"
proof (cases b)
  case (ShortNode g key c)
  obtain x xs y ys where A: "x \<noteq> y" "content (Some b) (x # xs) \<noteq> None" "content (Some b) (y # ys) \<noteq> None"
    using full_two_heads [OF a] eq by metis
  have "key \<noteq> []" using b ShortNode valid_key_not_Nil by auto
  then obtain z zs where "key = z # zs" by (cases key) auto
  then show ?thesis using A ShortNode content_Short_prefix by (metis length_Cons list.inject take_Suc_Cons)
qed (use b in auto)

lemma nth_full_edge:
  assumes "length cs = 16" and "i < 16"
  shows "full_edge v cs (of_nat i) = cs ! i" and "(of_nat i :: byte) < 16"
proof -
  have u: "unat (of_nat i :: byte) = i" using assms by (simp add: unat_of_nat)
  then show l: "(of_nat i :: byte) < 16" using assms by (simp add: unat_nibble)
  then show "full_edge v cs (of_nat i) = cs ! i" using unat_less_nibble [OF l assms(1)] u by simp
qed

lemma canonical:
  assumes "ok_node a" and "ok_node b" and "content (Some a) = content (Some b)"
  shows "erase a = erase b"
  using assms
proof (induction arbitrary: b rule: ok_node_induct)
  case (leaf h key v)
  then obtain h' where "b = ShortNode h' key (Some (ValueNode False (Some v)))"
    using canonical_leaf [of b key v] by (auto simp: content_leaf simp flip: leaf.prems(2))
  then show ?case by simp
next
  case (ext h key h' e v cs)
  from canonical_ext [OF ext.hyps ext.prems] ext.IH show ?case by force
next
  case (full h e v cs)
  obtain h1 e1 v1 cs1 where b: "b = FullNode h1 e1 v1 cs1" using canonical_full [OF full.hyps full.prems] by blast
  note a = ok_Full_edge [OF full.hyps] and b' = ok_Full_edge [OF full.prems(1) [unfolded b]]
  have c: "content (full_edge v cs x) = content (full_edge v1 cs1 x)" for x
  proof
    fix k
    show "content (full_edge v cs x) k = content (full_edge v1 cs1 x) k"
      using fun_cong [OF full.prems(2), of "x # k"] b by simp
  qed
  have e: "map_option erase (full_edge v cs x) = map_option erase (full_edge v1 cs1 x)" for x
    by (rule canonical_edge [OF a(2) b'(2) c]) (erule (4) full.IH)
  have "map_option erase v = map_option erase v1" using e [of 16] by (simp add: full_edge_def)
  moreover have "map (map_option erase) cs = map (map_option erase) cs1"
    using a(1) b'(1) e nth_full_edge(1) by (intro nth_equalityI) (simp, metis length_map nth_map)
  ultimately show ?case using b by simp
qed

text \<open>The keys of a trie are those of byte strings.\<close>

lemma valid_key_keybytesE:
  assumes "valid_key s" and "length s = 2 * l + 1"
  obtains k where "s = keybytesToHex k" and "length k = l"
proof -
  have s: "s = take (2 * l) s @ drop (2 * l) s" by simp
  have "length (drop (2 * l) s) = 1" using assms(2) by simp
  then obtain x where x: "drop (2 * l) s = [x]" by (metis One_nat_def length_0_conv length_Suc_conv)
  have n: "nibbles (take (2 * l) s)" and v: "valid_key (drop (2 * l) s)" using valid_key_drop [OF assms(1), of "2 * l"] assms(2) by simp_all
  have "length (take (2 * l) s) = 2 * l" using assms(2) by simp
  from decodeNibbles_pairs [OF this n] obtain r where "keybytesToHex r = take (2 * l) s @ [16]" by blast
  then have "s = keybytesToHex r" using s x v by simp
  then show thesis using that [of r] assms(2) by simp
qed

lemma content_keybytes:
  assumes "ok_opt root" and "uniform (2 * l + 1) root" and "content root s \<noteq> None"
  obtains k where "s = keybytesToHex k"
proof -
  obtain n where "root = Some n" using assms(3) by (cases root) auto
  then have "valid_key s" using assms(1,3) content_valid_key [of n s] by simp
  moreover have "length s = 2 * l + 1" using assms(2,3) unfolding uniform_def by blast
  ultimately show thesis using that by (metis valid_key_keybytesE)
qed

lemma itxn_map_content:
  assumes "itxn_inv l t1" and "itxn_inv l t2" and "itxn_map t1 = itxn_map t2"
  shows "content (itx_root t1) = content (itx_root t2)"
proof
  fix s
  have key: "\<exists>k. s = keybytesToHex k" if "itxn_inv l t" "content (itx_root t) s \<noteq> None" for t
    using that content_keybytes [of "itx_root t" l s] unfolding itxn_inv_def by blast
  show "content (itx_root t1) s = content (itx_root t2) s"
  proof (cases "\<exists>k. s = keybytesToHex k")
    case True
    then obtain k where "s = keybytesToHex k" by blast
    then show ?thesis using fun_cong [OF assms(3), of k] by (simp add: itxn_map_def)
  next
    case False
    then show ?thesis using key [OF assms(1)] key [OF assms(2)] by metis
  qed
qed

lemma canonical_opt:
  assumes "ok_opt a" and "ok_opt b" and "content a = content b"
  shows "map_option erase a = map_option erase b"
proof (cases "a = None \<or> b = None")
  case True
  have "c = None" if "ok_opt c" "content c = content None" for c
    using that by (cases c) (auto dest: content_nonempty)
  with True assms show ?thesis by metis
next
  case False
  then obtain m n where "a = Some m" "b = Some n" by auto
  then show ?thesis using assms canonical [of m n] by simp
qed

text \<open>
  The trie does not depend on its history: two sequences of insertions and deletions of keys of one length that leave
  the same map leave the same tree of keys and values, whatever their order and whatever was inserted and
  deleted in between.
\<close>

lemma trie_history_independent:
  assumes "\<forall>op \<in> set ops1. length (kv_key op) = l" and "\<forall>op \<in> set ops2. length (kv_key op) = l"
    and "fold kv_map ops1 (\<lambda>k. None) = fold kv_map ops2 (\<lambda>k. None)"
  shows "\<exists>t1 t2. kv_run Itxn_step ops1 (Trie_Txn NewTrie) = Ret t1 \<and> kv_run Itxn_step ops2 (Trie_Txn NewTrie) = Ret t2 \<and>
    map_option erase (itx_root t1) = map_option erase (itx_root t2)"
proof -
  from trie.run [OF empty_txn(1) assms(1)] obtain t1 where t1: "kv_run Itxn_step ops1 (Trie_Txn NewTrie) = Ret t1" "itxn_inv l t1"
    "itxn_map t1 = fold kv_map ops1 (\<lambda>k. None)" unfolding empty_txn(2) by blast
  from trie.run [OF empty_txn(1) assms(2)] obtain t2 where t2: "kv_run Itxn_step ops2 (Trie_Txn NewTrie) = Ret t2" "itxn_inv l t2"
    "itxn_map t2 = fold kv_map ops2 (\<lambda>k. None)" unfolding empty_txn(2) by blast
  have "content (itx_root t1) = content (itx_root t2)" using itxn_map_content [OF t1(2) t2(2)] t1(3) t2(3) assms(3) by simp
  then have "map_option erase (itx_root t1) = map_option erase (itx_root t2)"
    using canonical_opt t1(2) t2(2) by (simp add: itxn_inv_def)
  with t1(1) t2(1) show ?thesis by blast
qed

end
