(* ===== verification/Itrie_Hash.thy ===== *)
theory Itrie_Hash
  imports Itrie_Canonical Txn
begin

text \<open>
  The hash of a trie (\<open>immutable-trie/hasher.go\<close>). The pools of hashers and arenas only reuse memory and are not
  modelled; the arena of a value does not matter. The result of hashing a node is its RLP value (the node
  itself when its encoding is short, otherwise the hash), the node with the new cached
  hashes and the entries put into the batch, in order.
\<close>

section \<open>Definitions\<close>

type_synonym puts = "(bytes \<times> bytes) list"

definition hasher_Hash :: "ext \<Rightarrow> bytes \<Rightarrow> bytes go" where
  "hasher_Hash X data = (let d = x_keccak256 X data in if length d \<noteq> 32 then Panic else Ret d)"

text \<open>The end of \<open>hash\<close>, common to short and full nodes: \<open>Len\<close> and all that follows.\<close>

definition hash_end :: "ext \<Rightarrow> rlp \<Rightarrow> node \<Rightarrow> puts \<Rightarrow> (rlp \<times> node \<times> puts) go" where
  "hash_end X val node puts =
     (if x_rlp_len X val < 32 then Ret (val, node, puts)
      else
        let buf = x_rlp_marshal X val in
        bnd (hasher_Hash X buf) (\<lambda>tmp. bnd (SetHash tmp node) (\<lambda>node. Ret (RlpBytes tmp, node, puts @ [(tmp, buf)]))))"

fun hash_node :: "ext \<Rightarrow> node \<Rightarrow> (rlp \<times> node \<times> puts) go"
  and hash_edges :: "ext \<Rightarrow> node option list \<Rightarrow> (rlp list \<times> node option list \<times> puts) go"
where
  "hash_node X (ValueNode h buf) = Ret (RlpBytes (slice_bytes buf), ValueNode h buf, [])"
| "hash_node X (ShortNode h key child) =
     (if h \<noteq> [] then Ret (RlpBytes h, ShortNode h key child, [])
      else
        (case child of
           None \<Rightarrow> Panic
         | Some c \<Rightarrow>
             bnd (hash_node X c) (\<lambda>(v, c, puts).
             bnd (hexToCompact key) (\<lambda>k.
             hash_end X (RlpArray [RlpBytes k, v]) (ShortNode h key (Some c)) puts))))"
| "hash_node X (FullNode h e value children) =
     (if h \<noteq> [] then Ret (RlpBytes h, FullNode h e value children, [])
      else
        bnd (hash_edges X children) (\<lambda>(vs, children, puts).
        bnd (hash_edges X [value]) (\<lambda>(v, value, puts').
        hash_end X (RlpArray (vs @ v)) (FullNode h e (value ! 0) children) (puts @ puts'))))"
| "hash_edges X [] = Ret ([], [], [])"
| "hash_edges X (None # cs) = bnd (hash_edges X cs) (\<lambda>(vs, cs, puts). Ret (RlpNull # vs, None # cs, puts))"
| "hash_edges X (Some c # cs) =
     bnd (hash_node X c) (\<lambda>(v, c, puts).
     bnd (hash_edges X cs) (\<lambda>(vs, cs, puts'). Ret (v # vs, Some c # cs, puts @ puts')))"

text \<open>\<open>Txn.Hash\<close>; the entries reach the batch when there is one.\<close>

definition Itxn_Hash :: "ext \<Rightarrow> itxn \<Rightarrow> (bytes \<times> itxn \<times> puts) go" where
  "Itxn_Hash X t =
     (case itx_root t of
        None \<Rightarrow> Ret (Hash_Bytes EmptyStateHash, t, [])
      | Some root \<Rightarrow>
          bnd (hash_node X root) (\<lambda>(val, root, puts).
          let t = t\<lparr>itx_root := Some root\<rparr>;
              (hash, puts) =
                (case val of
                   RlpBytes raw \<Rightarrow>
                     if x_rlp_len X val \<noteq> 32 then
                       (let hash = x_keccak256 X raw in (hash, puts @ [(hash, raw)]))
                     else (list_put (replicate 32 0) 0 (take 32 raw), puts)
                 | _ \<Rightarrow>
                     (let tmp = x_rlp_marshal X val; hash = x_keccak256 X tmp in (hash, puts @ [(hash, tmp)])))
          in Ret (hash, t, if itx_batch t then puts else [])))"

definition EmptyRootHash :: hash where
  "EmptyRootHash = StringToHash ''0x56e81f171bcc55a6ff8345e692c0f86e5b48e01b996cadc001622fb5e363b421''"

text \<open>\<open>Trie.Hash\<close> reads the cached hash of the root; the rest of the trie is not hashed.\<close>

definition Trie_Hash :: "trie \<Rightarrow> hash" where
  "Trie_Hash t = (case tri_root t of None \<Rightarrow> EmptyRootHash | Some root \<Rightarrow> BytesToHash (fst (node_Hash root)))"

section \<open>The reference encoding\<close>

text \<open>
  The encoding of a node without regard to caches: the array of a short or full node, and the reference by which
  a parent contains it, the array itself if it is short and its hash otherwise.
\<close>

definition compact :: "bytes \<Rightarrow> bytes" where
  "compact key = (case hexToCompact key of Ret c \<Rightarrow> c | _ \<Rightarrow> [])"

definition node_ref :: "ext \<Rightarrow> rlp \<Rightarrow> rlp" where
  "node_ref X val = (if x_rlp_len X val < 32 then val else RlpBytes (x_keccak256 X (x_rlp_marshal X val)))"

fun ref_node :: "ext \<Rightarrow> node \<Rightarrow> rlp" where
  "ref_node X (ValueNode h buf) = RlpBytes (slice_bytes buf)"
| "ref_node X (ShortNode h key child) =
     node_ref X (RlpArray [RlpBytes (compact key), case child of None \<Rightarrow> RlpNull | Some c \<Rightarrow> ref_node X c])"
| "ref_node X (FullNode h e value children) =
     node_ref X (RlpArray (map (\<lambda>c. case c of None \<Rightarrow> RlpNull | Some c \<Rightarrow> ref_node X c) children @
       [case value of None \<Rightarrow> RlpNull | Some c \<Rightarrow> ref_node X c]))"

definition edge_ref :: "ext \<Rightarrow> node option \<Rightarrow> rlp" where
  "edge_ref X c = (case c of None \<Rightarrow> RlpNull | Some c \<Rightarrow> ref_node X c)"

fun node_rlp :: "ext \<Rightarrow> node \<Rightarrow> rlp" where
  "node_rlp X (ShortNode h key child) = RlpArray [RlpBytes (compact key), edge_ref X child]"
| "node_rlp X (FullNode h e value children) = RlpArray (map (edge_ref X) children @ [edge_ref X value])"
| "node_rlp X (ValueNode h buf) = RlpBytes (slice_bytes buf)"

lemma edge_ref_simps [simp]: "edge_ref X None = RlpNull" "edge_ref X (Some n) = ref_node X n"
  by (simp_all add: edge_ref_def)

lemma ref_node_rlp [simp]:
  "ref_node X (ShortNode h key child) = node_ref X (node_rlp X (ShortNode h key child))"
  "ref_node X (FullNode h e value children) = node_ref X (node_rlp X (FullNode h e value children))"
  by (simp_all add: edge_ref_def [abs_def])

declare ref_node.simps(2,3) [simp del] node_rlp.simps(1,2) [simp del]

lemma ref_node_erase [simp]: "ref_node X (erase n) = ref_node X n"
proof (induction n rule: erase.induct)
  case (2 h k c)
  then show ?case by (cases c) (simp_all add: ref_node.simps del: ref_node_rlp)
next
  case (3 h e v cs)
  have m: "map (\<lambda>c. case c of None \<Rightarrow> RlpNull | Some c \<Rightarrow> ref_node X c) (map (map_option erase) cs) =
      map (\<lambda>c. case c of None \<Rightarrow> RlpNull | Some c \<Rightarrow> ref_node X c) cs"
    using 3(2) by (auto split: option.split)
  have v: "(case map_option erase v of None \<Rightarrow> RlpNull | Some c \<Rightarrow> ref_node X c) = (case v of None \<Rightarrow> RlpNull | Some c \<Rightarrow> ref_node X c)"
    using 3(1) by (cases v) auto
  show ?case by (simp only: erase.simps ref_node.simps m v)
qed simp

lemma edge_ref_erase: "map_option erase c = map_option erase d \<Longrightarrow> edge_ref X c = edge_ref X d"
  by (cases c; cases d) (auto, metis ref_node_erase)

lemma node_rlp_erase: "erase m = erase n \<Longrightarrow> node_rlp X m = node_rlp X n"
proof -
  have "node_rlp X (erase n) = node_rlp X n" for n
    by (cases n) (auto simp: node_rlp.simps edge_ref_def split: option.split)
  then show "erase m = erase n \<Longrightarrow> node_rlp X m = node_rlp X n" by metis
qed

end
