(* ===== verification/Itrie_Hash_Props.thy ===== *)
theory Itrie_Hash_Props
  imports Itrie_Hash
begin

text \<open>
  The cached hashes of a trie are always those of its nodes, and the root hash is a function of the map.
  An open transaction relies on its epoch: a full node of its own epoch may be updated in place, which leaves the
  cached hash as it is, so such a node must not have one.
\<close>

section \<open>Laws of the third-party code\<close>

definition hash_ok :: "ext \<Rightarrow> bool" where
  "hash_ok X \<longleftrightarrow> (\<forall>d. length (x_keccak256 X d) = 32) \<and> (\<forall>b. x_rlp_len X (RlpBytes b) = of_nat (length b))"

section \<open>Stored nodes\<close>

text \<open>
  Every node of a tree that its parent contains by its hash has this hash among the keys \<open>P\<close> of a store.
\<close>

fun saved :: "ext \<Rightarrow> bytes set \<Rightarrow> node \<Rightarrow> bool" where
  "saved X P (ValueNode h b) \<longleftrightarrow> True"
| "saved X P (ShortNode h k c) \<longleftrightarrow>
     (\<forall>r. ref_node X (ShortNode h k c) = RlpBytes r \<longrightarrow> r \<in> P) \<and> (case c of None \<Rightarrow> True | Some n \<Rightarrow> saved X P n)"
| "saved X P (FullNode h e v cs) \<longleftrightarrow>
     (\<forall>r. ref_node X (FullNode h e v cs) = RlpBytes r \<longrightarrow> r \<in> P) \<and>
     (case v of None \<Rightarrow> True | Some n \<Rightarrow> saved X P n) \<and> (\<forall>c \<in> set cs. case c of None \<Rightarrow> True | Some n \<Rightarrow> saved X P n)"

definition saved_opt :: "ext \<Rightarrow> bytes set \<Rightarrow> node option \<Rightarrow> bool" where
  "saved_opt X P c \<longleftrightarrow> (case c of None \<Rightarrow> True | Some n \<Rightarrow> saved X P n)"

lemma saved_opt_simps [simp]: "saved_opt X P None" "saved_opt X P (Some n) \<longleftrightarrow> saved X P n"
  by (simp_all add: saved_opt_def)

lemma saved_Short [simp]:
  "saved X P (ShortNode h k c) \<longleftrightarrow> (\<forall>r. ref_node X (ShortNode h k c) = RlpBytes r \<longrightarrow> r \<in> P) \<and> saved_opt X P c"
  by (simp add: saved_opt_def)

lemma saved_Full [simp]:
  "saved X P (FullNode h e v cs) \<longleftrightarrow>
     (\<forall>r. ref_node X (FullNode h e v cs) = RlpBytes r \<longrightarrow> r \<in> P) \<and> saved_opt X P v \<and> (\<forall>c \<in> set cs. saved_opt X P c)"
  by (simp add: saved_opt_def)

declare saved.simps(2,3) [simp del]

lemma saved_mono: "saved X P n \<Longrightarrow> P \<subseteq> Q \<Longrightarrow> saved X Q n"
proof (induction X P n rule: saved.induct)
  case (2 X P h k c)
  then show ?case by (cases c) auto
next
  case (3 X P h e v cs)
  have "saved_opt X Q v" using 3 by (cases v) auto
  moreover have "saved_opt X Q c" if "c \<in> set cs" for c using 3 that by (cases c) auto
  ultimately show ?case using 3(3,4) by auto
qed simp

lemma saved_opt_mono: "saved_opt X P c \<Longrightarrow> P \<subseteq> Q \<Longrightarrow> saved_opt X Q c"
  by (cases c) (auto intro: saved_mono)

lemma saved_UNIV [simp]: "saved X UNIV n"
proof (induction X "UNIV :: bytes set" n rule: saved.induct)
  case (2 X h k c)
  then show ?case by (cases c) auto
next
  case (3 X h e v cs)
  have "saved_opt X UNIV v" using 3 by (cases v) auto
  moreover have "saved_opt X UNIV c" if "c \<in> set cs" for c using 3 that by (cases c) auto
  ultimately show ?case by simp
qed simp

lemma saved_erase [simp]: "saved X P (erase n) \<longleftrightarrow> saved X P n"
proof (induction X P n rule: saved.induct)
  case (2 X P h k c)
  then show ?case using ref_node_erase [of X "ShortNode h k c"] by (cases c) (simp_all del: ref_node_rlp)
next
  case (3 X P h e v cs)
  have "saved_opt X P (map_option erase v) \<longleftrightarrow> saved_opt X P v" using 3 by (cases v) auto
  moreover have "saved_opt X P (map_option erase c) \<longleftrightarrow> saved_opt X P c" if "c \<in> set cs" for c using 3 that by (cases c) auto
  ultimately show ?case using ref_node_erase [of X "FullNode h e v cs"] by (simp del: ref_node_rlp)
qed simp

lemma saved_erase_eq: "erase m = erase n \<Longrightarrow> saved X P m \<longleftrightarrow> saved X P n"
  by (metis saved_erase)

section \<open>Valid caches\<close>

text \<open>
  No stored references, no epoch above the one of the transaction, each cached hash is the reference of its
  node, and the node is stored with all below it; with \<open>opn\<close>, no full node of the epoch itself has a cached hash.
\<close>

fun good :: "ext \<Rightarrow> bytes set \<Rightarrow> u32 \<Rightarrow> bool \<Rightarrow> node \<Rightarrow> bool" where
  "good X P ep opn (ValueNode h b) \<longleftrightarrow> \<not> h"
| "good X P ep opn (ShortNode h k c) \<longleftrightarrow>
     (h \<noteq> [] \<longrightarrow> ref_node X (ShortNode h k c) = RlpBytes h \<and> saved X P (ShortNode h k c)) \<and> (case c of None \<Rightarrow> True | Some n \<Rightarrow> good X P ep opn n)"
| "good X P ep opn (FullNode h e v cs) \<longleftrightarrow>
     e \<le> ep \<and> (opn \<and> e = ep \<longrightarrow> h = []) \<and> (h \<noteq> [] \<longrightarrow> ref_node X (FullNode h e v cs) = RlpBytes h \<and> saved X P (FullNode h e v cs)) \<and>
     (case v of None \<Rightarrow> True | Some n \<Rightarrow> good X P ep opn n) \<and> (\<forall>c \<in> set cs. case c of None \<Rightarrow> True | Some n \<Rightarrow> good X P ep opn n)"

definition good_opt :: "ext \<Rightarrow> bytes set \<Rightarrow> u32 \<Rightarrow> bool \<Rightarrow> node option \<Rightarrow> bool" where
  "good_opt X P ep opn c \<longleftrightarrow> (case c of None \<Rightarrow> True | Some n \<Rightarrow> good X P ep opn n)"

lemma good_opt_simps [simp]: "good_opt X P ep opn None" "good_opt X P ep opn (Some n) \<longleftrightarrow> good X P ep opn n"
  by (simp_all add: good_opt_def)

lemma good_Short [simp]:
  "good X P ep opn (ShortNode h k c) \<longleftrightarrow> (h \<noteq> [] \<longrightarrow> ref_node X (ShortNode h k c) = RlpBytes h \<and> saved X P (ShortNode h k c)) \<and> good_opt X P ep opn c"
  by (simp add: good_opt_def)

lemma good_Full [simp]:
  "good X P ep opn (FullNode h e v cs) \<longleftrightarrow>
     e \<le> ep \<and> (opn \<and> e = ep \<longrightarrow> h = []) \<and> (h \<noteq> [] \<longrightarrow> ref_node X (FullNode h e v cs) = RlpBytes h \<and> saved X P (FullNode h e v cs)) \<and>
     good_opt X P ep opn v \<and> (\<forall>c \<in> set cs. good_opt X P ep opn c)"
  by (simp add: good_opt_def)

declare good.simps(2,3) [simp del]

lemma good_mono: "good X P ep opn n \<Longrightarrow> P \<subseteq> Q \<Longrightarrow> good X Q ep opn n"
proof (induction X P ep opn n rule: good.induct)
  case (2 X P ep opn h k c)
  then have "good_opt X Q ep opn c" by (cases c) auto
  with 2 saved_mono [OF _ 2(3), of X "ShortNode h k c"] show ?case by (auto simp del: saved_Short)
next
  case (3 X P ep opn h e v cs)
  have "good_opt X Q ep opn v" using 3 by (cases v) auto
  moreover have "good_opt X Q ep opn c" if "c \<in> set cs" for c using 3 that by (cases c) auto
  ultimately show ?case using 3(3) saved_mono [OF _ 3(4), of X "FullNode h e v cs"] by (auto simp del: saved_Full)
qed simp

lemma good_opt_mono: "good_opt X P ep opn c \<Longrightarrow> P \<subseteq> Q \<Longrightarrow> good_opt X Q ep opn c"
  by (cases c) (auto intro: good_mono)

text \<open>A closed transaction is a trie for the next epoch, and an open one is still good when it is closed.\<close>

lemma good_next:
  assumes "good X P ep False n" and "ep < ep'"
  shows "good X P ep' True n"
  using assms
proof (induction X P ep False n rule: good.induct)
  case (2 X P ep h k c)
  then show ?case by (cases c) auto
next
  case (3 X P ep h e v cs)
  have "good_opt X P ep' True v" using 3 by (cases v) auto
  moreover have "good_opt X P ep' True c" if "c \<in> set cs" for c using 3 that by (cases c) auto
  ultimately show ?case using 3(3,4) by auto
qed simp

lemma good_close: "good X P ep opn n \<Longrightarrow> good X P ep False n"
proof (induction X P ep opn n rule: good.induct)
  case (2 X P ep opn h k c)
  then show ?case by (cases c) auto
next
  case (3 X P ep opn h e v cs)
  have "good_opt X P ep False v" using 3 by (cases v) auto
  moreover have "good_opt X P ep False c" if "c \<in> set cs" for c using 3 that by (cases c) auto
  ultimately show ?case using 3(3) by auto
qed simp

section \<open>Operations keep the caches valid\<close>

lemma setEdge_good:
  assumes "good X P ep opn (FullNode [] e v cs)" and "good_opt X P ep opn c" and "setEdge x c (FullNode [] e v cs) = Ret n"
  shows "good X P ep opn n"
  using assms by (auto simp: setEdge.simps split: if_splits dest!: set_update_subset_insert [THEN subsetD])

lemma getEdge_good:
  assumes "good X P ep opn (FullNode h e v cs)" and "getEdge x (FullNode h e v cs) = Ret c"
  shows "good_opt X P ep opn c"
  using assms by (auto simp: getEdge.simps split: if_splits)

lemma set_no_children [simp]: "set no_children = {None}"
  by (simp add: no_children_def)

lemma writeNode_good:
  assumes "good X P ep True (FullNode h e v cs)"
  shows "\<exists>e'. writeNode ep (FullNode h e v cs) = FullNode [] e' v cs \<and> good X P ep True (FullNode [] e' v cs)"
  using assms by (cases "e = ep") auto

lemma insert_good_Short:
  assumes c: "good_opt X P ep True c" and i: "insert_node st ep (Suc f) (Some (ShortNode h k c)) s v = Ret r"
    and IH: "\<And>node s r. good_opt X P ep True node \<Longrightarrow> insert_node st ep f node s v = Ret r \<Longrightarrow> good_opt X P ep True r"
  shows "good_opt X P ep True r"
proof (cases "prefixLen s k = length k")
  case True
  then show ?thesis using i c IH [of c] by (auto simp: bnd_eq_Ret)
next
  case False
  let ?p = "prefixLen s k"
  obtain b r' where b: "setEdge (k ! ?p) (if ?p + 1 < length k then Some (ShortNode [] (drop (?p + 1) k) c) else c)
      (FullNode [] ep None no_children) = Ret b" and r': "insert_node st ep f (Some b) (drop ?p s) v = Ret r'"
    and r: "r = (if ?p = 0 then r' else Some (ShortNode [] (take ?p s) r'))"
    using i False by (auto simp: Let_def bnd_eq_Ret split: if_splits)
  have "good X P ep True b" using c by (intro setEdge_good [OF _ _ b]) auto
  then have "good_opt X P ep True r'" using IH [OF _ r'] by simp
  then show ?thesis using r by simp
qed

lemma insert_good_Full:
  assumes n: "good X P ep True (FullNode h e w cs)" and i: "insert_node st ep (Suc f) (Some (FullNode h e w cs)) s v = Ret r"
    and IH: "\<And>node s r. good_opt X P ep True node \<Longrightarrow> insert_node st ep f node s v = Ret r \<Longrightarrow> good_opt X P ep True r"
  shows "good_opt X P ep True r"
proof -
  obtain e' where b: "writeNode ep (FullNode h e w cs) = FullNode [] e' w cs" and g: "good X P ep True (FullNode [] e' w cs)"
    using writeNode_good [OF n] by blast
  show ?thesis
  proof (cases "s = []")
    case True
    then show ?thesis using i b g IH [of w] by (auto simp: Let_def bnd_eq_Ret simp del: writeNode.simps)
  next
    case False
    then obtain c c' n' where c: "getEdge (s ! 0) (FullNode h e w cs) = Ret c" and c': "insert_node st ep f c (drop 1 s) v = Ret c'"
      and n': "setEdge (s ! 0) c' (FullNode [] e' w cs) = Ret n'" and r: "r = Some n'"
      using i b by (auto simp: Let_def bnd_eq_Ret replaceEdge_setEdge simp del: writeNode.simps split: if_splits)
    have "good_opt X P ep True c'" using IH [OF getEdge_good [OF n c] c'] .
    then show ?thesis using setEdge_good [OF g _ n'] r by simp
  qed
qed

lemma insert_good:
  assumes "good_opt X P ep True node" and "insert_node st ep f node s v = Ret r"
  shows "good_opt X P ep True r"
  using assms
proof (induction f arbitrary: node s r)
  case (Suc f)
  show ?case
  proof (cases node)
    case None
    then show ?thesis using Suc.prems(2) Suc.IH [of None] by (auto simp: new_value_def bnd_eq_Ret split: if_splits)
  next
    case (Some n)
    show ?thesis
    proof (cases n)
      case (ValueNode h b)
      then show ?thesis
        using Suc.prems Suc.IH [of "Some (FullNode [] ep node no_children)"] Some
        by (auto simp: new_value_def split: if_splits)
    next
      case (ShortNode h k c)
      have c: "good_opt X P ep True c" using Suc.prems(1) Some ShortNode by simp
      show ?thesis using c Suc.prems(2) [unfolded Some ShortNode] by (rule insert_good_Short) (rule Suc.IH)
    next
      case (FullNode h e w cs)
      have g: "good X P ep True (FullNode h e w cs)" using Suc.prems(1) Some FullNode by simp
      show ?thesis using g Suc.prems(2) [unfolded Some FullNode] by (rule insert_good_Full) (rule Suc.IH)
    qed
  qed
qed simp

lemma setEdge_erase:
  assumes "getEdge x (FullNode h e v cs) = Ret c" and "map_option erase c' = map_option erase c"
    and "setEdge x c' (FullNode h e v cs) = Ret n"
  shows "erase n = erase (FullNode h e v cs)"
proof (cases "x = 16")
  case True
  then show ?thesis using assms by (simp add: setEdge.simps getEdge.simps) auto
next
  case False
  then have l: "unat x < length cs" and c: "c = cs ! unat x" and n: "n = FullNode h e v (cs[unat x := c'])"
    using assms(1,3) by (simp_all add: setEdge.simps getEdge.simps split: if_splits)
  have "map (map_option erase) (cs[unat x := c']) = (map (map_option erase) cs)[unat x := map_option erase (cs ! unat x)]"
    using assms(2) c by (simp add: map_update)
  also have "\<dots> = map (map_option erase) cs" by (metis l list_update_id nth_map)
  finally show ?thesis using n by simp
qed

lemma setEdge_good_same:
  assumes "good X P ep opn (FullNode h e v cs)" and "getEdge x (FullNode h e v cs) = Ret c" and "good_opt X P ep opn c'"
    and "map_option erase c' = map_option erase c" and "setEdge x c' (FullNode h e v cs) = Ret n"
  shows "good X P ep opn n"
proof -
  note er = setEdge_erase [OF assms(2,4,5)]
  have "ref_node X n = ref_node X (FullNode h e v cs)" using er by (metis ref_node_erase)
  moreover have "saved X P n = saved X P (FullNode h e v cs)" using er by (rule saved_erase_eq)
  ultimately show ?thesis
    using assms(1,3,5) by (auto simp: setEdge.simps simp del: saved_Full split: if_splits dest!: set_update_subset_insert [THEN subsetD])
qed

lemma scan_children_less: "scan_children cs k m = (Some i, b) \<Longrightarrow> m = Some i \<or> i < k + length cs"
  by (induction cs k m rule: scan_children.induct) (auto split: if_splits)

lemma shrink_good:
  assumes "good X P ep opn (FullNode h e v cs)" and "shrink_full st (FullNode h e v cs) = Ret (r, ok)"
  shows "good_opt X P ep opn r"
proof -
  obtain indx b where sc: "scan_children cs 0 None = (indx, b)" by force
  show ?thesis
  proof (cases indx)
    case None
    then show ?thesis using assms sc by (auto simp: shrink_full.simps Let_def split: if_splits)
  next
    case (Some i)
    have "i < 0 + length cs" using sc scan_children_less [of cs 0 None] Some by simp
    then have i: "i < length cs" by simp
    have "good_opt X P ep opn (cs ! i)" using assms(1) i by simp
    then show ?thesis using assms sc Some
      by (auto simp: shrink_full.simps Let_def split: if_splits option.splits node.splits bool.splits)
  qed
qed

definition cleaned :: "ext \<Rightarrow> bytes set \<Rightarrow> u32 \<Rightarrow> node option \<Rightarrow> node option \<times> bool \<times> node option \<Rightarrow> bool" where
  "cleaned X P ep node = (\<lambda>(r, ok, old).
     good_opt X P ep True r \<and> good_opt X P ep True old \<and> map_option erase old = map_option erase node)"

lemma delete_good_Short:
  assumes c: "good_opt X P ep True c" and d: "delete_node st (Suc f) (Some (ShortNode h k c)) s = Ret x"
    and IH: "\<And>node s x. good_opt X P ep True node \<Longrightarrow> delete_node st f node s = Ret x \<Longrightarrow> cleaned X P ep node x"
  shows "cleaned X P ep (Some (ShortNode h k c)) x"
proof (cases "prefixLen s k = length s \<or> prefixLen s k = 0")
  case True
  then show ?thesis using d c by (auto simp: cleaned_def Let_def split: if_splits)
next
  case False
  then obtain r' ok' c' r ok where d': "delete_node st f c (drop (prefixLen s k) s) = Ret (r', ok', c')"
    and x: "x = (r, ok, Some (ShortNode [] k c'))"
    and r: "r = (if \<not> ok' then None else case r' of None \<Rightarrow> None
        | Some (ShortNode h' key' child') \<Rightarrow> Some (ShortNode [] (concat_keys k key') child')
        | Some c \<Rightarrow> Some (ShortNode [] k (Some c)))"
    using d by (auto simp: Let_def bnd_eq_Ret split: if_splits option.splits node.splits)
  show ?thesis
    using IH [OF c d'] x r by (auto simp: cleaned_def split: option.split node.split)
qed

lemma delete_good_Full:
  assumes g: "good X P ep True (FullNode h e w cs)" and d: "delete_node st (Suc f) (Some (FullNode h e w cs)) s = Ret x"
    and IH: "\<And>node s x. good_opt X P ep True node \<Longrightarrow> delete_node st f node s = Ret x \<Longrightarrow> cleaned X P ep node x"
  shows "cleaned X P ep (Some (FullNode h e w cs)) x"
proof -
  have g0: "good X P ep True (FullNode [] 0 w cs)" using g by auto
  have ge: "getEdge x (FullNode [] 0 w cs) = getEdge x (FullNode h e w cs)" for x by (simp add: getEdge.simps)
  obtain edge r' ok' edge' nn r ok where c: "getEdge (s ! 0) (FullNode h e w cs) = Ret edge"
    and d': "delete_node st f edge (drop 1 s) = Ret (r', ok', edge')"
    and nn: "setEdge (s ! 0) edge' (FullNode h e w cs) = Ret nn" and x: "x = (r, ok, Some nn)"
    and r: "r = None \<or> (\<exists>n' b. setEdge (s ! 0) r' (FullNode [] 0 w cs) = Ret n' \<and> shrink_full st n' = Ret (r, b))"
    using d by (auto simp: Let_def bnd_eq_Ret ge split: if_splits)
  have I: "good_opt X P ep True r'" "good_opt X P ep True edge'" "map_option erase edge' = map_option erase edge"
    using IH [OF getEdge_good [OF g c] d'] by (simp_all add: cleaned_def)
  have "good_opt X P ep True r"
  proof (rule disjE [OF r])
    assume "\<exists>n' b. setEdge (s ! 0) r' (FullNode [] 0 w cs) = Ret n' \<and> shrink_full st n' = Ret (r, b)"
    then obtain n' b where n': "setEdge (s ! 0) r' (FullNode [] 0 w cs) = Ret n'" "shrink_full st n' = Ret (r, b)" by blast
    then obtain v' cs' where nf: "n' = FullNode [] 0 v' cs'" by (auto simp: setEdge.simps split: if_splits)
    have "good X P ep True n'" by (rule setEdge_good [OF g0 I(1) n'(1)])
    then show ?thesis using n'(2) unfolding nf by (rule shrink_good)
  qed simp
  then show ?thesis
    using setEdge_good_same [OF g c I(2,3) nn] setEdge_erase [OF c I(3) nn] x by (simp add: cleaned_def)
qed

lemma delete_cleaned: "good_opt X P ep True node \<Longrightarrow> delete_node st f node s = Ret x \<Longrightarrow> cleaned X P ep node x"
proof (induction f arbitrary: node s x)
  case (Suc f)
  show ?case
  proof (cases node)
    case None
    then show ?thesis using Suc.prems(2) by (auto simp: cleaned_def)
  next
    case (Some n)
    show ?thesis
    proof (cases n)
      case (ValueNode h b)
      then show ?thesis using Suc.prems Some by (auto simp: cleaned_def split: if_splits)
    next
      case (ShortNode h k c)
      have c: "good_opt X P ep True c" using Suc.prems(1) Some ShortNode by simp
      show ?thesis unfolding Some ShortNode using c Suc.prems(2) [unfolded Some ShortNode] by (rule delete_good_Short) (rule Suc.IH)
    next
      case (FullNode h e w cs)
      have g: "good X P ep True (FullNode h e w cs)" using Suc.prems(1) Some FullNode by simp
      show ?thesis unfolding Some FullNode using g Suc.prems(2) [unfolded Some FullNode] by (rule delete_good_Full) (rule Suc.IH)
    qed
  qed
qed simp

lemma delete_good:
  assumes "good_opt X P ep True node" and "delete_node st f node s = Ret (r, ok, old)"
  shows "good_opt X P ep True r \<and> good_opt X P ep True old \<and> map_option erase old = map_option erase node"
  using delete_cleaned [OF assms] by (simp add: cleaned_def)

section \<open>Hashing\<close>

lemma hasher_Hash_ok: "hash_ok X \<Longrightarrow> hasher_Hash X d = Ret (x_keccak256 X d)" "hash_ok X \<Longrightarrow> x_keccak256 X d \<noteq> []"
  by (simp_all add: hasher_Hash_def hash_ok_def Let_def) (metis length_0_conv zero_neq_numeral)

text \<open>
  What hashing a node returns: its reference, the same node with valid caches, and the entries without which a node would not be stored.
\<close>

definition hashed :: "ext \<Rightarrow> bytes set \<Rightarrow> u32 \<Rightarrow> node \<Rightarrow> bool" where
  "hashed X P ep n \<longleftrightarrow> (\<exists>n' p. hash_node X n = Ret (ref_node X n, n', p) \<and> erase n' = erase n \<and>
     good X (P \<union> fst ` set p) ep False n' \<and> saved X (P \<union> fst ` set p) n)"

lemma hash_end_ok:
  assumes "hash_ok X" and "val = node_rlp X n" and "Q = P \<union> fst ` set p"
    and "\<And>h' k c. n = ShortNode h' k c \<Longrightarrow> good_opt X Q ep False c \<and> saved_opt X Q c \<and> h' = []"
    and "\<And>h' e v cs. n = FullNode h' e v cs \<Longrightarrow> e \<le> ep \<and> h' = [] \<and> good_opt X Q ep False v \<and> saved_opt X Q v \<and>
      (\<forall>c \<in> set cs. good_opt X Q ep False c \<and> saved_opt X Q c)"
    and "\<And>h' b. n \<noteq> ValueNode h' b"
  shows "\<exists>n' p'. hash_end X val n p = Ret (node_ref X val, n', p') \<and> erase n' = erase n \<and>
    good X (P \<union> fst ` set p') ep False n' \<and> saved X (P \<union> fst ` set p') n"
proof (cases "x_rlp_len X val < 32")
  case True
  then have "saved X Q n" "good X Q ep False n" using assms by (cases n; simp add: node_ref_def node_rlp.simps)+
  then show ?thesis using True assms(3) by (auto simp: hash_end_def node_ref_def)
next
  case False
  let ?h = "x_keccak256 X (x_rlp_marshal X val)"
  define R where "R = P \<union> fst ` set (p @ [(?h, x_rlp_marshal X val)])"
  have v: "node_ref X val = RlpBytes ?h" using False by (simp add: node_ref_def)
  have "Q \<subseteq> R" and h: "?h \<in> R" using assms(3) by (auto simp: R_def)
  note up = good_opt_mono [OF _ this(1)] saved_opt_mono [OF _ this(1)]
  have s: "saved X R n" using assms(2,4-6) v up(2) h by (cases n) auto
  have "\<exists>n'. SetHash ?h n = Ret n' \<and> erase n' = erase n \<and> good X R ep False n'"
  proof (cases n)
    case (ShortNode h k c)
    then show ?thesis using assms(2,4) v up s by (simp add: node_rlp.simps)
  next
    case (FullNode h e w cs)
    then show ?thesis using assms(2,5) v up s by (simp add: node_rlp.simps)
  qed (use assms(6) in blast)
  then show ?thesis using False v s by (auto simp: hash_end_def Let_def hasher_Hash_ok(1) [OF assms(1)] R_def simp del: set_append)
qed

lemma hash_edges_ok:
  assumes "\<And>n. Some n \<in> set cs \<Longrightarrow> hashed X P ep n"
  shows "\<exists>cs' p. hash_edges X cs = Ret (map (edge_ref X) cs, cs', p) \<and> map (map_option erase) cs' = map (map_option erase) cs \<and>
    (\<forall>c \<in> set cs'. good_opt X (P \<union> fst ` set p) ep False c \<and> saved_opt X (P \<union> fst ` set p) c)"
  using assms
proof (induction cs)
  case (Cons c cs)
  then obtain cs' p where IH: "hash_edges X cs = Ret (map (edge_ref X) cs, cs', p)" "map (map_option erase) cs' = map (map_option erase) cs"
    "\<forall>c \<in> set cs'. good_opt X (P \<union> fst ` set p) ep False c \<and> saved_opt X (P \<union> fst ` set p) c" by auto
  show ?case
  proof (cases c)
    case None
    then show ?thesis using IH by auto
  next
    case (Some n)
    then obtain n' q where n': "hash_node X n = Ret (ref_node X n, n', q)" "erase n' = erase n"
      "good X (P \<union> fst ` set q) ep False n'" "saved X (P \<union> fst ` set q) n" using Cons.prems unfolding hashed_def by (metis list.set_intros(1))
    let ?R = "P \<union> fst ` set (q @ p)"
    have "good X ?R ep False n'" "saved X ?R n'"
      using good_mono [OF n'(3), of ?R] saved_mono [OF n'(4), of ?R] saved_erase_eq [OF n'(2)] by auto
    moreover have "good_opt X ?R ep False d \<and> saved_opt X ?R d" if "d \<in> set cs'" for d
      using IH(3) that good_opt_mono [of X "P \<union> fst ` set p" ep False d ?R] saved_opt_mono [of X "P \<union> fst ` set p" d ?R] by auto
    ultimately show ?thesis using IH(1,2) n'(1,2) Some by (simp del: set_append)
  qed
qed simp

lemma valid_hex_compact:
  assumes "valid_key key \<or> nibbles key"
  shows "hexToCompact key = Ret (compact key)"
proof -
  have "valid_hex key"
    using assms
  proof
    assume "valid_key key"
    then have "key = butlast key @ [16] \<and> nibbles (butlast key)" by (induction key rule: valid_key.induct) (auto split: if_splits)
    then show ?thesis unfolding valid_hex_def by blast
  qed (simp add: valid_hex_def)
  then obtain f ns where "f \<in> {0, 1}" "nibbles ns" "key = with_term f ns" by (rule valid_hex_cases)
  with hexToCompact_parts [of f ns] obtain b0 r where "hexToCompact key = Ret (b0 # r)" by blast
  then show ?thesis by (simp add: compact_def)
qed

lemma hashed_value: "hashed X P ep (ValueNode False b)"
  by (simp add: hashed_def)

lemma hash_Short:
  assumes X: "hash_ok X" and k: "valid_key key \<or> nibbles key" and c: "hashed X P ep c" and g: "good X P ep opn (ShortNode h key (Some c))"
  shows "hashed X P ep (ShortNode h key (Some c))"
proof (cases "h = []")
  case True
  obtain c' p where c': "hash_node X c = Ret (ref_node X c, c', p)" "erase c' = erase c" "good X (P \<union> fst ` set p) ep False c'"
      "saved X (P \<union> fst ` set p) c"
    using c unfolding hashed_def by blast
  have r: "ref_node X c' = ref_node X c" using c'(2) by (metis ref_node_erase)
  let ?n = "ShortNode [] key (Some c')"
  have v: "RlpArray [RlpBytes (compact key), ref_node X c] = node_rlp X ?n" using r by (simp add: node_rlp.simps)
  have "\<exists>n' p'. hash_end X (RlpArray [RlpBytes (compact key), ref_node X c]) ?n p =
      Ret (node_ref X (RlpArray [RlpBytes (compact key), ref_node X c]), n', p') \<and> erase n' = erase ?n \<and>
      good X (P \<union> fst ` set p') ep False n' \<and> saved X (P \<union> fst ` set p') ?n"
    using c'(3,4) saved_erase_eq [OF c'(2)] by (intro hash_end_ok [OF X v refl]) auto
  moreover have "saved X Q ?n \<longleftrightarrow> saved X Q (ShortNode h key (Some c))" for Q using c'(2) by (intro saved_erase_eq) simp
  ultimately show ?thesis
    using True c' v by (auto simp: hashed_def valid_hex_compact [OF k] node_rlp.simps simp del: saved_Short)
next
  case False
  then show ?thesis using g good_close [OF g] by (simp add: hashed_def)
qed

lemma hash_Full:
  assumes X: "hash_ok X" and c: "\<And>n. Some n \<in> set cs \<Longrightarrow> hashed X P ep n" and w: "\<And>n. v = Some n \<Longrightarrow> hashed X P ep n"
    and g: "good X P ep opn (FullNode h e v cs)"
  shows "hashed X P ep (FullNode h e v cs)"
proof (cases "h = []")
  case True
  obtain cs' p where cs': "hash_edges X cs = Ret (map (edge_ref X) cs, cs', p)" "map (map_option erase) cs' = map (map_option erase) cs"
    "\<forall>c \<in> set cs'. good_opt X (P \<union> fst ` set p) ep False c \<and> saved_opt X (P \<union> fst ` set p) c" using hash_edges_ok [OF c] by blast
  have "Some n \<in> set [v] \<Longrightarrow> hashed X P ep n" for n using w by simp
  from hash_edges_ok [of "[v]", OF this] obtain vs' q where vs': "hash_edges X [v] = Ret ([edge_ref X v], vs', q)"
    "map (map_option erase) vs' = [map_option erase v]"
    "\<forall>c \<in> set vs'. good_opt X (P \<union> fst ` set q) ep False c \<and> saved_opt X (P \<union> fst ` set q) c" by (auto simp del: hash_edges.simps)
  then obtain v' where v': "vs' = [v']" "map_option erase v' = map_option erase v" "good_opt X (P \<union> fst ` set q) ep False v'"
    "saved_opt X (P \<union> fst ` set q) v'" by auto
  let ?Q = "P \<union> fst ` set (p @ q)" and ?n = "FullNode [] e v' cs'"
  have sub: "P \<union> fst ` set p \<subseteq> ?Q" "P \<union> fst ` set q \<subseteq> ?Q" by auto
  have er: "erase ?n = erase (FullNode h e v cs)" using cs'(2) v'(2) by simp
  have "node_rlp X ?n = node_rlp X (FullNode h e v cs)" using er by (rule node_rlp_erase)
  then have v: "RlpArray (map (edge_ref X) cs @ [edge_ref X v]) = node_rlp X ?n" by (simp add: node_rlp.simps)
  have "good_opt X ?Q ep False v' \<and> saved_opt X ?Q v'" "\<forall>c \<in> set cs'. good_opt X ?Q ep False c \<and> saved_opt X ?Q c"
    using v'(3,4) cs'(3) good_opt_mono [OF _ sub(1)] good_opt_mono [OF _ sub(2)] saved_opt_mono [OF _ sub(1)] saved_opt_mono [OF _ sub(2)]
    by (auto simp del: set_append)
  then have "\<exists>n' p'. hash_end X (RlpArray (map (edge_ref X) cs @ [edge_ref X v])) ?n (p @ q) =
      Ret (node_ref X (RlpArray (map (edge_ref X) cs @ [edge_ref X v])), n', p') \<and> erase n' = erase ?n \<and>
      good X (P \<union> fst ` set p') ep False n' \<and> saved X (P \<union> fst ` set p') ?n"
    using g by (intro hash_end_ok [OF X v refl]) auto
  moreover have "saved X R ?n \<longleftrightarrow> saved X R (FullNode h e v cs)" for R using er by (rule saved_erase_eq)
  ultimately show ?thesis
    using True cs' vs'(1) v' by (auto simp: hashed_def node_rlp.simps simp del: hash_edges.simps saved_Full)
next
  case False
  then show ?thesis using g good_close [OF g] by (simp add: hashed_def)
qed

lemma hash_node_ok:
  assumes "ok_node n" and "hash_ok X" and "good X P ep opn n"
  shows "hashed X P ep n"
  using assms
proof (induction rule: ok_node_induct)
  case (leaf h key b)
  then show ?case by (intro hash_Short [OF leaf.prems(1)] hashed_value) auto
next
  case (ext h key h' e v cs)
  then show ?case by (intro hash_Short [OF ext.prems(1) _ ext.IH]) auto
next
  case (full h e v cs)
  note l = ok_Full_edge(1) [OF full.hyps]
  show ?case
  proof (rule hash_Full [OF full.prems(1) _ _ full.prems(2)])
    fix n assume n: "Some n \<in> set cs"
    then obtain i where i: "i < 16" "cs ! i = Some n" using l by (metis in_set_conv_nth)
    have "good X P ep opn n" using full.prems(2) n by (metis good_Full good_opt_simps(2))
    moreover have "ok_node n"
      using ok_Full_edge(2) [OF full.hyps, of "of_nat i"] nth_full_edge [OF l i(1)] i(2) by (auto simp: ok_edge_def)
    ultimately show "hashed X P ep n"
      using full.IH [of "of_nat i" n] nth_full_edge [OF l i(1)] i(2) full.prems(1) by simp
  next
    fix n assume "v = Some n"
    then show "hashed X P ep n"
      using ok_Full_edge(2) [OF full.hyps, of 16] hashed_value by (auto simp: full_edge_def elim: ok_edge_cases)
  qed
qed

section \<open>Transactions\<close>

text \<open>
  An open transaction and a trie, whose nodes with a cached hash are stored under the keys \<open>P\<close>. A transaction without a batch does
  not store its nodes. With all keys only the validity of the caches remains.
\<close>

definition hash_in :: "ext \<Rightarrow> bytes set \<Rightarrow> nat \<Rightarrow> u32 \<Rightarrow> itxn \<Rightarrow> bool" where
  "hash_in X P l ep t \<longleftrightarrow> itxn_inv l t \<and> itx_epoch t = ep \<and> good_opt X P ep True (itx_root t) \<and> (itx_batch t \<or> P = UNIV)"

definition trie_in :: "ext \<Rightarrow> bytes set \<Rightarrow> nat \<Rightarrow> trie \<Rightarrow> bool" where
  "trie_in X P l t \<longleftrightarrow> ok_opt (tri_root t) \<and> uniform (2 * l + 1) (tri_root t) \<and> good_opt X P (tri_epoch t) False (tri_root t)"

abbreviation hash_inv :: "ext \<Rightarrow> nat \<Rightarrow> u32 \<Rightarrow> itxn \<Rightarrow> bool" where
  "hash_inv X \<equiv> hash_in X UNIV"

abbreviation trie_inv :: "ext \<Rightarrow> nat \<Rightarrow> trie \<Rightarrow> bool" where
  "trie_inv X \<equiv> trie_in X UNIV"

lemma trie_in_mono: "trie_in X P l t \<Longrightarrow> P \<subseteq> Q \<Longrightarrow> trie_in X Q l t"
  by (auto simp: trie_in_def intro: good_opt_mono)

lemma hash_in_mono: "hash_in X P l ep t \<Longrightarrow> P \<subseteq> Q \<Longrightarrow> hash_in X Q l ep t"
  by (auto simp: hash_in_def intro: good_opt_mono)

definition trie_map :: "trie \<Rightarrow> bytes \<Rightarrow> bytes option" where
  "trie_map t k = content (tri_root t) (keybytesToHex k)"

lemma trie_inv_New: "trie_in X P l NewTrie" "trie_map NewTrie = (\<lambda>k. None)"
  by (simp_all add: trie_in_def NewTrie_def uniform_def trie_map_def fun_eq_iff)

lemma tri_epoch_New [simp]: "tri_epoch NewTrie = 0"
  by (simp add: NewTrie_def)

text \<open>The epoch of a trie counts its commits; it must not wrap around.\<close>

lemma u32_less_Suc:
  assumes "(e :: u32) \<noteq> - 1"
  shows "e < e + 1"
proof -
  have "unat e \<noteq> 2 ^ 32 - 1" using assms word_unat_eq_iff [of e "- 1"] by (simp add: unsigned_minus_1_eq_mask mask_eq_exp_minus_1)
  moreover have "unat e < 2 ^ 32" using unsigned_less [where 'a = nat, of e] by simp
  ultimately have "unat e + 1 < 2 ^ 32" by simp
  then show ?thesis by (simp add: word_less_nat_alt unat_word_ariths)
qed

lemma Trie_Txn_in:
  assumes "trie_in X P l t" and "tri_epoch t \<noteq> - 1" and "b \<or> P = UNIV"
  shows "hash_in X P l (tri_epoch t + 1) ((Trie_Txn t)\<lparr>itx_batch := b\<rparr>)" and "itxn_map ((Trie_Txn t)\<lparr>itx_batch := b\<rparr>) = trie_map t"
proof -
  have "tri_epoch t < tri_epoch t + 1" using assms(2) by (rule u32_less_Suc)
  then have "good_opt X P (tri_epoch t + 1) True (tri_root t)"
    using assms(1) good_next by (cases "tri_root t") (auto simp: trie_in_def)
  then show "hash_in X P l (tri_epoch t + 1) ((Trie_Txn t)\<lparr>itx_batch := b\<rparr>)" "itxn_map ((Trie_Txn t)\<lparr>itx_batch := b\<rparr>) = trie_map t"
    using assms(1,3) by (simp_all add: hash_in_def trie_in_def itxn_inv_def Trie_Txn_def itxn_map_def trie_map_def fun_eq_iff)
qed

lemma Trie_Txn_inv:
  assumes "trie_inv X l t" and "tri_epoch t \<noteq> - 1"
  shows "hash_inv X l (tri_epoch t + 1) (Trie_Txn t)" and "itxn_map (Trie_Txn t) = trie_map t"
  using Trie_Txn_in [OF assms, of False] by (simp_all add: Trie_Txn_def)

interpretation hashed_trie: kv_store Itxn_step itxn_map "hash_in X P l ep" "\<lambda>k. length k = l" for X P l ep
proof
  fix s op
  assume i: "hash_in X P l ep s" and k: "length (kv_key op) = l"
  then obtain s' where s': "Itxn_step op s = Ret s'" "itxn_inv l s'" "itxn_map s' = kv_map op (itxn_map s)"
    using trie.step by (metis hash_in_def)
  have "itx_epoch s' = ep \<and> good_opt X P ep True (itx_root s') \<and> itx_batch s' = itx_batch s"
  proof (cases op)
    case (KvInsert key v)
    then obtain r where r: "insert_node (itx_storage s) ep (key_fuel (keybytesToHex key)) (itx_root s) (keybytesToHex key) v = Ret r"
      "s' = (if r \<noteq> None then s\<lparr>itx_root := r\<rparr> else s)"
      using s'(1) i by (auto simp: Itxn_Insert_def Let_def bnd_eq_Ret hash_in_def split: if_splits)
    have "good_opt X P ep True (itx_root s)" using i by (simp add: hash_in_def)
    from insert_good [OF this r(1)] show ?thesis using i r(2) by (auto simp: hash_in_def)
  next
    case (KvDelete key)
    then obtain r ok old where d: "delete_node (itx_storage s) (key_fuel (keybytesToHex key)) (itx_root s) (keybytesToHex key) = Ret (r, ok, old)"
      "s' = s\<lparr>itx_root := if ok then r else old\<rparr>"
      using s'(1) by (auto simp: Itxn_Delete_def Let_def bnd_eq_Ret split: if_splits)
    have "good_opt X P ep True (itx_root s)" using i by (simp add: hash_in_def)
    from delete_good [OF this d(1)] show ?thesis using i d(2) by (simp add: hash_in_def)
  qed
  with s' i show "\<exists>s'. Itxn_step op s = Ret s' \<and> hash_in X P l ep s' \<and> itxn_map s' = kv_map op (itxn_map s)"
    by (simp add: hash_in_def)
qed

text \<open>The root hash that the Merkle Patricia trie of the specification has.\<close>

definition root_of :: "ext \<Rightarrow> node option \<Rightarrow> bytes" where
  "root_of X root = (case root of None \<Rightarrow> Hash_Bytes EmptyStateHash | Some n \<Rightarrow> x_keccak256 X (x_rlp_marshal X (node_rlp X n)))"

lemma root_of_erase:
  assumes "map_option erase a = map_option erase b"
  shows "root_of X a = root_of X b"
proof (cases a)
  case None
  then show ?thesis using assms by simp
next
  case (Some m)
  then obtain n where "b = Some n" "erase m = erase n" using assms by (cases b) auto
  then show ?thesis using Some node_rlp_erase [of m n X] by (simp add: root_of_def)
qed

lemma content_erase: "content_n (erase n) k = content_n n k"
proof (induction n k rule: content_n.induct)
  case (2 h key c k)
  then show ?case by (cases c) auto
next
  case (3 h e v cs k)
  show ?case
  proof (cases k)
    case (Cons x xs)
    then show ?thesis using 3 by (cases v; cases "cs ! unat x") auto
  qed simp
qed simp

lemma ok_value_erase [simp]: "ok_value (map_option erase c) \<longleftrightarrow> ok_value c"
  by (cases c rule: ok_value.cases) auto

lemma ok_value_erase_Some [simp]: "ok_value (Some (erase n)) \<longleftrightarrow> ok_value (Some n)"
  using ok_value_erase [of "Some n"] by simp

lemma is_Full_erase [simp]: "is_Full (erase n) \<longleftrightarrow> is_Full n"
  by (cases n) auto

lemma entries_erase [simp]: "entries (map_option erase v) (map (map_option erase) cs) = entries v cs"
  by (simp add: entries_def filter_map o_def)

lemma ok_node_erase: "ok_node (erase n) \<longleftrightarrow> ok_node n"
proof (induction n rule: erase.induct)
  case (2 h k c)
  then show ?case by (cases c) auto
next
  case (3 h e v cs)
  have "(case map_option erase c of None \<Rightarrow> True | Some n \<Rightarrow> ok_node n) \<longleftrightarrow> (case c of None \<Rightarrow> True | Some n \<Rightarrow> ok_node n)" if "c \<in> set cs" for c
    using 3(2) that by (cases c) auto
  then show ?case by (simp add: ok_node.simps(3))
qed simp

lemma content_eq_erase:
  assumes "map_option erase a = map_option erase b"
  shows "content a = content b"
proof -
  have "content (map_option erase c) = content c" for c
    by (cases c) (auto simp: content_def content_erase)
  with assms show ?thesis by metis
qed

text \<open>The whole tree is stored, and the root under its hash even if its encoding is short.\<close>

definition durable :: "ext \<Rightarrow> bytes set \<Rightarrow> node option \<Rightarrow> bool" where
  "durable X P root \<longleftrightarrow> saved_opt X P root \<and> (root \<noteq> None \<longrightarrow> root_of X root \<in> P)"

lemma durable_mono: "durable X P root \<Longrightarrow> P \<subseteq> Q \<Longrightarrow> durable X Q root"
  by (auto simp: durable_def intro: saved_opt_mono)

lemma Itxn_Hash_puts:
  assumes X: "hash_ok X" and r: "itx_root t = Some n" and n: "ok_node n" and h: "hash_node X n = Ret (ref_node X n, n', p)"
    and s: "saved X (P \<union> fst ` set p) n" and b: "itx_batch t \<or> P = UNIV"
  shows "\<exists>q. Itxn_Hash X t = Ret (root_of X (itx_root t), t\<lparr>itx_root := Some n'\<rparr>, q) \<and>
    P \<union> fst ` set p \<subseteq> P \<union> fst ` set q \<and> root_of X (itx_root t) \<in> P \<union> fst ` set q"
proof -
  let ?v = "node_rlp X n" and ?k = "x_keccak256 X (x_rlp_marshal X (node_rlp X n))"
  obtain vs where v: "?v = RlpArray vs" "ref_node X n = node_ref X ?v" using n by (cases n) (auto simp: node_rlp.simps)
  have k: "length ?k = 32" "x_rlp_len X (RlpBytes ?k) = 32" using X by (simp_all add: hash_ok_def)
  have root: "root_of X (itx_root t) = ?k" using r by (simp add: root_of_def)
  show ?thesis
  proof (cases "x_rlp_len X ?v < 32")
    case True
    then have "Itxn_Hash X t = Ret (?k, t\<lparr>itx_root := Some n'\<rparr>, if itx_batch t then p @ [(?k, x_rlp_marshal X ?v)] else [])"
      using r h v by (simp add: Itxn_Hash_def node_ref_def Let_def)
    then show ?thesis using b by (cases "itx_batch t") (auto simp: root image_Un simp del: insert_is_Un)
  next
    case False
    then have "Itxn_Hash X t = Ret (?k, t\<lparr>itx_root := Some n'\<rparr>, if itx_batch t then p else [])"
      using r h v(2) k by (simp add: Itxn_Hash_def node_ref_def Let_def list_put_def)
    moreover have "?k \<in> P \<union> fst ` set p" using s n False by (cases n) (auto simp: node_ref_def)
    ultimately show ?thesis using b by (auto simp: root)
  qed
qed

lemma Itxn_Hash_in:
  assumes "hash_ok X" and "hash_in X P l ep t"
  shows "\<exists>t' p. Itxn_Hash X t = Ret (root_of X (itx_root t), t', p) \<and> trie_in X (P \<union> fst ` set p) l (Itxn_Commit t') \<and>
    durable X (P \<union> fst ` set p) (itx_root t') \<and>
    itx_epoch t' = ep \<and> itx_storage t' = itx_storage t \<and> trie_map (Itxn_Commit t') = itxn_map t \<and>
    map_option erase (itx_root t') = map_option erase (itx_root t)"
proof (cases "itx_root t")
  case None
  then show ?thesis
    using assms(2)
    by (auto simp: Itxn_Hash_def root_of_def trie_in_def Itxn_Commit_def uniform_def hash_in_def trie_map_def itxn_map_def fun_eq_iff durable_def)
next
  case (Some n)
  then have n: "ok_node n" "good X P ep True n" "itx_batch t \<or> P = UNIV" using assms(2) by (simp_all add: hash_in_def itxn_inv_def)
  then obtain n' p where h: "hash_node X n = Ret (ref_node X n, n', p)" "erase n' = erase n" "good X (P \<union> fst ` set p) ep False n'"
      "saved X (P \<union> fst ` set p) n"
    using hash_node_ok [OF n(1) assms(1) n(2)] unfolding hashed_def by blast
  let ?v = "node_rlp X n" and ?t = "t\<lparr>itx_root := Some n'\<rparr>"
  obtain q where q: "Itxn_Hash X t = Ret (root_of X (itx_root t), ?t, q)" "P \<union> fst ` set p \<subseteq> P \<union> fst ` set q"
      "root_of X (itx_root t) \<in> P \<union> fst ` set q"
    using Itxn_Hash_puts [OF assms(1) Some n(1) h(1,4) n(3)] by blast
  have "ok_node n'" using n(1) h(2) ok_node_erase by metis
  moreover have c: "content (Some n') = content (Some n)" using h(2) by (intro content_eq_erase) simp
  moreover have "good X (P \<union> fst ` set q) ep False n'" "saved X (P \<union> fst ` set q) n'"
    using good_mono [OF h(3) q(2)] saved_mono [OF h(4) q(2)] saved_erase_eq [OF h(2)] by auto
  moreover have "root_of X (Some n') = root_of X (Some n)" using h(2) by (intro root_of_erase) simp
  ultimately show ?thesis
    using Some h(1,2) q(1,3) assms(2)
    by (auto simp: trie_in_def Itxn_Commit_def hash_in_def itxn_inv_def uniform_def trie_map_def itxn_map_def fun_eq_iff durable_def)
qed

lemma Itxn_Hash_ok:
  assumes "hash_ok X" and "hash_inv X l ep t"
  shows "\<exists>t' p. Itxn_Hash X t = Ret (root_of X (itx_root t), t', p) \<and> trie_inv X l (Itxn_Commit t') \<and>
    itx_epoch t' = ep \<and> itx_storage t' = itx_storage t \<and> trie_map (Itxn_Commit t') = itxn_map t \<and>
    map_option erase (itx_root t') = map_option erase (itx_root t)"
  using Itxn_Hash_in [OF assms] by simp blast

section \<open>Properties\<close>

text \<open>
  C27: The root hash identifies the map. Take two tries with valid caches and run any insertions and deletions in a
  transaction of each. If the two maps are the same afterwards, \<open>Hash\<close> returns the same root for
  both: the reference hash of the tree, whatever was cached, and committing gives tries with valid caches again.
\<close>

theorem root_hash_unique:
  assumes "hash_ok X" and "trie_inv X l t1" and "trie_inv X l t2" and "tri_epoch t1 \<noteq> - 1" and "tri_epoch t2 \<noteq> - 1"
    and "\<forall>op \<in> set ops1. length (kv_key op) = l" and "\<forall>op \<in> set ops2. length (kv_key op) = l"
    and "fold kv_map ops1 (trie_map t1) = fold kv_map ops2 (trie_map t2)"
  shows "\<exists>root u1 u2 v1 v2 p1 p2.
    kv_run Itxn_step ops1 (Trie_Txn t1) = Ret u1 \<and> Itxn_Hash X u1 = Ret (root, v1, p1) \<and> trie_inv X l (Itxn_Commit v1) \<and>
    kv_run Itxn_step ops2 (Trie_Txn t2) = Ret u2 \<and> Itxn_Hash X u2 = Ret (root, v2, p2) \<and> trie_inv X l (Itxn_Commit v2)"
proof -
  note i1 = Trie_Txn_inv [OF assms(2,4)] and i2 = Trie_Txn_inv [OF assms(3,5)]
  obtain u1 where u1: "kv_run Itxn_step ops1 (Trie_Txn t1) = Ret u1" "hash_inv X l (tri_epoch t1 + 1) u1"
      "itxn_map u1 = fold kv_map ops1 (trie_map t1)"
    using hashed_trie.run [OF i1(1) assms(6)] i1(2) by auto
  obtain u2 where u2: "kv_run Itxn_step ops2 (Trie_Txn t2) = Ret u2" "hash_inv X l (tri_epoch t2 + 1) u2"
      "itxn_map u2 = fold kv_map ops2 (trie_map t2)"
    using hashed_trie.run [OF i2(1) assms(7)] i2(2) by auto
  have inv: "itxn_inv l u1" "itxn_inv l u2" using u1(2) u2(2) by (simp_all add: hash_in_def)
  then have "content (itx_root u1) = content (itx_root u2)"
    using itxn_map_content u1(3) u2(3) assms(8) by metis
  then have "map_option erase (itx_root u1) = map_option erase (itx_root u2)"
    using canonical_opt inv by (simp add: itxn_inv_def)
  then have "root_of X (itx_root u1) = root_of X (itx_root u2)" by (rule root_of_erase)
  with Itxn_Hash_ok [OF assms(1) u1(2)] Itxn_Hash_ok [OF assms(1) u2(2)] u1(1) u2(1) show ?thesis by metis
qed

end
