(* ===== verification/Itrie_Binding.thy ===== *)
theory Itrie_Binding
  imports Account Itrie_Hash_Props
begin

text \<open>
  The root hash commits to the content of a trie: two tries with the same root hash have the same map, unless two encodings of
  their nodes collide under the hash function. Together with \<open>Itrie_Hash_Props\<close>, the root hash decides equality of maps.
\<close>

section \<open>Encodings\<close>

text \<open>The encodings of the nodes of a tree, each of which is hashed when it is long enough or at the root.\<close>

fun node_encs :: "ext \<Rightarrow> node \<Rightarrow> bytes list" where
  "node_encs X (ValueNode h buf) = []"
| "node_encs X (ShortNode h key child) =
     x_rlp_marshal X (node_rlp X (ShortNode h key child)) # (case child of None \<Rightarrow> [] | Some c \<Rightarrow> node_encs X c)"
| "node_encs X (FullNode h e value children) =
     x_rlp_marshal X (node_rlp X (FullNode h e value children)) # concat (map (\<lambda>c. case c of None \<Rightarrow> [] | Some c \<Rightarrow> node_encs X c) children)"

definition encodings :: "ext \<Rightarrow> trie \<Rightarrow> bytes list" where
  "encodings X t = (case tri_root t of None \<Rightarrow> [] | Some n \<Rightarrow> node_encs X n)"

text \<open>No collision among the encodings.\<close>

definition apart :: "ext \<Rightarrow> bytes list \<Rightarrow> bytes list \<Rightarrow> bool" where
  "apart X as bs \<longleftrightarrow> (\<forall>a \<in> set as. \<forall>b \<in> set bs. x_keccak256 X a = x_keccak256 X b \<longrightarrow> a = b)"

lemma apart_mono: "apart X as bs \<Longrightarrow> set as' \<subseteq> set as \<Longrightarrow> set bs' \<subseteq> set bs \<Longrightarrow> apart X as' bs'"
  unfolding apart_def by blast

lemma enc_in: "ok_node n \<Longrightarrow> x_rlp_marshal X (node_rlp X n) \<in> set (node_encs X n)"
  by (cases n) simp_all

lemma node_rlp_array: "ok_node n \<Longrightarrow> \<exists>vs. node_rlp X n = RlpArray vs \<and> ref_node X n = node_ref X (RlpArray vs)"
  by (cases n) (simp_all add: node_rlp.simps)

text \<open>Equal references come from equal encodings.\<close>

lemma ref_flat:
  assumes "rlp_ok X" and "ok_node m" and "ok_node n" and "apart X (node_encs X m) (node_encs X n)"
    and "rlp_flat (ref_node X m) = rlp_flat (ref_node X n)"
  shows "rlp_flat (node_rlp X m) = rlp_flat (node_rlp X n)"
proof -
  obtain vs ws where v: "node_rlp X m = RlpArray vs" "ref_node X m = node_ref X (RlpArray vs)"
    "node_rlp X n = RlpArray ws" "ref_node X n = node_ref X (RlpArray ws)"
    using node_rlp_array [OF assms(2)] node_rlp_array [OF assms(3)] by metis
  have "rlp_flat (RlpArray vs) = rlp_flat (RlpArray ws)" if "x_rlp_marshal X (RlpArray vs) = x_rlp_marshal X (RlpArray ws)"
    using that assms(1) unfolding rlp_ok_def by (metis option.inject)
  then show ?thesis
    using v assms(4,5) enc_in [OF assms(2), of X] enc_in [OF assms(3), of X]
    by (auto simp: node_ref_def apart_def split: if_splits)
qed

lemma ref_not_null: "hash_ok X \<Longrightarrow> ok_node n \<Longrightarrow> rlp_flat (ref_node X n) \<noteq> RlpBytes []"
  using node_rlp_array [of n X] hasher_Hash_ok(2) by (auto simp: node_ref_def split: if_splits)

section \<open>Values\<close>

text \<open>An empty value cannot be told from no value; the program stores none.\<close>

definition proper :: "node option \<Rightarrow> bool" where
  "proper c \<longleftrightarrow> (\<forall>k. content c k \<noteq> Some [])"

lemma proper_simps [simp]:
  "proper None" "proper (Some (ValueNode h (Some b))) \<longleftrightarrow> b \<noteq> []"
  by (auto simp: proper_def)

lemma proper_Short: "proper (Some (ShortNode h key c)) \<Longrightarrow> proper c"
  unfolding proper_def by (metis content_Short_append)

lemma proper_Full: "proper (Some (FullNode h e v cs)) \<Longrightarrow> proper (full_edge v cs x)"
  unfolding proper_def by (metis content_Full(2))

section \<open>Binding\<close>

lemma valid_key_hex: "valid_key key \<Longrightarrow> \<exists>ns. key = ns @ [16] \<and> nibbles ns"
  by (induction key rule: valid_key.induct) (auto split: if_splits intro: exI [of _ "_ # _"])

lemma compact_inj:
  assumes "valid_key k \<or> nibbles k" and "valid_key k' \<or> nibbles k'" and "compact k = compact k'"
  shows "k = k'"
proof -
  have "\<exists>c. hexToCompact k = Ret c \<and> compactToHex c = Ret k" if "valid_key k \<or> nibbles k" for k
    using that valid_key_hex by (intro hexToCompact_decodes) (auto simp: valid_hex_def)
  from this [OF assms(1)] this [OF assms(2)] assms(3) show ?thesis by (auto simp: compact_def)
qed

lemma key_kinds: "valid_key k \<Longrightarrow> nibbles k \<Longrightarrow> False"
  using valid_key_hex by fastforce

text \<open>The induction: trees with the same encoding are the same up to their caches.\<close>

definition bound :: "ext \<Rightarrow> node \<Rightarrow> node \<Rightarrow> bool" where
  "bound X m n \<longleftrightarrow> (ok_node n \<and> proper (Some m) \<and> proper (Some n) \<and> apart X (node_encs X m) (node_encs X n) \<and>
     rlp_flat (node_rlp X m) = rlp_flat (node_rlp X n) \<longrightarrow> erase m = erase n)"

text \<open>Short and full nodes have arrays of different length.\<close>

lemma node_width: "ok_node n \<Longrightarrow> \<exists>vs. rlp_flat (node_rlp X n) = RlpArray vs \<and> length vs = (if is_Full n then 17 else 2)"
  by (cases n) (auto simp: node_rlp.simps ok_Full_edge(1))

lemma same_kind: "ok_node m \<Longrightarrow> ok_node n \<Longrightarrow> rlp_flat (node_rlp X m) = rlp_flat (node_rlp X n) \<Longrightarrow> is_Full n \<longleftrightarrow> is_Full m"
  using node_width [of m X] node_width [of n X] by (auto split: if_splits)

lemma bound_leaf:
  assumes "valid_key key"
  shows "bound X (ShortNode h key (Some (ValueNode False (Some b)))) n"
  unfolding bound_def
proof
  let ?m = "ShortNode h key (Some (ValueNode False (Some b)))"
  assume a: "ok_node n \<and> proper (Some ?m) \<and> proper (Some n) \<and> apart X (node_encs X ?m) (node_encs X n) \<and>
    rlp_flat (node_rlp X ?m) = rlp_flat (node_rlp X n)"
  have "\<not> is_Full n" using same_kind [of ?m n X] a assms by simp
  with a obtain h' key' c where n: "n = ShortNode h' key' c" "ok_node (ShortNode h' key' c)" "compact key = compact key'"
      "RlpBytes b = rlp_flat (edge_ref X c)"
    by (cases n) (auto simp: node_rlp.simps slice_bytes_def)
  from n(2) show "erase ?m = erase n"
  proof (cases rule: ok_Short_cases)
    case (leaf b')
    then have "key = key'" using compact_inj assms n(3) by blast
    then show ?thesis using n leaf by (simp add: slice_bytes_def)
  next
    case (ext h'' e v' cs)
    then show ?thesis using compact_inj [OF _ _ n(3)] key_kinds assms by blast
  qed
qed

lemma bound_ext:
  assumes "rlp_ok X" and "nibbles key" and "ok_node m" and "\<And>n. bound X m n" and "is_Full m" and "key \<noteq> []"
  shows "bound X (ShortNode h key (Some m)) n"
  unfolding bound_def
proof
  let ?m = "ShortNode h key (Some m)"
  assume a: "ok_node n \<and> proper (Some ?m) \<and> proper (Some n) \<and> apart X (node_encs X ?m) (node_encs X n) \<and>
    rlp_flat (node_rlp X ?m) = rlp_flat (node_rlp X n)"
  have "\<not> is_Full n" using same_kind [of ?m n X] a assms by simp
  with a obtain h' key' c where n: "n = ShortNode h' key' c" "ok_node (ShortNode h' key' c)" "compact key = compact key'"
      "rlp_flat (ref_node X m) = rlp_flat (edge_ref X c)"
    by (cases n) (auto simp: node_rlp.simps simp del: ref_node_rlp)
  from n(2) show "erase ?m = erase n"
  proof (cases rule: ok_Short_cases)
    case (leaf b')
    then show ?thesis using compact_inj [OF _ _ n(3)] key_kinds assms(2) by blast
  next
    case (ext h'' e v' cs)
    let ?n = "FullNode h'' e v' cs"
    have "key = key'" using ext(2) compact_inj [OF _ _ n(3)] assms(2) by blast
    moreover have ap: "apart X (node_encs X m) (node_encs X ?n)"
      by (rule apart_mono [of X "node_encs X ?m" "node_encs X n"]) (use a n(1) ext(3) in auto)
    moreover have "rlp_flat (node_rlp X m) = rlp_flat (node_rlp X ?n)"
      using n(4) ext(3) by (intro ref_flat [OF assms(1,3) ext(4) ap]) (simp del: ref_node_rlp)
    moreover have "proper (Some m)" "proper (Some ?n)" using a n(1) ext(3) proper_Short by blast+
    ultimately have "erase m = erase ?n" using assms(4) [of ?n] ext(4) unfolding bound_def by blast
    then show ?thesis using n(1) ext(3) \<open>key = key'\<close> by simp
  qed
qed

text \<open>One edge of a full node.\<close>

lemma bound_edge:
  assumes "rlp_ok X" and "hash_ok X" and "ok_edge x c" and "ok_edge x d" and "proper c" and "proper d"
    and "\<And>m n. c = Some m \<Longrightarrow> d = Some n \<Longrightarrow> ok_node m \<Longrightarrow> ok_node n \<Longrightarrow> bound X m n \<and> apart X (node_encs X m) (node_encs X n)"
    and "rlp_flat (edge_ref X c) = rlp_flat (edge_ref X d)"
  shows "map_option erase c = map_option erase d"
  using assms(3)
proof (cases rule: ok_edge_cases)
  case none
  from assms(4) show ?thesis
    using none assms(6,8) ref_not_null [OF assms(2)] by (cases rule: ok_edge_cases) (auto simp: slice_bytes_def simp del: ref_node_rlp)
next
  case (val b)
  from assms(4) show ?thesis
    using val assms(5,8) by (cases rule: ok_edge_cases) (auto simp: slice_bytes_def)
next
  case (child m)
  from assms(4) show ?thesis
  proof (cases rule: ok_edge_cases)
    case none
    then show ?thesis using child assms(8) ref_not_null [OF assms(2)] by (auto simp del: ref_node_rlp)
  next
    case (child n)
    note b = assms(7) [OF \<open>c = Some m\<close> \<open>d = Some n\<close> \<open>ok_node m\<close> \<open>ok_node n\<close>]
    have "rlp_flat (node_rlp X m) = rlp_flat (node_rlp X n)"
      using assms(8) \<open>c = Some m\<close> child b by (intro ref_flat [OF assms(1) \<open>ok_node m\<close> child(3)]) simp_all
    then show ?thesis using b child assms(5,6) \<open>c = Some m\<close> by (simp add: bound_def)
  qed (use child in simp)
qed

lemma child_encs: "Some n \<in> set cs \<Longrightarrow> set (node_encs X n) \<subseteq> set (node_encs X (FullNode h e v cs))"
  by force

lemma bound_full:
  assumes "rlp_ok X" and "hash_ok X" and ok: "ok_node (FullNode h e v cs)"
    and IH: "\<And>x m n. x < 16 \<Longrightarrow> full_edge v cs x = Some m \<Longrightarrow> ok_node m \<Longrightarrow> bound X m n"
  shows "bound X (FullNode h e v cs) n"
  unfolding bound_def
proof
  let ?m = "FullNode h e v cs"
  assume a: "ok_node n \<and> proper (Some ?m) \<and> proper (Some n) \<and> apart X (node_encs X ?m) (node_encs X n) \<and>
    rlp_flat (node_rlp X ?m) = rlp_flat (node_rlp X n)"
  have "is_Full n" using same_kind [OF ok, of n X] a by simp
  then obtain h' e' v' cs' where n: "n = FullNode h' e' v' cs'" by (cases n) auto
  have l: "length cs = 16" "length cs' = 16" using ok a n ok_Full_edge(1) by blast+
  have flat: "map (rlp_flat \<circ> edge_ref X) cs = map (rlp_flat \<circ> edge_ref X) cs'" "rlp_flat (edge_ref X v) = rlp_flat (edge_ref X v')"
    using a l by (simp_all add: n node_rlp.simps)
  have edge: "map_option erase (full_edge v cs x) = map_option erase (full_edge v' cs' x)"
    if x: "x \<le> 16" and f: "rlp_flat (edge_ref X (full_edge v cs x)) = rlp_flat (edge_ref X (full_edge v' cs' x))" for x
  proof (rule bound_edge [OF assms(1,2) _ _ _ _ _ f])
    show "ok_edge x (full_edge v cs x)" "ok_edge x (full_edge v' cs' x)" using ok a n ok_Full_edge(2) by blast+
    show "proper (full_edge v cs x)" "proper (full_edge v' cs' x)" using a n proper_Full by blast+
    fix c d
    assume c: "full_edge v cs x = Some c" "full_edge v' cs' x = Some d" "ok_node c" "ok_node d"
    have "x \<noteq> 16" using c(1,3) ok_Full_edge(2) [OF ok, of 16] by (cases c) (auto simp: full_edge_def ok_edge_def)
    with x have x: "x < 16" by (simp add: byte_le_16)
    then have "Some c \<in> set cs" "Some d \<in> set cs'" using c(1,2) l by (auto simp: full_edge_def unat_nibble split: if_splits) (metis nth_mem)+
    then have "apart X (node_encs X c) (node_encs X d)" using a n apart_mono child_encs by metis
    with IH [OF x c(1,3)] show "bound X c d \<and> apart X (node_encs X c) (node_encs X d)" by blast
  qed
  have "map_option erase (cs ! i) = map_option erase (cs' ! i)" if "i < 16" for i
  proof -
    have "rlp_flat (edge_ref X (cs ! i)) = rlp_flat (edge_ref X (cs' ! i))" using flat(1) l that by (metis comp_apply nth_map)
    then show ?thesis using edge [of "of_nat i"] nth_full_edge [OF l(1) that] nth_full_edge [OF l(2) that] byte_le_16 by metis
  qed
  then have "map (map_option erase) cs = map (map_option erase) cs'" using l by (simp add: list_eq_iff_nth_eq)
  moreover have "map_option erase v = map_option erase v'" using edge [of 16] flat(2) by (simp add: full_edge_def)
  ultimately show "erase ?m = erase n" by (simp add: n)
qed

lemma bound_nodes: "ok_node m \<Longrightarrow> rlp_ok X \<Longrightarrow> hash_ok X \<Longrightarrow> bound X m n"
proof (induction arbitrary: n rule: ok_node_induct)
  case (leaf h key b)
  then show ?case by (intro bound_leaf)
next
  case (ext h key h' e v cs)
  then show ?case by (intro bound_ext) simp_all
next
  case (full h e v cs)
  then show ?case by (intro bound_full) blast+
qed

section \<open>The root hash\<close>

lemma root_of_binding:
  assumes "rlp_ok X" and "hash_ok X" and "ok_opt a" and "ok_opt b" and "proper a" and "proper b"
    and "apart X (case a of None \<Rightarrow> [] | Some n \<Rightarrow> node_encs X n) (case b of None \<Rightarrow> [] | Some n \<Rightarrow> node_encs X n)"
    and "\<And>n. a = Some n \<or> b = Some n \<Longrightarrow> x_keccak256 X (x_rlp_marshal X (node_rlp X n)) \<noteq> Hash_Bytes EmptyStateHash"
    and "root_of X a = root_of X b"
  shows "content a = content b"
proof (cases "a = None \<or> b = None")
  case True
  then show ?thesis using assms(8,9) by (cases a; cases b) (auto simp: root_of_def eq_commute)
next
  case False
  then obtain m n where mn: "a = Some m" "b = Some n" by auto
  have "x_rlp_marshal X (node_rlp X m) = x_rlp_marshal X (node_rlp X n)"
    using mn assms(3,4,7,9) enc_in [of m X] enc_in [of n X] by (auto simp: root_of_def apart_def)
  then have "rlp_flat (node_rlp X m) = rlp_flat (node_rlp X n)" using assms(1) unfolding rlp_ok_def by (metis option.inject)
  then have "erase m = erase n" using bound_nodes [of m X n] assms mn by (simp add: bound_def)
  then show ?thesis using mn by (intro content_eq_erase) simp
qed

lemma trie_proper: "trie_inv X l t \<Longrightarrow> \<forall>k. trie_map t k \<noteq> Some [] \<Longrightarrow> proper (tri_root t)"
  unfolding proper_def trie_in_def trie_map_def by (metis content_keybytes option.distinct(1))

lemma trie_map_content:
  assumes "trie_inv X l t1" and "trie_inv X l t2" and "trie_map t1 = trie_map t2"
  shows "content (tri_root t1) = content (tri_root t2)"
  using itxn_map_content [of l "Trie_Txn t1" "Trie_Txn t2"] assms
  by (simp add: itxn_inv_def itxn_map_def [abs_def] Trie_Txn_def trie_in_def trie_map_def [abs_def])

text \<open>The hypothesis on the hash function, for the nodes of two tries: no collisions, and none with the hash of the empty trie.\<close>

definition collision_free :: "ext \<Rightarrow> trie \<Rightarrow> trie \<Rightarrow> bool" where
  "collision_free X t1 t2 \<longleftrightarrow> apart X (encodings X t1) (encodings X t2) \<and>
     (\<forall>b \<in> set (encodings X t1) \<union> set (encodings X t2). x_keccak256 X b \<noteq> Hash_Bytes EmptyStateHash)"

text \<open>
  C28: The root hash decides whether two tries hold the same map, cached hashes or not. Take two tries with valid caches, without
  empty values and without a collision of the hash function among the encodings of their nodes. Then \<open>Hash\<close> returns the same
  root for both exactly if their maps are equal.
\<close>

theorem root_hash_binding:
  assumes "rlp_ok X" and "hash_ok X" and "trie_inv X l t1" and "trie_inv X l t2" and "tri_epoch t1 \<noteq> - 1" and "tri_epoch t2 \<noteq> - 1"
    and "\<forall>k. trie_map t1 k \<noteq> Some []" and "\<forall>k. trie_map t2 k \<noteq> Some []" and "collision_free X t1 t2"
  shows "\<exists>root1 root2 v1 v2 p1 p2. Itxn_Hash X (Trie_Txn t1) = Ret (root1, v1, p1) \<and> Itxn_Hash X (Trie_Txn t2) = Ret (root2, v2, p2) \<and>
    (root1 = root2 \<longleftrightarrow> trie_map t1 = trie_map t2)"
proof -
  note i1 = Trie_Txn_inv [OF assms(3,5)] and i2 = Trie_Txn_inv [OF assms(4,6)]
  let ?r1 = "root_of X (tri_root t1)" and ?r2 = "root_of X (tri_root t2)"
  have ok: "ok_opt (tri_root t1)" "ok_opt (tri_root t2)" using assms(3,4) by (simp_all add: trie_in_def)
  have "content (tri_root t1) = content (tri_root t2)" if "?r1 = ?r2"
    by (rule root_of_binding [OF assms(1,2) ok trie_proper [OF assms(3,7)] trie_proper [OF assms(4,8)] _ _ that])
      (use assms(9) ok enc_in in \<open>auto simp: collision_free_def encodings_def\<close>)
  moreover have "?r1 = ?r2" if "trie_map t1 = trie_map t2"
    using root_of_erase canonical_opt [OF ok] trie_map_content [OF assms(3,4) that] by blast
  ultimately have "?r1 = ?r2 \<longleftrightarrow> trie_map t1 = trie_map t2" by (auto simp: trie_map_def fun_eq_iff)
  moreover have "itx_root (Trie_Txn t) = tri_root t" for t by (simp add: Trie_Txn_def)
  ultimately show ?thesis using Itxn_Hash_ok [OF assms(2) i1(1)] Itxn_Hash_ok [OF assms(2) i2(1)] by metis
qed

end
