(* ===== verification/Example_Rlp.thy ===== *)
theory Example_Rlp
  imports Example_Trees Itrie_Binding
begin

text \<open>
  A concrete encoding of RLP values for the witnesses: a tagged format with end marks, simpler than RLP, which satisfies the
  laws \<open>rlp_ok\<close> and \<open>hash_ok\<close>.
\<close>

section \<open>Encoding\<close>

definition enc_bytes :: "bytes \<Rightarrow> bytes" where
  "enc_bytes bs = concat (map (\<lambda>b. [1, b]) bs) @ [0]"

fun enc_rlp :: "rlp \<Rightarrow> bytes" where
  "enc_rlp (RlpBytes b) = 0 # enc_bytes b"
| "enc_rlp (RlpUint n) = 0 # enc_bytes (big_Bytes (uint n))"
| "enc_rlp (RlpBigInt i) = 0 # enc_bytes (big_Bytes i)"
| "enc_rlp RlpNull = 0 # enc_bytes []"
| "enc_rlp (RlpArray vs) = 1 # concat (map (\<lambda>v. 2 # enc_rlp v) vs) @ [3]"

fun dec_bytes :: "bytes \<Rightarrow> (bytes \<times> bytes) option" where
  "dec_bytes (t # r) =
     (if t = 0 then Some ([], r)
      else case r of [] \<Rightarrow> None | b # r \<Rightarrow> (case dec_bytes r of None \<Rightarrow> None | Some (bs, r) \<Rightarrow> Some (b # bs, r)))"
| "dec_bytes [] = None"

text \<open>\<open>dec n False\<close> reads a value, \<open>dec n True\<close> the rest of an array.\<close>

primrec dec :: "nat \<Rightarrow> bool \<Rightarrow> bytes \<Rightarrow> (rlp \<times> bytes) option" where
  "dec 0 = (\<lambda>rest s. None)"
| "dec (Suc n) = (\<lambda>rest s.
     case s of
       [] \<Rightarrow> None
     | t # r \<Rightarrow>
         if rest then
           (if t = 3 then Some (RlpArray [], r)
            else
              (case dec n False r of
                 None \<Rightarrow> None
               | Some (v, r) \<Rightarrow> (case dec n True r of Some (RlpArray vs, r) \<Rightarrow> Some (RlpArray (v # vs), r) | _ \<Rightarrow> None)))
         else if t = 0 then (case dec_bytes r of None \<Rightarrow> None | Some (b, r) \<Rightarrow> Some (RlpBytes b, r))
         else dec n True r)"

lemma dec_enc_bytes [simp]: "dec_bytes (enc_bytes bs @ r) = Some (bs, r)"
  by (induction bs) (simp_all add: enc_bytes_def)

lemma enc_flat [simp]: "enc_rlp (rlp_flat v) = enc_rlp v"
  by (induction v) (auto simp: o_def cong: map_cong)

lemma dec_enc_list:
  assumes "\<And>v n r. v \<in> set vs \<Longrightarrow> length (enc_rlp v) \<le> n \<Longrightarrow> dec n False (enc_rlp v @ r) = Some (rlp_flat v, r)"
    and "length (concat (map (\<lambda>v. 2 # enc_rlp v) vs) @ [3]) \<le> n"
  shows "dec n True ((concat (map (\<lambda>v. 2 # enc_rlp v) vs) @ [3]) @ r) = Some (RlpArray (map rlp_flat vs), r)"
  using assms
proof (induction vs arbitrary: n)
  case Nil
  then show ?case by (cases n) auto
next
  case (Cons v vs)
  obtain m where n: "n = Suc m" using Cons.prems(2) by (cases n) auto
  have v: "dec m False (enc_rlp v @ r) = Some (rlp_flat v, r)" for r
    using Cons.prems(2) n by (intro Cons.prems(1)) auto
  have "dec m True ((concat (map (\<lambda>v. 2 # enc_rlp v) vs) @ [3]) @ r) = Some (RlpArray (map rlp_flat vs), r)"
    using Cons.prems n by (intro Cons.IH) auto
  then show ?case using n v by simp
qed

lemma dec_enc: "length (enc_rlp v) \<le> n \<Longrightarrow> dec n False (enc_rlp v @ r) = Some (rlp_flat v, r)"
proof (induction v arbitrary: n r)
  case (RlpArray vs)
  obtain m where n: "n = Suc m" using RlpArray.prems by (cases n) auto
  have "dec m True ((concat (map (\<lambda>v. 2 # enc_rlp v) vs) @ [3]) @ r) = Some (RlpArray (map rlp_flat vs), r)"
    using RlpArray n by (intro dec_enc_list) auto
  then show ?case using n by simp
qed (case_tac n; simp)+

section \<open>The library\<close>

definition parse1 :: "bytes \<Rightarrow> rlp option" where
  "parse1 b = (case dec (length b) False b of Some (v, []) \<Rightarrow> Some v | _ \<Rightarrow> None)"

definition ext1 :: ext where
  "ext1 = ext0\<lparr>x_rlp_marshal := enc_rlp, x_rlp_parse := parse1,
     x_rlp_len := (\<lambda>v. case v of RlpBytes b \<Rightarrow> of_nat (length b) | _ \<Rightarrow> of_nat (length (enc_rlp v))),
     x_rlp_GetElems := (\<lambda>v. case v of RlpArray vs \<Rightarrow> Some vs | _ \<Rightarrow> None),
     x_rlp_GetBytes := (\<lambda>v. case v of RlpBytes b \<Rightarrow> Some b | _ \<Rightarrow> None),
     x_rlp_GetHash := (\<lambda>v. case v of RlpBytes b \<Rightarrow> if length b = 32 then Some (BytesToHash b) else None | _ \<Rightarrow> None),
     x_rlp_GetUint64 := (\<lambda>v. case v of RlpBytes b \<Rightarrow> if length b \<le> 8 then Some (of_nat (be_nat b)) else None | _ \<Rightarrow> None),
     x_rlp_GetBigInt := (\<lambda>v. case v of RlpBytes b \<Rightarrow> Some (big_SetBytes b) | _ \<Rightarrow> None)\<rparr>"

lemma rlp_ok_1 [simp]: "rlp_ok ext1"
  using dec_enc [of _ _ "[]"] by (simp add: rlp_ok_def ext1_def parse1_def)

lemma hash_ok_1 [simp]: "hash_ok ext1"
  by (simp add: hash_ok_def ext1_def ext0_def)

section \<open>Witnesses\<close>

theorem account_roundtrip_witness:
  "Account_UnmarshalRlp ext1 (x_rlp_marshal ext1 (Account_MarshalWith \<lparr>acc_Nonce = 3, acc_Balance = 1000, acc_Root = 7, acc_CodeHash = [1, 2]\<rparr>)) =
     Some \<lparr>acc_Nonce = 3, acc_Balance = 1000, acc_Root = 7, acc_CodeHash = [1, 2]\<rparr>"
  by (rule account_roundtrip) simp_all

theorem root_hash_unique_witness:
  "\<exists>root u1 u2 v1 v2 p1 p2.
    kv_run Itxn_step [KvInsert [1, 2] [7], KvInsert [1, 3] [8]] (Trie_Txn NewTrie) = Ret u1 \<and> Itxn_Hash ext1 u1 = Ret (root, v1, p1) \<and>
    trie_inv ext1 2 (Itxn_Commit v1) \<and>
    kv_run Itxn_step [KvInsert [1, 3] [8], KvInsert [5, 5] [9], KvInsert [1, 2] [7], KvDelete [5, 5]] (Trie_Txn NewTrie) = Ret u2 \<and>
    Itxn_Hash ext1 u2 = Ret (root, v2, p2) \<and> trie_inv ext1 2 (Itxn_Commit v2)"
  by (rule root_hash_unique [OF hash_ok_1 trie_inv_New(1) trie_inv_New(1)]) (simp_all add: trie_inv_New fun_eq_iff)

text \<open>Tries with one key.\<close>

definition one_leaf :: "bytes \<Rightarrow> bytes \<Rightarrow> trie" where
  "one_leaf k v = \<lparr>tri_root = Some (ShortNode [] (keybytesToHex k) (Some (ValueNode False (Some v)))), tri_epoch = 0, tri_storage = None\<rparr>"

lemma one_leaf_map: "trie_map (one_leaf k v) = [k \<mapsto> v]"
proof
  fix q
  have "take (length (keybytesToHex k)) (keybytesToHex q) = keybytesToHex k \<and> drop (length (keybytesToHex k)) (keybytesToHex q) = [] \<longleftrightarrow> q = k"
    by (metis append_Nil2 append_take_drop_id drop_all keybytesToHex_inj order_refl take_all)
  then show "trie_map (one_leaf k v) q = [k \<mapsto> v] q" by (auto simp: trie_map_def one_leaf_def content_Short)
qed

lemma one_leaf_inv: "trie_inv X (length k) (one_leaf k v)"
proof -
  have "uniform (2 * length k + 1) (tri_root (one_leaf k v))"
    by (auto simp: uniform_def one_leaf_def content_Short split: if_splits)
  then show ?thesis by (simp add: trie_in_def one_leaf_def)
qed

lemma Hash_Bytes_EmptyStateHash:
  "Hash_Bytes EmptyStateHash =
    [0x56, 0xe8, 0x1f, 0x17, 0x1b, 0xcc, 0x55, 0xa6, 0xff, 0x83, 0x45, 0xe6, 0x92, 0xc0, 0xf8, 0x6e,
     0x5b, 0x48, 0xe0, 0x1b, 0x99, 0x6c, 0xad, 0xc0, 0x01, 0x62, 0x2f, 0xb5, 0xe3, 0x63, 0xb4, 0x21]" (is "_ = ?h")
proof -
  have "stringToBytes ''0x56e81f171bcc55a6ff8345e692c0f86e5b48e01b996cadc001622fb5e363b421'' = ?h" by code_simp
  then show ?thesis by (simp only: EmptyStateHash_def StringToHash_def) (simp add: Hash_Bytes_BytesToHash right_align_short)
qed

lemma one_leaf_encodings: "encodings ext1 (one_leaf [1] [b]) = [[1, 2, 0, 1, 0x20, 1, 1, 0, 2, 0, 1, b, 0, 3]]"
proof -
  have "compact [0, 1, 16] = [0x20, 1]" by code_simp
  then show ?thesis
    by (simp add: encodings_def one_leaf_def node_rlp.simps ext1_def enc_bytes_def slice_bytes_def)
qed

lemma one_leaf_apart: "collision_free ext1 (one_leaf [1] [7]) (one_leaf [1] [8])"
proof -
  have "be_nat (x_keccak256 ext1 bs) = Suc (be_nat bs)" if "length bs = 14" for bs
    using that be_nat_less [of bs] by (simp add: ext1_def ext0_def be_nat_be_bytes)
  from this [of "[1, 2, 0, 1, 0x20, 1, 1, 0, 2, 0, 1, 7, 0, 3]"] this [of "[1, 2, 0, 1, 0x20, 1, 1, 0, 2, 0, 1, 8, 0, 3]"]
    arg_cong [OF Hash_Bytes_EmptyStateHash, of be_nat]
  show ?thesis
    by (auto simp: collision_free_def apart_def one_leaf_encodings be_nat_Cons simp del: be_nat_Hash_Bytes dest: arg_cong [where f = be_nat])
qed

theorem root_hash_binding_witness:
  "\<exists>root1 root2 v1 v2 p1 p2. Itxn_Hash ext1 (Trie_Txn (one_leaf [1] [7])) = Ret (root1, v1, p1) \<and>
    Itxn_Hash ext1 (Trie_Txn (one_leaf [1] [8])) = Ret (root2, v2, p2) \<and> root1 \<noteq> root2"
proof -
  have "trie_inv ext1 1 (one_leaf [1] [7])" "trie_inv ext1 1 (one_leaf [1] [8])" using one_leaf_inv [of ext1 "[1]"] by simp_all
  moreover have "tri_epoch (one_leaf k v) \<noteq> - 1" for k v by (simp add: one_leaf_def)
  moreover have "trie_map (one_leaf [1] [7]) \<noteq> trie_map (one_leaf [1] [8])" by (simp add: one_leaf_map fun_eq_iff)
  moreover have "\<forall>k. trie_map (one_leaf [1] [7]) k \<noteq> Some []" "\<forall>k. trie_map (one_leaf [1] [8]) k \<noteq> Some []"
    by (simp_all add: one_leaf_map)
  ultimately show ?thesis using root_hash_binding [OF rlp_ok_1 hash_ok_1 _ _ _ _ _ _ one_leaf_apart] by metis
qed

end
