(* ===== verification/Itrie_State.thy ===== *)
theory Itrie_State
  imports Account Itrie_Hash_Props
begin

text \<open>
  The archive of states (\<open>immutable-trie/state_archive.go\<close>) over a storage (\<open>immutable-trie/storage.go\<close>), with the
  storage in memory as one implementation: snapshots of the world that answer \<open>GetAccount\<close>, \<open>GetStorage\<close> and \<open>GetCode\<close>, and
  \<open>Commit\<close>, which writes the objects of a transition into the tries of the accounts and of their storage.

  The state is an explicit argument. A trie of the state has the state as its storage; here it gets
  the current one when it is used. Nodes that a lookup, a deletion or a hash
  updates in place may be shared with older tries, where the updates only concern caches; an older trie keeps its
  value here.
\<close>

section \<open>Storage\<close>

text \<open>
  The interfaces \<open>Storage\<close> and \<open>Batch\<close> as a record of functions on the state \<open>'d\<close> of a storage and \<open>'b\<close> of a batch. Reading
  may panic; \<open>Close\<close> returns an error or nil.
\<close>

record ('d, 'b) storage_impl =
  sg_Put :: "bytes \<Rightarrow> bytes \<Rightarrow> 'd \<Rightarrow> 'd"
  sg_Get :: "bytes \<Rightarrow> 'd \<Rightarrow> (bytes \<times> bool) go"
  sg_Batch :: 'b
  sg_BatchPut :: "bytes \<Rightarrow> bytes \<Rightarrow> 'b \<Rightarrow> 'd \<Rightarrow> 'b \<times> 'd"
  sg_BatchWrite :: "'b \<Rightarrow> 'd \<Rightarrow> 'd"
  sg_SetCode :: "hash \<Rightarrow> bytes \<Rightarrow> 'd \<Rightarrow> 'd"
  sg_GetCode :: "hash \<Rightarrow> 'd \<Rightarrow> (bytes \<times> bool) go"
  sg_Close :: "'d \<Rightarrow> string option"

section \<open>Storage in memory\<close>

record memStorage =
  ms_db :: "string \<Rightarrow> bytes option"
  ms_code :: "string \<Rightarrow> bytes option"

definition NewMemoryStorage :: memStorage where
  "NewMemoryStorage = \<lparr>ms_db = (\<lambda>_. None), ms_code = (\<lambda>_. None)\<rparr>"

definition memStorage_Put :: "bytes \<Rightarrow> bytes \<Rightarrow> memStorage \<Rightarrow> memStorage" where
  "memStorage_Put p v m = m\<lparr>ms_db := (ms_db m)(EncodeToHex p := Some v)\<rparr>"

definition memStorage_Get :: "bytes \<Rightarrow> memStorage \<Rightarrow> bytes \<times> bool" where
  "memStorage_Get p m = (case ms_db m (EncodeToHex p) of None \<Rightarrow> ([], False) | Some v \<Rightarrow> (v, True))"

definition memStorage_SetCode :: "hash \<Rightarrow> bytes \<Rightarrow> memStorage \<Rightarrow> memStorage" where
  "memStorage_SetCode h code m = m\<lparr>ms_code := (ms_code m)(Hash_String h := Some code)\<rparr>"

definition memStorage_GetCode :: "hash \<Rightarrow> memStorage \<Rightarrow> bytes \<times> bool" where
  "memStorage_GetCode h m = (case ms_code m (Hash_String h) of None \<Rightarrow> ([], False) | Some c \<Rightarrow> (c, True))"

text \<open>A batch points to the same map: its \<open>Put\<close> writes at once, and \<open>Write\<close> does nothing.\<close>

definition memBatch_Put :: "bytes \<Rightarrow> bytes \<Rightarrow> memStorage \<Rightarrow> memStorage" where
  "memBatch_Put p v m = m\<lparr>ms_db := (ms_db m)(EncodeToHex p := Some v)\<rparr>"

definition memBatch_Write :: "memStorage \<Rightarrow> memStorage" where
  "memBatch_Write m = m"

definition memStorage_Close :: "memStorage \<Rightarrow> string option" where
  "memStorage_Close m = None"

text \<open>A batch only has the pointer to the map of its storage, which is an argument of its operations.\<close>

definition memStorage_Batch :: unit where
  "memStorage_Batch = ()"

definition memory :: "(memStorage, unit) storage_impl" where
  "memory =
     \<lparr>sg_Put = memStorage_Put, sg_Get = (\<lambda>k m. Ret (memStorage_Get k m)), sg_Batch = memStorage_Batch,
      sg_BatchPut = (\<lambda>k v b m. (b, memBatch_Put k v m)), sg_BatchWrite = (\<lambda>b m. memBatch_Write m),
      sg_SetCode = memStorage_SetCode, sg_GetCode = (\<lambda>h m. Ret (memStorage_GetCode h m)), sg_Close = memStorage_Close\<rparr>"

section \<open>State\<close>

text \<open>The cache is \<open>golang-lru\<close>, third-party code: a record of functions.\<close>

record 'c lru =
  lru_New :: "nat \<Rightarrow> 'c"
  lru_Get :: "hash \<Rightarrow> 'c \<Rightarrow> trie option \<times> 'c"
  lru_Add :: "hash \<Rightarrow> trie \<Rightarrow> 'c \<Rightarrow> 'c"

record ('d, 'c) State =
  st_storage :: 'd
  st_cache :: 'c

datatype state_error = StateDecode decode_error | StateNotFound | StateAccount

definition NewArchiveState :: "'c lru \<Rightarrow> 'd \<Rightarrow> ('d, 'c) State" where
  "NewArchiveState L storage = \<lparr>st_storage = storage, st_cache = lru_New L 128\<rparr>"

definition State_SetCode :: "('d, 'b) storage_impl \<Rightarrow> hash \<Rightarrow> bytes \<Rightarrow> ('d, 'c) State \<Rightarrow> ('d, 'c) State" where
  "State_SetCode G h code s = s\<lparr>st_storage := sg_SetCode G h code (st_storage s)\<rparr>"

definition State_GetCode :: "('d, 'b) storage_impl \<Rightarrow> hash \<Rightarrow> ('d, 'c) State \<Rightarrow> (bytes \<times> bool) go" where
  "State_GetCode G h s = sg_GetCode G h (st_storage s)"

definition State_GetNode :: "ext \<Rightarrow> ('d, 'b) storage_impl \<Rightarrow> ('d, 'c) State \<Rightarrow> bytes \<Rightarrow> (decode_error + node option) go" where
  "State_GetNode X G s root =
     bnd (sg_Get G root (st_storage s)) (\<lambda>(data, ok).
     if \<not> ok then Ret (Inr None)
     else bnd (DecodeNode X data) (\<lambda>r. case r of Inl err \<Rightarrow> Ret (Inl err) | Inr node \<Rightarrow> Ret (Inr (Some node))))"

definition AddState :: "'c lru \<Rightarrow> hash \<Rightarrow> trie \<Rightarrow> ('d, 'c) State \<Rightarrow> ('d, 'c) State" where
  "AddState L root t s = s\<lparr>st_cache := lru_Add L root t (st_cache s)\<rparr>"

text \<open>A snapshot is its trie; the trie reads the nodes of the state.\<close>

definition with_state :: "ext \<Rightarrow> ('d, 'b) storage_impl \<Rightarrow> ('d, 'c) State \<Rightarrow> trie \<Rightarrow> trie" where
  "with_state X G s t = t\<lparr>tri_storage := Some (State_GetNode X G s)\<rparr>"

definition NewSnapshot :: "ext \<Rightarrow> ('d, 'b) storage_impl \<Rightarrow> ('d, 'c) State \<Rightarrow> trie" where
  "NewSnapshot X G s = with_state X G s NewTrie"

definition NewSnapshotAt :: "ext \<Rightarrow> ('d, 'b) storage_impl \<Rightarrow> 'c lru \<Rightarrow> hash \<Rightarrow> ('d, 'c) State \<Rightarrow> ((state_error + trie) \<times> ('d, 'c) State) go" where
  "NewSnapshotAt X G L root s =
     (if root = EmptyRootHash then Ret (Inr (NewSnapshot X G s), s)
      else
        let (tt, cache) = lru_Get L root (st_cache s); s = s\<lparr>st_cache := cache\<rparr> in
        case tt of
          Some t \<Rightarrow> Ret (Inr (with_state X G s t), s)
        | None \<Rightarrow>
            bnd (State_GetNode X G s (Hash_Bytes root)) (\<lambda>r.
            case r of
              Inl err \<Rightarrow> Ret (Inl (StateDecode err), s)
            | Inr None \<Rightarrow> Ret (Inl StateNotFound, s)
            | Inr (Some n) \<Rightarrow> Ret (Inr (with_state X G s \<lparr>tri_root = Some n, tri_epoch = 0, tri_storage = None\<rparr>), s)))"

section \<open>Reading a snapshot\<close>

definition Snapshot_GetStorage :: "ext \<Rightarrow> ('d, 'b) storage_impl \<Rightarrow> 'c lru \<Rightarrow> hash \<Rightarrow> hash \<Rightarrow> ('d, 'c) State \<Rightarrow> (hash \<times> ('d, 'c) State) go" where
  "Snapshot_GetStorage X G L root raw s =
     bnd (if root = EmptyRootHash then Ret (NewSnapshot X G s, s)
          else
            bnd (NewSnapshotAt X G L root s) (\<lambda>(r, s).
            case r of Inl err \<Rightarrow> Panic | Inr snap \<Rightarrow> Ret (snap, s))) (\<lambda>(snap, s).
     let key = Keccak256 X [Hash_Bytes raw] in
     bnd (Trie_Get key snap) (\<lambda>(val, snap).
     case val of
       None \<Rightarrow> Ret (0, s)
     | Some val \<Rightarrow>
         (case x_rlp_parse X val of
            None \<Rightarrow> Ret (0, s)
          | Some v \<Rightarrow> (case x_rlp_GetBytes X v of None \<Rightarrow> Ret (0, s) | Some res \<Rightarrow> Ret (BytesToHash res, s)))))"

text \<open>\<open>GetAccount\<close> returns an error, nil or an account.\<close>

definition Snapshot_GetAccount :: "ext \<Rightarrow> ('d, 'b) storage_impl \<Rightarrow> address \<Rightarrow> trie \<Rightarrow> ('d, 'c) State \<Rightarrow> (state_error + account option) go" where
  "Snapshot_GetAccount X G addr snap s =
     bnd (Trie_Get (Keccak256 X [Address_Bytes addr]) (with_state X G s snap)) (\<lambda>(data, snap).
     case data of
       None \<Rightarrow> Ret (Inr None)
     | Some data \<Rightarrow>
         (case Account_UnmarshalRlp X data of None \<Rightarrow> Ret (Inl StateAccount) | Some account \<Rightarrow> Ret (Inr (Some account))))"

definition Snapshot_GetCode :: "('d, 'b) storage_impl \<Rightarrow> hash \<Rightarrow> ('d, 'c) State \<Rightarrow> (bytes \<times> bool) go" where
  "Snapshot_GetCode G h s = State_GetCode G h s"

section \<open>Commit\<close>

definition hashit :: "ext \<Rightarrow> bytes \<Rightarrow> bytes" where
  "hashit X k = x_keccak256 X k"

text \<open>The nodes that hashing puts into the batch.\<close>

definition put_nodes :: "('d, 'b) storage_impl \<Rightarrow> puts \<Rightarrow> 'b \<Rightarrow> 'd \<Rightarrow> 'b \<times> 'd" where
  "put_nodes G puts b d = fold (\<lambda>(k, v) (b, d). sg_BatchPut G k v b d) puts (b, d)"

definition trim_zeros :: "bytes \<Rightarrow> bytes" where
  "trim_zeros b = dropWhile (\<lambda>x. x = 0) b"

text \<open>The loop over the storage of an object.\<close>

primrec commit_entries :: "ext \<Rightarrow> StorageObject list \<Rightarrow> itxn \<Rightarrow> itxn go" where
  "commit_entries X [] localTxn = Ret localTxn"
| "commit_entries X (entry # rest) localTxn =
     (let k = hashit X (sto_Key entry) in
      bnd (if sto_Deleted entry then Itxn_Delete k localTxn
           else Itxn_Insert k (x_rlp_marshal X (RlpBytes (trim_zeros (sto_Val entry)))) localTxn)
        (commit_entries X rest))"

text \<open>The part for an object with changed storage: the new root of its storage.\<close>

definition commit_root :: "ext \<Rightarrow> ('d, 'b) storage_impl \<Rightarrow> 'c lru \<Rightarrow> Object \<Rightarrow> 'b \<Rightarrow> ('d, 'c) State \<Rightarrow> (hash \<times> 'b \<times> ('d, 'c) State) go" where
  "commit_root X G L obj b s =
     bnd (NewSnapshotAt X G L (ob_Root obj) s) (\<lambda>(r, s).
     case r of
       Inl err \<Rightarrow> Panic
     | Inr localSnapshot \<Rightarrow>
         let localTxn = (Trie_Txn localSnapshot)\<lparr>itx_batch := True\<rparr> in
         bnd (commit_entries X (ob_Storage obj) localTxn) (\<lambda>localTxn.
         bnd (Itxn_Hash X localTxn) (\<lambda>(accountStateRoot, localTxn, puts).
         let (b, d) = put_nodes G puts b (st_storage s);
             accountStateTrie = Itxn_Commit localTxn
         in Ret (BytesToHash accountStateRoot, b, AddState L (BytesToHash accountStateRoot) accountStateTrie (s\<lparr>st_storage := d\<rparr>)))))"

definition commit_obj :: "ext \<Rightarrow> ('d, 'b) storage_impl \<Rightarrow> 'c lru \<Rightarrow> Object \<Rightarrow> itxn \<Rightarrow> 'b \<Rightarrow> ('d, 'c) State \<Rightarrow> (itxn \<times> 'b \<times> ('d, 'c) State) go" where
  "commit_obj X G L obj tt b s =
     (if ob_Deleted obj then bnd (Itxn_Delete (hashit X (Address_Bytes (ob_Address obj))) tt) (\<lambda>tt. Ret (tt, b, s))
      else
        bnd (if ob_Storage obj \<noteq> [] then commit_root X G L obj b s else Ret (ob_Root obj, b, s)) (\<lambda>(root, b, s).
        let account = \<lparr>acc_Nonce = ob_Nonce obj, acc_Balance = ob_Balance obj, acc_Root = root,
              acc_CodeHash = Hash_Bytes (ob_CodeHash obj)\<rparr>;
            s = (if ob_DirtyCode obj then State_SetCode G (ob_CodeHash obj) (ob_Code obj) s else s);
            data = x_rlp_marshal X (Account_MarshalWith account)
        in bnd (Itxn_Insert (hashit X (Address_Bytes (ob_Address obj))) data tt) (\<lambda>tt. Ret (tt, b, s))))"

primrec commit_objs :: "ext \<Rightarrow> ('d, 'b) storage_impl \<Rightarrow> 'c lru \<Rightarrow> Object list \<Rightarrow> itxn \<Rightarrow> 'b \<Rightarrow> ('d, 'c) State \<Rightarrow> (itxn \<times> 'b \<times> ('d, 'c) State) go" where
  "commit_objs X G L [] tt b s = Ret (tt, b, s)"
| "commit_objs X G L (obj # objs) tt b s = bnd (commit_obj X G L obj tt b s) (\<lambda>(tt, b, s). commit_objs X G L objs tt b s)"

definition Snapshot_Commit :: "ext \<Rightarrow> ('d, 'b) storage_impl \<Rightarrow> 'c lru \<Rightarrow> Object list \<Rightarrow> trie \<Rightarrow> ('d, 'c) State \<Rightarrow> (trie \<times> bytes \<times> ('d, 'c) State) go" where
  "Snapshot_Commit X G L objs snap s =
     (let tt = (Trie_Txn (with_state X G s snap))\<lparr>itx_batch := True\<rparr> in
      bnd (commit_objs X G L objs tt (sg_Batch G) s) (\<lambda>(tt, b, s).
      bnd (Itxn_Hash X tt) (\<lambda>(root, tt, puts).
      let (b, d) = put_nodes G puts b (st_storage s);
          s = s\<lparr>st_storage := sg_BatchWrite G b d\<rparr>;
          nTrie = with_state X G s (Itxn_Commit tt)
      in Ret (nTrie, root, AddState L (BytesToHash root) nTrie s))))"

end
