(* ===== verification/Itrie_State_Props.thy ===== *)
theory Itrie_State_Props
  imports Itrie_State
begin

text \<open>
  What is committed can be read: the accounts of a snapshot after \<open>Commit\<close> are those of the objects, the slots of an account
  those of its object, and all others are unchanged. The cache of tries is third-party code; what is used of
  it is that it keeps the 128 most recently used entries.
\<close>

section \<open>Laws of the cache\<close>

text \<open>\<open>view\<close> lists the entries, the most recently used first.\<close>

definition lru_ok :: "'c lru \<Rightarrow> ('c \<Rightarrow> (hash \<times> trie) list) \<Rightarrow> bool" where
  "lru_ok L view \<longleftrightarrow>
     (\<forall>n. view (lru_New L n) = []) \<and>
     (\<forall>h c. fst (lru_Get L h c) = map_of (view c) h \<and>
        view (snd (lru_Get L h c)) =
          (case map_of (view c) h of None \<Rightarrow> view c | Some t \<Rightarrow> (h, t) # filter (\<lambda>p. fst p \<noteq> h) (view c))) \<and>
     (\<forall>h t c. view (lru_Add L h t c) = take 128 ((h, t) # filter (\<lambda>p. fst p \<noteq> h) (view c)))"

section \<open>What a commit puts\<close>

text \<open>The entries that hashing puts into a batch have the hash of the value as the key.\<close>

definition addressed :: "ext \<Rightarrow> puts \<Rightarrow> bool" where
  "addressed X puts \<longleftrightarrow> (\<forall>(k, v) \<in> set puts. k = x_keccak256 X v)"

lemma addressed_simps [simp]:
  "addressed X []" "addressed X (p # ps) \<longleftrightarrow> fst p = x_keccak256 X (snd p) \<and> addressed X ps"
  "addressed X (ps @ qs) \<longleftrightarrow> addressed X ps \<and> addressed X qs"
  by (auto simp: addressed_def split: prod.split)

lemma hash_end_addressed: "hash_end X val n puts = Ret (v, n', puts') \<Longrightarrow> addressed X puts \<Longrightarrow> addressed X puts'"
  by (auto simp: hash_end_def hasher_Hash_def Let_def bnd_eq_Ret split: if_splits)

lemma hash_addressed:
  "hash_node X n = Ret (v, n', puts) \<Longrightarrow> addressed X puts"
  "hash_edges X cs = Ret (vs, cs', puts) \<Longrightarrow> addressed X puts"
  by (induction X n and X cs arbitrary: v n' puts and vs cs' puts rule: hash_node_hash_edges.induct)
    (fastforce simp: bnd_eq_Ret intro: hash_end_addressed split: if_splits option.splits)+

lemma Itxn_Hash_addressed: "Itxn_Hash X t = Ret (r, t', puts) \<Longrightarrow> addressed X puts"
  by (auto simp: Itxn_Hash_def Let_def elim!: bnd_RetE split: option.splits rlp.splits if_splits dest!: hash_addressed(1))

lemma NewSnapshotAt_storage: "NewSnapshotAt X G L root s = Ret (r, s') \<Longrightarrow> st_storage s' = st_storage s"
  by (auto simp: NewSnapshotAt_def Let_def elim!: bnd_RetE split: if_splits prod.splits option.splits sum.splits)

section \<open>Reading tries\<close>

lemma Trie_Get_map:
  assumes "ok_opt (tri_root t)"
  shows "Trie_Get k t = Ret (trie_map t k, t)"
proof -
  have "ok_opt (itx_root (Trie_Txn t))" using assms by (simp add: Trie_Txn_def)
  from Itxn_Lookup_map [OF this, of k] show ?thesis
    by (simp add: Trie_Get_def itxn_map_def trie_map_def Trie_Txn_def)
qed

lemma with_state_simps [simp]:
  "tri_root (with_state X G s t) = tri_root t" "tri_epoch (with_state X G s t) = tri_epoch t"
  "trie_in X' P l (with_state X G s t) = trie_in X' P l t" "trie_map (with_state X G s t) = trie_map t"
  by (simp_all add: with_state_def trie_in_def trie_map_def fun_eq_iff)

definition account_of :: "ext \<Rightarrow> trie \<Rightarrow> address \<Rightarrow> state_error + account option" where
  "account_of X t addr =
     (case trie_map t (hashit X (Address_Bytes addr)) of
        None \<Rightarrow> Inr None
      | Some data \<Rightarrow> (case Account_UnmarshalRlp X data of None \<Rightarrow> Inl StateAccount | Some a \<Rightarrow> Inr (Some a)))"

lemma Snapshot_GetAccount_of:
  assumes "ok_opt (tri_root snap)"
  shows "Snapshot_GetAccount X G addr snap s = Ret (account_of X snap addr)"
  using assms
  by (simp add: Snapshot_GetAccount_def Trie_Get_map Keccak256_def account_of_def hashit_def split: option.split)

text \<open>The value of a slot in the trie of a storage.\<close>

definition slot_of :: "ext \<Rightarrow> trie \<Rightarrow> hash \<Rightarrow> hash" where
  "slot_of X t key =
     (case trie_map t (hashit X (Hash_Bytes key)) of
        None \<Rightarrow> 0
      | Some val \<Rightarrow>
          (case x_rlp_parse X val of
             None \<Rightarrow> 0
           | Some v \<Rightarrow> (case x_rlp_GetBytes X v of None \<Rightarrow> 0 | Some res \<Rightarrow> BytesToHash res)))"

lemma Snapshot_GetStorage_of:
  assumes "NewSnapshotAt X G L root s = Ret (Inr t, s')" and "ok_opt (tri_root t)"
  shows "Snapshot_GetStorage X G L root key s = Ret (slot_of X t key, s')"
proof (cases "root = EmptyRootHash")
  case True
  then have "t = NewSnapshot X G s" "s' = s" using assms(1) by (auto simp: NewSnapshotAt_def)
  with True assms(2) show ?thesis
    by (simp add: Snapshot_GetStorage_def Trie_Get_map Keccak256_def slot_of_def hashit_def split: option.split)
next
  case False
  with assms show ?thesis
    by (simp add: Snapshot_GetStorage_def Trie_Get_map Keccak256_def slot_of_def hashit_def split: option.split)
qed

section \<open>Committing the storage of an object\<close>

definition entry_op :: "ext \<Rightarrow> StorageObject \<Rightarrow> kv_op" where
  "entry_op X e =
     (if sto_Deleted e then KvDelete (hashit X (sto_Key e))
      else KvInsert (hashit X (sto_Key e)) (x_rlp_marshal X (RlpBytes (trim_zeros (sto_Val e)))))"

lemma commit_entries_run: "commit_entries X es t = kv_run Itxn_step (map (entry_op X) es) t"
proof (induction es arbitrary: t)
  case (Cons e es)
  have "commit_entries X es = kv_run Itxn_step (map (entry_op X) es)" using Cons.IH by (rule ext)
  then show ?case by (simp add: entry_op_def [of X e] Let_def)
qed simp

lemma length_hashit [simp]: "hash_ok X \<Longrightarrow> length (hashit X k) = 32"
  by (simp add: hashit_def hash_ok_def)

text \<open>
  What a commit needs of the batch and the storage, with \<open>K\<close> the keys under which they have a node: putting nodes adds their
  keys, and storing code takes none away. \<open>J\<close> is an invariant.
\<close>

locale node_store =
  fixes G :: "('d, 'b) storage_impl"
    and K :: "'b \<Rightarrow> 'd \<Rightarrow> bytes set"
    and J :: "'b \<Rightarrow> 'd \<Rightarrow> bool"
  assumes keys_put: "J b d \<Longrightarrow> \<forall>(k, v) \<in> set kvs. length k = 32 \<Longrightarrow> put_nodes G kvs b d = (b', d') \<Longrightarrow>
      J b' d' \<and> K b d \<union> fst ` set kvs \<subseteq> K b' d'"
    and keys_code: "J b d \<Longrightarrow> J b (sg_SetCode G h c d) \<and> K b d \<subseteq> K b (sg_SetCode G h c d)"

text \<open>If nothing is asked of the storage, all keys count as present.\<close>

interpretation anywhere: node_store G "\<lambda>b d. UNIV" "\<lambda>b d. True" for G :: "('d, 'b) storage_impl"
  by unfold_locales simp_all

text \<open>A trie that is stored under its root hash, with all its nodes.\<close>

definition stored_trie :: "ext \<Rightarrow> bytes set \<Rightarrow> hash \<Rightarrow> trie \<Rightarrow> bool" where
  "stored_trie X P root t \<longleftrightarrow> trie_in X P 32 t \<and> durable X P (tri_root t) \<and> Hash_Bytes root = root_of X (tri_root t)"

lemma stored_trie_mono: "stored_trie X P root t \<Longrightarrow> P \<subseteq> Q \<Longrightarrow> stored_trie X Q root t"
  by (auto simp: stored_trie_def intro: trie_in_mono durable_mono)

lemma Hash_Bytes_root [simp]: "hash_ok X \<Longrightarrow> Hash_Bytes (BytesToHash (root_of X root)) = root_of X root"
  by (cases root) (simp_all add: root_of_def hash_ok_def Hash_Bytes_BytesToHash right_align_short)

lemma Itxn_Hash_keys:
  assumes "hash_ok X" and "Itxn_Hash X t = Ret (r, t', p)"
  shows "\<forall>(k, v) \<in> set p. length k = 32"
  using Itxn_Hash_addressed [OF assms(2)] assms(1) by (auto simp: hash_ok_def addressed_def)

context node_store
begin

definition kept :: "'b \<Rightarrow> 'd \<Rightarrow> 'b \<Rightarrow> 'd \<Rightarrow> bool" where
  "kept b d b' d' \<longleftrightarrow> J b' d' \<and> K b d \<subseteq> K b' d'"

lemma kept_trans: "kept b d b1 d1 \<Longrightarrow> kept b1 d1 b2 d2 \<Longrightarrow> kept b d b2 d2"
  by (auto simp: kept_def)

text \<open>Hashing a transaction and putting its nodes stores the whole trie.\<close>

lemma hash_put:
  assumes X: "hash_ok X" and J: "J b d" and u: "hash_in X (K b d) 32 ep u"
  shows "\<exists>u' p b' d'. Itxn_Hash X u = Ret (root_of X (itx_root u), u', p) \<and> put_nodes G p b d = (b', d') \<and> kept b d b' d' \<and>
    stored_trie X (K b' d') (BytesToHash (root_of X (itx_root u))) (Itxn_Commit u') \<and> tri_epoch (Itxn_Commit u') = ep \<and>
    trie_map (Itxn_Commit u') = itxn_map u"
proof -
  obtain u' p where u': "Itxn_Hash X u = Ret (root_of X (itx_root u), u', p)" "trie_in X (K b d \<union> fst ` set p) 32 (Itxn_Commit u')"
      "durable X (K b d \<union> fst ` set p) (itx_root u')" "itx_epoch u' = ep" "trie_map (Itxn_Commit u') = itxn_map u"
      "map_option erase (itx_root u') = map_option erase (itx_root u)"
    using Itxn_Hash_in [OF X u] by blast
  obtain b' d' where p: "put_nodes G p b d = (b', d')" by (cases "put_nodes G p b d")
  have k: "J b' d'" "K b d \<union> fst ` set p \<subseteq> K b' d'" using keys_put [OF J Itxn_Hash_keys [OF X u'(1)] p] by simp_all
  have "root_of X (itx_root u') = root_of X (itx_root u)" using u'(6) by (rule root_of_erase)
  then have "stored_trie X (K b' d') (BytesToHash (root_of X (itx_root u))) (Itxn_Commit u')"
    using trie_in_mono [OF u'(2) k(2)] durable_mono [OF u'(3) k(2)] X by (simp add: stored_trie_def Itxn_Commit_def)
  then show ?thesis using u'(1,4,5) p k by (auto simp: kept_def Itxn_Commit_def)
qed

lemma commit_root_trie:
  assumes X: "hash_ok X" and J: "J b (st_storage s)" and t: "NewSnapshotAt X G L (ob_Root obj) s = Ret (Inr t, s1)"
    "trie_in X (K b (st_storage s)) 32 t" "tri_epoch t \<noteq> - 1"
  shows "\<exists>root b' t' s2. commit_root X G L obj b s = Ret (root, b', AddState L root t' s2) \<and> st_cache s2 = st_cache s1 \<and>
    kept b (st_storage s) b' (st_storage s2) \<and> stored_trie X (K b' (st_storage s2)) root t' \<and>
    tri_epoch t' = tri_epoch t + 1 \<and> trie_map t' = fold kv_map (map (entry_op X) (ob_Storage obj)) (trie_map t)"
proof -
  let ?u = "(Trie_Txn t)\<lparr>itx_batch := True\<rparr>" and ?ops = "map (entry_op X) (ob_Storage obj)" and ?P = "K b (st_storage s)"
  have "hash_in X ?P 32 (tri_epoch t + 1) ?u" "itxn_map ?u = trie_map t" using Trie_Txn_in [OF t(2,3)] by simp_all
  moreover have "\<forall>op \<in> set ?ops. length (kv_key op) = 32" using X by (auto simp: entry_op_def)
  ultimately obtain u where u: "kv_run Itxn_step ?ops ?u = Ret u" "hash_in X ?P 32 (tri_epoch t + 1) u" "itxn_map u = fold kv_map ?ops (trie_map t)"
    using hashed_trie.run [of X ?P 32 "tri_epoch t + 1" ?u ?ops] by auto
  let ?r = "BytesToHash (root_of X (itx_root u))"
  obtain u' p b' d' where u': "Itxn_Hash X u = Ret (root_of X (itx_root u), u', p)" "put_nodes G p b (st_storage s) = (b', d')"
      "kept b (st_storage s) b' d'" "stored_trie X (K b' d') ?r (Itxn_Commit u')"
      "tri_epoch (Itxn_Commit u') = tri_epoch t + 1" "trie_map (Itxn_Commit u') = itxn_map u"
    using hash_put [OF X J u(2)] by blast
  let ?s2 = "s1\<lparr>st_storage := d'\<rparr>"
  have "commit_root X G L obj b s = Ret (?r, b', AddState L ?r (Itxn_Commit u') ?s2)"
    using t(1) u(1) u'(1,2) NewSnapshotAt_storage [OF t(1)] by (simp add: commit_root_def commit_entries_run Let_def)
  moreover have "st_cache ?s2 = st_cache s1" "st_storage ?s2 = d'" by simp_all
  ultimately show ?thesis using u'(3-6) u(3) by metis
qed

end

text \<open>The value of a slot after the entries of an object.\<close>

definition entry_value :: "hash \<Rightarrow> StorageObject \<Rightarrow> hash \<Rightarrow> hash" where
  "entry_value key e v =
     (if sto_Key e = Hash_Bytes key then (if sto_Deleted e then 0 else BytesToHash (sto_Val e)) else v)"

definition slot_in :: "ext \<Rightarrow> (bytes \<Rightarrow> bytes option) \<Rightarrow> hash \<Rightarrow> hash" where
  "slot_in X m key =
     (case m (hashit X (Hash_Bytes key)) of
        None \<Rightarrow> 0
      | Some val \<Rightarrow>
          (case x_rlp_parse X val of
             None \<Rightarrow> 0
           | Some v \<Rightarrow> (case x_rlp_GetBytes X v of None \<Rightarrow> 0 | Some res \<Rightarrow> BytesToHash res)))"

lemma slot_of_in: "slot_of X t = slot_in X (trie_map t)"
  by (simp add: slot_of_def slot_in_def fun_eq_iff)

lemma BytesToHash_trim [simp]: "BytesToHash (trim_zeros b) = BytesToHash b"
proof -
  have "be_nat (dropWhile (\<lambda>x. x = 0) b) = be_nat b" by (induction b) (simp_all add: be_nat_Cons)
  then show ?thesis by (simp add: BytesToHash_eq trim_zeros_def)
qed

lemma slot_in_entry:
  assumes "rlp_ok X" and "hashit X (sto_Key e) = hashit X (Hash_Bytes key) \<longrightarrow> sto_Key e = Hash_Bytes key"
  shows "slot_in X (kv_map (entry_op X e) m) key = entry_value key e (slot_in X m key)"
  using assms by (auto simp: slot_in_def entry_op_def entry_value_def rlp_ok_def)

lemma slot_in_entries:
  assumes "rlp_ok X" and "\<forall>e \<in> set es. hashit X (sto_Key e) = hashit X (Hash_Bytes key) \<longrightarrow> sto_Key e = Hash_Bytes key"
  shows "slot_in X (fold kv_map (map (entry_op X) es) m) key = fold (entry_value key) es (slot_in X m key)"
  using assms(2)
proof (induction es arbitrary: m)
  case (Cons e es)
  then have "slot_in X (fold kv_map (map (entry_op X) es) (kv_map (entry_op X e) m)) key =
      fold (entry_value key) es (slot_in X (kv_map (entry_op X e) m) key)" by simp
  with Cons.prems show ?case by (simp add: slot_in_entry [OF assms(1)])
qed simp

lemma NewSnapshotAt_added:
  assumes "lru_ok L view" and "root \<noteq> EmptyRootHash"
  shows "\<exists>s'. NewSnapshotAt X G L root (AddState L root t s) = Ret (Inr (with_state X G s' t), s')"
proof -
  have "fst (lru_Get L root (lru_Add L root t (st_cache s))) = Some t"
    using assms(1) by (simp add: lru_ok_def)
  then show ?thesis
    using assms(2) by (cases "lru_Get L root (lru_Add L root t (st_cache s))") (auto simp: NewSnapshotAt_def AddState_def Let_def)
qed

text \<open>
  C30: The storage that an object commits can be read. If its old storage is known, committing the changed slots of an object succeeds, and
  under the new root (that of a trie that is not empty) \<open>GetStorage\<close> returns for every slot the last value
  the object has for it, 0 if it was deleted, and the old value if the object does not have it.
  The slot may not collide with another key of the object under the hash.
\<close>

theorem commit_storage_readback:
  assumes "rlp_ok X" and "hash_ok X" and "lru_ok L view"
    and "NewSnapshotAt X G L (ob_Root obj) s = Ret (Inr t, s1)" and "trie_inv X 32 t" and "tri_epoch t \<noteq> - 1"
    and "\<forall>e \<in> set (ob_Storage obj). hashit X (sto_Key e) = hashit X (Hash_Bytes key) \<longrightarrow> sto_Key e = Hash_Bytes key"
  shows "\<exists>root b' s2. commit_root X G L obj b s = Ret (root, b', s2) \<and>
    (root \<noteq> EmptyRootHash \<longrightarrow>
      (\<exists>s3. Snapshot_GetStorage X G L root key s2 = Ret (fold (entry_value key) (ob_Storage obj) (slot_of X t key), s3)))"
proof -
  from anywhere.commit_root_trie [OF assms(2) TrueI assms(4-6)] obtain root b' t' s2 where
    c: "commit_root X G L obj b s = Ret (root, b', AddState L root t' s2)" "trie_inv X 32 t'"
      "trie_map t' = fold kv_map (map (entry_op X) (ob_Storage obj)) (trie_map t)" unfolding stored_trie_def by blast
  have "\<exists>s3. Snapshot_GetStorage X G L root key (AddState L root t' s2) =
      Ret (fold (entry_value key) (ob_Storage obj) (slot_of X t key), s3)" if ne: "root \<noteq> EmptyRootHash"
  proof -
    obtain s3 where n: "NewSnapshotAt X G L root (AddState L root t' s2) = Ret (Inr (with_state X G s3 t'), s3)"
      using NewSnapshotAt_added [OF assms(3) ne] by blast
    have "slot_of X (with_state X G s3 t') key = fold (entry_value key) (ob_Storage obj) (slot_of X t key)"
      using slot_in_entries [OF assms(1,7), of "trie_map t"] c(3) by (simp add: slot_of_in)
    moreover have "ok_opt (tri_root (with_state X G s3 t'))" using c(2) by (simp add: trie_in_def)
    ultimately show ?thesis using Snapshot_GetStorage_of [OF n] by auto
  qed
  with c(1) show ?thesis by blast
qed

section \<open>Committing objects\<close>

text \<open>
  The cache has room for \<open>k\<close> more tries, and its tries have valid caches, with their hashed nodes under the keys \<open>P\<close>, and epochs
  below the limit of 32 bits.
\<close>

definition cache_in :: "ext \<Rightarrow> bytes set \<Rightarrow> ('c \<Rightarrow> (hash \<times> trie) list) \<Rightarrow> nat \<Rightarrow> 'c \<Rightarrow> bool" where
  "cache_in X P view k c \<longleftrightarrow> length (view c) + k \<le> 128 \<and>
     (\<forall>h t. (h, t) \<in> set (view c) \<longrightarrow> trie_in X P 32 t \<and> unat (tri_epoch t) + k < 2 ^ 32 - 1)"

abbreviation cache_ok :: "ext \<Rightarrow> ('c \<Rightarrow> (hash \<times> trie) list) \<Rightarrow> nat \<Rightarrow> 'c \<Rightarrow> bool" where
  "cache_ok X \<equiv> cache_in X UNIV"

lemma cache_in_mono: "cache_in X P view k c \<Longrightarrow> P \<subseteq> Q \<Longrightarrow> cache_in X Q view k c"
  by (auto simp: cache_in_def intro: trie_in_mono)

definition known_root :: "('c \<Rightarrow> (hash \<times> trie) list) \<Rightarrow> hash \<Rightarrow> 'c \<Rightarrow> bool" where
  "known_root view root c \<longleftrightarrow> root = EmptyRootHash \<or> root \<in> fst ` set (view c)"

lemma cache_in_less: "cache_in X P view k c \<Longrightarrow> j \<le> k \<Longrightarrow> cache_in X P view j c"
  by (fastforce simp: cache_in_def)

lemma epoch_not_max: "unat (e :: u32) + k < 2 ^ 32 - 1 \<Longrightarrow> e \<noteq> - 1"
  by (auto simp: unsigned_minus_1_eq_mask mask_eq_exp_minus_1)

lemma NewSnapshotAt_known:
  assumes L: "lru_ok L view" and c: "cache_in X P view k (st_cache s)" and r: "known_root view root (st_cache s)" and k: "k < 2 ^ 31"
  shows "\<exists>t s1. NewSnapshotAt X G L root s = Ret (Inr t, s1) \<and> trie_in X P 32 t \<and> unat (tri_epoch t) + k < 2 ^ 32 - 1 \<and>
    cache_in X P view k (st_cache s1) \<and> (\<forall>r. known_root view r (st_cache s) \<longrightarrow> known_root view r (st_cache s1))"
proof (cases "root = EmptyRootHash")
  case True
  then show ?thesis using c k by (auto simp: NewSnapshotAt_def NewSnapshot_def trie_inv_New)
next
  case False
  let ?V = "view (st_cache s)"
  from r False obtain t where t: "map_of ?V root = Some t" "(root, t) \<in> set ?V"
    unfolding known_root_def by (metis map_of_SomeD map_of_eq_None_iff not_None_eq)
  obtain c1 where g: "lru_Get L root (st_cache s) = (Some t, c1)" "view c1 = (root, t) # filter (\<lambda>p. fst p \<noteq> root) ?V"
    using L t(1) unfolding lru_ok_def by (metis (no_types, lifting) option.simps(5) prod.collapse)
  have "length (filter (\<lambda>p. fst p \<noteq> root) ?V) < length ?V" using t(2) by (intro length_filter_less) auto
  then have "cache_in X P view k c1" using c t(2) g(2) by (auto simp: cache_in_def)
  moreover have "known_root view r c1" if "known_root view r (st_cache s)" for r
    using that g(2) by (force simp: known_root_def)
  moreover have "trie_in X P 32 t \<and> unat (tri_epoch t) + k < 2 ^ 32 - 1" using c t(2) unfolding cache_in_def by blast
  ultimately show ?thesis using False g(1) by (auto simp: NewSnapshotAt_def Let_def)
qed

lemma AddState_known:
  assumes L: "lru_ok L view" and c: "cache_in X P view (Suc k) (st_cache s)" and t: "trie_in X P 32 t" "unat (tri_epoch t) + k < 2 ^ 32 - 1"
  shows "cache_in X P view k (st_cache (AddState L root t s)) \<and>
    (\<forall>r. known_root view r (st_cache s) \<longrightarrow> known_root view r (st_cache (AddState L root t s)))"
proof -
  let ?V = "view (st_cache s)" and ?c = "st_cache (AddState L root t s)"
  have "length (filter (\<lambda>p. fst p \<noteq> root) ?V) \<le> length ?V" by simp
  then have l: "length (filter (\<lambda>p. fst p \<noteq> root) ?V) + Suc k \<le> 128" using c unfolding cache_in_def by linarith
  then have v: "view ?c = (root, t) # filter (\<lambda>p. fst p \<noteq> root) ?V" using L by (simp add: lru_ok_def AddState_def)
  have "cache_in X P view k ?c" using l v t c by (fastforce simp: cache_in_def)
  moreover have "known_root view r ?c" if "known_root view r (st_cache s)" for r using that v by (force simp: known_root_def)
  ultimately show ?thesis by blast
qed

definition obj_account :: "Object \<Rightarrow> hash \<Rightarrow> account" where
  "obj_account obj root =
     \<lparr>acc_Nonce = ob_Nonce obj, acc_Balance = ob_Balance obj, acc_Root = root, acc_CodeHash = Hash_Bytes (ob_CodeHash obj)\<rparr>"

definition obj_op :: "ext \<Rightarrow> Object \<Rightarrow> hash \<Rightarrow> kv_op" where
  "obj_op X obj root =
     (if ob_Deleted obj then KvDelete (hashit X (Address_Bytes (ob_Address obj)))
      else KvInsert (hashit X (Address_Bytes (ob_Address obj))) (x_rlp_marshal X (Account_MarshalWith (obj_account obj root))))"

text \<open>The storage of an object that is written is known.\<close>

definition obj_known :: "('c \<Rightarrow> (hash \<times> trie) list) \<Rightarrow> 'c \<Rightarrow> Object \<Rightarrow> bool" where
  "obj_known view c obj \<longleftrightarrow> ob_Deleted obj \<or> ob_Storage obj = [] \<or> known_root view (ob_Root obj) c"

text \<open>The root that an object gets: the old one if its storage is not written, otherwise that of a stored trie.\<close>

definition new_root :: "ext \<Rightarrow> bytes set \<Rightarrow> Object \<Rightarrow> hash \<Rightarrow> bool" where
  "new_root X P obj root \<longleftrightarrow> (if ob_Deleted obj \<or> ob_Storage obj = [] then root = ob_Root obj else \<exists>t. stored_trie X P root t)"

lemma new_root_mono: "new_root X P obj root \<Longrightarrow> P \<subseteq> Q \<Longrightarrow> new_root X Q obj root"
  by (auto simp: new_root_def intro: stored_trie_mono split: if_splits)

context node_store
begin

lemma commit_obj_root:
  assumes X: "hash_ok X" and L: "lru_ok L view" and J: "J b (st_storage s)"
    and c: "cache_in X (K b (st_storage s)) view (Suc k) (st_cache s)" and k: "k < 128"
    and o: "obj_known view (st_cache s) obj" and d: "\<not> ob_Deleted obj"
  shows "\<exists>root b1 s1. (if ob_Storage obj \<noteq> [] then commit_root X G L obj b s else Ret (ob_Root obj, b, s)) = Ret (root, b1, s1) \<and>
    kept b (st_storage s) b1 (st_storage s1) \<and> cache_in X (K b1 (st_storage s1)) view k (st_cache s1) \<and>
    (\<forall>r. known_root view r (st_cache s) \<longrightarrow> known_root view r (st_cache s1)) \<and> new_root X (K b1 (st_storage s1)) obj root"
proof (cases "ob_Storage obj = []")
  case True
  then show ?thesis using cache_in_less [OF c, of k] J by (auto simp: new_root_def kept_def)
next
  case ne: False
  then have r: "known_root view (ob_Root obj) (st_cache s)" using o d by (simp add: obj_known_def)
  let ?P = "K b (st_storage s)"
  from NewSnapshotAt_known [OF L c r, of G] k obtain t s1 where t: "NewSnapshotAt X G L (ob_Root obj) s = Ret (Inr t, s1)" "trie_in X ?P 32 t"
    "unat (tri_epoch t) + Suc k < 2 ^ 32 - 1" "cache_in X ?P view (Suc k) (st_cache s1)"
    "\<forall>r. known_root view r (st_cache s) \<longrightarrow> known_root view r (st_cache s1)" by auto
  from commit_root_trie [OF X J t(1,2) epoch_not_max [OF t(3)]] obtain root b' t' s2 where
    t': "commit_root X G L obj b s = Ret (root, b', AddState L root t' s2)" "st_cache s2 = st_cache s1"
      "kept b (st_storage s) b' (st_storage s2)" "stored_trie X (K b' (st_storage s2)) root t'" "tri_epoch t' = tri_epoch t + 1"
    by blast
  let ?Q = "K b' (st_storage s2)"
  have "unat (tri_epoch t') + k < 2 ^ 32 - 1"
    using t(3) unfolding t'(5) by (simp add: unat_word_ariths)
  moreover have "cache_in X ?Q view (Suc k) (st_cache s2)"
    using cache_in_mono [OF t(4), of ?Q] t'(2,3) by (simp add: kept_def)
  moreover have "trie_in X ?Q 32 t'" using t'(4) by (simp add: stored_trie_def)
  ultimately have a: "cache_in X ?Q view k (st_cache (AddState L root t' s2))"
      "\<forall>r. known_root view r (st_cache s2) \<longrightarrow> known_root view r (st_cache (AddState L root t' s2))"
    using AddState_known [OF L, of X ?Q k s2 t' root] by blast+
  have "st_storage (AddState L root t' s2) = st_storage s2" by (simp add: AddState_def)
  then show ?thesis using a t(5) t'(1-4) ne d by (auto simp: new_root_def)
qed

lemma commit_obj_step:
  assumes X: "hash_ok X" and L: "lru_ok L view" and J: "J b (st_storage s)" and i: "hash_in X (K b (st_storage s)) 32 ep tt"
    and c: "cache_in X (K b (st_storage s)) view (Suc k) (st_cache s)" and k: "k < 128" and o: "obj_known view (st_cache s) obj"
  shows "\<exists>tt' b' s' root. commit_obj X G L obj tt b s = Ret (tt', b', s') \<and> kept b (st_storage s) b' (st_storage s') \<and>
    hash_in X (K b' (st_storage s')) 32 ep tt' \<and> itxn_map tt' = kv_map (obj_op X obj root) (itxn_map tt) \<and>
    cache_in X (K b' (st_storage s')) view k (st_cache s') \<and> (\<forall>r. known_root view r (st_cache s) \<longrightarrow> known_root view r (st_cache s')) \<and>
    new_root X (K b' (st_storage s')) obj root"
proof -
  have step: "\<exists>tt'. Itxn_step (obj_op X obj root) tt = Ret tt' \<and> hash_in X (K b (st_storage s)) 32 ep tt' \<and>
      itxn_map tt' = kv_map (obj_op X obj root) (itxn_map tt)" for root
    using X by (intro hashed_trie.step [OF i]) (simp add: obj_op_def)
  show ?thesis
  proof (cases "ob_Deleted obj")
    case True
    then show ?thesis using step [of "ob_Root obj"] cache_in_less [OF c, of k] J by (auto simp: commit_obj_def obj_op_def kept_def new_root_def)
  next
    case False
    from commit_obj_root [OF X L J c k o this]
    obtain root b1 s1 where s1: "(if ob_Storage obj \<noteq> [] then commit_root X G L obj b s else Ret (ob_Root obj, b, s)) = Ret (root, b1, s1)"
      "kept b (st_storage s) b1 (st_storage s1)" "cache_in X (K b1 (st_storage s1)) view k (st_cache s1)"
      "\<forall>r. known_root view r (st_cache s) \<longrightarrow> known_root view r (st_cache s1)" "new_root X (K b1 (st_storage s1)) obj root" by blast
    let ?s = "if ob_DirtyCode obj then State_SetCode G (ob_CodeHash obj) (ob_Code obj) s1 else s1"
    have k1: "kept b1 (st_storage s1) b1 (st_storage ?s)" using s1(2) keys_code by (auto simp: kept_def State_SetCode_def)
    then have sub: "K b1 (st_storage s1) \<subseteq> K b1 (st_storage ?s)" "K b (st_storage s) \<subseteq> K b1 (st_storage ?s)"
      using s1(2) by (auto simp: kept_def)
    have "st_cache ?s = st_cache s1" by (simp add: State_SetCode_def)
    moreover obtain tt' where t: "Itxn_step (obj_op X obj root) tt = Ret tt'" "hash_in X (K b (st_storage s)) 32 ep tt'"
        "itxn_map tt' = kv_map (obj_op X obj root) (itxn_map tt)"
      using step by blast
    moreover from this(1) have "commit_obj X G L obj tt b s = Ret (tt', b1, ?s)"
      unfolding commit_obj_def s1(1) using False by (simp add: obj_op_def obj_account_def Let_def)
    ultimately show ?thesis
      using kept_trans [OF s1(2) k1] hash_in_mono [OF t(2) sub(2)] cache_in_mono [OF s1(3) sub(1)] s1(4) new_root_mono [OF s1(5) sub(1)]
      by metis
  qed
qed

lemma commit_objs_run:
  assumes X: "hash_ok X" and L: "lru_ok L view" and "J b (st_storage s)" and "hash_in X (K b (st_storage s)) 32 ep tt"
    and "cache_in X (K b (st_storage s)) view (length objs) (st_cache s)" and "\<forall>obj \<in> set objs. obj_known view (st_cache s) obj"
  shows "\<exists>tt' b' s' rs. commit_objs X G L objs tt b s = Ret (tt', b', s') \<and> kept b (st_storage s) b' (st_storage s') \<and>
    hash_in X (K b' (st_storage s')) 32 ep tt' \<and> length rs = length objs \<and>
    itxn_map tt' = fold (\<lambda>(obj, r). kv_map (obj_op X obj r)) (zip objs rs) (itxn_map tt) \<and>
    cache_in X (K b' (st_storage s')) view 0 (st_cache s') \<and> (\<forall>(obj, r) \<in> set (zip objs rs). new_root X (K b' (st_storage s')) obj r)"
  using assms(3-6)
proof (induction objs arbitrary: tt b s)
  case Nil
  then show ?case by (simp add: kept_def)
next
  case (Cons obj objs)
  have "length objs < 128" using Cons.prems(3) by (simp add: cache_in_def)
  with Cons.prems commit_obj_step [OF X L, of b s ep tt "length objs" obj] obtain t1 b1 s1 r where
    1: "commit_obj X G L obj tt b s = Ret (t1, b1, s1)" "kept b (st_storage s) b1 (st_storage s1)" "hash_in X (K b1 (st_storage s1)) 32 ep t1"
      "itxn_map t1 = kv_map (obj_op X obj r) (itxn_map tt)" "cache_in X (K b1 (st_storage s1)) view (length objs) (st_cache s1)"
      "\<forall>r. known_root view r (st_cache s) \<longrightarrow> known_root view r (st_cache s1)" "new_root X (K b1 (st_storage s1)) obj r" by auto
  have J: "J b1 (st_storage s1)" using 1(2) by (simp add: kept_def)
  have "\<forall>obj \<in> set objs. obj_known view (st_cache s1) obj" using Cons.prems(4) 1(6) by (auto simp: obj_known_def)
  from Cons.IH [OF J 1(3,5) this] obtain t2 b2 s2 rs where
    2: "commit_objs X G L objs t1 b1 s1 = Ret (t2, b2, s2)" "kept b1 (st_storage s1) b2 (st_storage s2)"
      "hash_in X (K b2 (st_storage s2)) 32 ep t2" "length rs = length objs"
      "itxn_map t2 = fold (\<lambda>(obj, r). kv_map (obj_op X obj r)) (zip objs rs) (itxn_map t1)"
      "cache_in X (K b2 (st_storage s2)) view 0 (st_cache s2)" "\<forall>(obj, r) \<in> set (zip objs rs). new_root X (K b2 (st_storage s2)) obj r" by blast
  have "new_root X (K b2 (st_storage s2)) obj r" using new_root_mono [OF 1(7)] 2(2) by (simp add: kept_def)
  then show ?case
    by (intro exI [of _ t2] exI [of _ b2] exI [of _ s2] exI [of _ "r # rs"]) (use 1 2 kept_trans [OF 1(2) 2(2)] in simp)
qed

end

text \<open>The account of an address after the objects of a commit, with the new roots of their storage.\<close>

definition obj_value :: "address \<Rightarrow> Object \<times> hash \<Rightarrow> state_error + account option \<Rightarrow> state_error + account option" where
  "obj_value a p v =
     (if ob_Address (fst p) = a then (if ob_Deleted (fst p) then Inr None else Inr (Some (obj_account (fst p) (snd p)))) else v)"

definition account_in :: "ext \<Rightarrow> (bytes \<Rightarrow> bytes option) \<Rightarrow> address \<Rightarrow> state_error + account option" where
  "account_in X m addr =
     (case m (hashit X (Address_Bytes addr)) of
        None \<Rightarrow> Inr None
      | Some data \<Rightarrow> (case Account_UnmarshalRlp X data of None \<Rightarrow> Inl StateAccount | Some a \<Rightarrow> Inr (Some a)))"

lemma account_of_in: "account_of X t = account_in X (trie_map t)"
  by (simp add: account_of_def account_in_def fun_eq_iff)

definition addr_free :: "ext \<Rightarrow> address \<Rightarrow> Object \<Rightarrow> bool" where
  "addr_free X a obj \<longleftrightarrow>
     (hashit X (Address_Bytes (ob_Address obj)) = hashit X (Address_Bytes a) \<longrightarrow> ob_Address obj = a)"

lemma account_in_obj:
  assumes "rlp_ok X" and "addr_free X a obj" and "0 \<le> ob_Balance obj"
  shows "account_in X (kv_map (obj_op X obj r) m) a = obj_value a (obj, r) (account_in X m a)"
proof -
  have "Account_UnmarshalRlp X (x_rlp_marshal X (Account_MarshalWith (obj_account obj r))) = Some (obj_account obj r)"
    using account_unmarshal [OF assms(1)] assms(3) by (simp add: obj_account_def)
  with assms(2) show ?thesis by (auto simp: account_in_def obj_op_def obj_value_def addr_free_def)
qed

lemma account_in_objs:
  assumes "rlp_ok X" and "\<forall>p \<in> set ps. addr_free X a (fst p) \<and> 0 \<le> ob_Balance (fst p)"
  shows "account_in X (fold (\<lambda>(obj, r). kv_map (obj_op X obj r)) ps m) a = fold (obj_value a) ps (account_in X m a)"
  using assms(2)
proof (induction ps arbitrary: m)
  case (Cons p ps)
  obtain obj r where "p = (obj, r)" by force
  with Cons show ?case using account_in_obj [OF assms(1), of a obj r m] by simp
qed simp

text \<open>
  If the storage of the objects is known and the cache has room for the new tries, \<open>Commit\<close> does not panic, and the new snapshot
  has for every address the account of its object, no account if the object is deleted, and the
  old account if there is no object for it. The snapshot and the tries of the storages are stored.
\<close>

context node_store
begin

lemma commit_all:
  assumes R: "rlp_ok X" and X: "hash_ok X" and L: "lru_ok L view" and J: "J (sg_Batch G) (st_storage s)"
    and t: "trie_in X (K (sg_Batch G) (st_storage s)) 32 snap" "tri_epoch snap \<noteq> - 1"
    and c: "cache_in X (K (sg_Batch G) (st_storage s)) view (length objs) (st_cache s)"
    and o: "\<forall>obj \<in> set objs. obj_known view (st_cache s) obj \<and> 0 \<le> ob_Balance obj"
  shows "\<exists>snap' root s' rs b d. Snapshot_Commit X G L objs snap s = Ret (snap', root, s') \<and>
    kept (sg_Batch G) (st_storage s) b d \<and> st_storage s' = sg_BatchWrite G b d \<and>
    stored_trie X (K b d) (BytesToHash root) snap' \<and> root = root_of X (tri_root snap') \<and> length rs = length objs \<and>
    (\<forall>(obj, r) \<in> set (zip objs rs). new_root X (K b d) obj r) \<and> (\<forall>(h, t) \<in> set (view (st_cache s')). trie_in X (K b d) 32 t) \<and>
    (\<forall>a. (\<forall>obj \<in> set objs. addr_free X a obj) \<longrightarrow> account_of X snap' a = fold (obj_value a) (zip objs rs) (account_of X snap a))"
proof -
  let ?t = "with_state X G s snap" and ?P = "K (sg_Batch G) (st_storage s)"
  let ?u = "(Trie_Txn ?t)\<lparr>itx_batch := True\<rparr>" and ?ep = "tri_epoch snap + 1"
  have u: "hash_in X ?P 32 ?ep ?u" "itxn_map ?u = trie_map snap" using Trie_Txn_in [of X ?P 32 ?t True] t by simp_all
  have "\<forall>obj \<in> set objs. obj_known view (st_cache s) obj" using o by blast
  from commit_objs_run [OF X L J u(1) c this] obtain tt b s1 rs where
    c: "commit_objs X G L objs ?u (sg_Batch G) s = Ret (tt, b, s1)" "kept (sg_Batch G) (st_storage s) b (st_storage s1)"
      "hash_in X (K b (st_storage s1)) 32 ?ep tt" "length rs = length objs"
      "itxn_map tt = fold (\<lambda>(obj, r). kv_map (obj_op X obj r)) (zip objs rs) (trie_map snap)"
      "cache_in X (K b (st_storage s1)) view 0 (st_cache s1)"
      "\<forall>(obj, r) \<in> set (zip objs rs). new_root X (K b (st_storage s1)) obj r" unfolding u(2) by blast
  have "J b (st_storage s1)" using c(2) by (simp add: kept_def)
  from hash_put [OF X this c(3)] obtain tt' p b' d where
    h: "Itxn_Hash X tt = Ret (root_of X (itx_root tt), tt', p)" "put_nodes G p b (st_storage s1) = (b', d)" "kept b (st_storage s1) b' d"
      "stored_trie X (K b' d) (BytesToHash (root_of X (itx_root tt))) (Itxn_Commit tt')" "trie_map (Itxn_Commit tt') = itxn_map tt"
    by blast
  let ?root = "root_of X (itx_root tt)" and ?s2 = "s1\<lparr>st_storage := sg_BatchWrite G b' d\<rparr>"
  let ?n = "with_state X G ?s2 (Itxn_Commit tt')"
  have r: "Snapshot_Commit X G L objs snap s = Ret (?n, ?root, AddState L (BytesToHash ?root) ?n ?s2)"
    using c(1) h(1,2) by (simp add: Snapshot_Commit_def Let_def)
  have sub: "K b (st_storage s1) \<subseteq> K b' d" using h(3) by (simp add: kept_def)
  have st: "stored_trie X (K b' d) (BytesToHash ?root) ?n" using h(4) by (simp add: stored_trie_def)
  then have root: "?root = root_of X (tri_root ?n)" using X by (simp add: stored_trie_def)
  have "account_of X ?n a = fold (obj_value a) (zip objs rs) (account_of X snap a)" if "\<forall>obj \<in> set objs. addr_free X a obj" for a
  proof -
    have "\<forall>p \<in> set (zip objs rs). addr_free X a (fst p) \<and> 0 \<le> ob_Balance (fst p)"
      using that o by (auto dest: set_zip_leftD)
    from account_in_objs [OF R this, of "trie_map snap"] show ?thesis using h(5) c(5) by (simp add: account_of_in)
  qed
  moreover have "\<forall>(obj, r) \<in> set (zip objs rs). new_root X (K b' d) obj r" using c(7) new_root_mono [OF _ sub] by blast
  moreover have "\<forall>(h, t) \<in> set (view (st_cache (AddState L (BytesToHash ?root) ?n ?s2))). trie_in X (K b' d) 32 t"
    using L c(6) st trie_in_mono [OF _ sub] by (auto simp: lru_ok_def AddState_def cache_in_def stored_trie_def dest!: in_set_takeD)
  moreover have "st_storage (AddState L (BytesToHash ?root) ?n ?s2) = sg_BatchWrite G b' d" by (simp add: AddState_def)
  ultimately show ?thesis using r c(4) kept_trans [OF c(2) h(3)] st root by blast
qed

end

lemma commit_accounts:
  assumes "rlp_ok X" and "hash_ok X" and "lru_ok L view" and "trie_inv X 32 snap" and "tri_epoch snap \<noteq> - 1"
    and "cache_ok X view (length objs) (st_cache s)" and "\<forall>obj \<in> set objs. obj_known view (st_cache s) obj \<and> 0 \<le> ob_Balance obj"
  shows "\<exists>snap' root s' rs. Snapshot_Commit X G L objs snap s = Ret (snap', root, s') \<and> trie_inv X 32 snap' \<and>
    length rs = length objs \<and> (\<forall>(obj, r) \<in> set (zip objs rs). ob_Storage obj = [] \<longrightarrow> r = ob_Root obj) \<and>
    (\<forall>a. (\<forall>obj \<in> set objs. addr_free X a obj) \<longrightarrow> account_of X snap' a = fold (obj_value a) (zip objs rs) (account_of X snap a))"
proof -
  from anywhere.commit_all [OF assms(1-3) TrueI assms(4-7), of G] obtain snap' root s' rs where
    "Snapshot_Commit X G L objs snap s = Ret (snap', root, s')" "trie_inv X 32 snap'" "length rs = length objs"
    "\<forall>(obj, r) \<in> set (zip objs rs). new_root X UNIV obj r"
    "\<forall>a. (\<forall>obj \<in> set objs. addr_free X a obj) \<longrightarrow> account_of X snap' a = fold (obj_value a) (zip objs rs) (account_of X snap a)"
    unfolding stored_trie_def by blast
  moreover from this(4) have "\<forall>(obj, r) \<in> set (zip objs rs). ob_Storage obj = [] \<longrightarrow> r = ob_Root obj"
    by (auto simp: new_root_def)
  ultimately show ?thesis by blast
qed

section \<open>What cannot be read\<close>

lemma decodeChildren_reference:
  assumes "RlpBytes b \<in> set vs" and "b \<noteq> []"
  shows "decodeChildren vs \<noteq> Ret (Inr cs)"
  using assms(1)
proof (induction vs arbitrary: cs)
  case (Cons v vs)
  then show ?case
    using assms(2) by (cases "v = RlpBytes b") (auto simp: bnd_eq_Ret split: if_splits sum.splits)
qed simp

lemma DecodeNode_reference:
  assumes "rlp_ok X" and "length cs = 16" and "Some m \<in> set cs" and "ref_node X m = RlpBytes b" and "b \<noteq> []"
  shows "DecodeNode X (x_rlp_marshal X (node_rlp X (FullNode h e v cs))) \<noteq> Ret (Inr n)"
proof -
  let ?vs = "map (\<lambda>c. rlp_flat (edge_ref X c)) cs"
  have "RlpBytes b \<in> set ?vs" using assms(3,4) by force
  then have "decodeChildren ?vs \<noteq> Ret (Inr c)" for c using assms(5) by (rule decodeChildren_reference)
  moreover have "take 16 ?vs = ?vs" using assms(2) by simp
  ultimately show ?thesis
    using assms(1,2)
    by (auto simp: DecodeNode_def rlp_ok_def node_rlp.simps o_def bnd_eq_Ret split: sum.splits)
qed

text \<open>
  C34: A stored trie cannot be loaded again. A full node with a child that is stored by its hash is written by \<open>Hash\<close> in a form that
  \<open>DecodeNode\<close> rejects, since it has no case for a reference. Once such a trie has left the cache, \<open>NewSnapshotAt\<close> never
  returns a snapshot for its root, and \<open>GetStorage\<close> for an account with this root does not return.
\<close>

theorem stored_trie_unreadable:
  assumes "rlp_ok X" and "root \<noteq> EmptyRootHash" and "fst (lru_Get L root (st_cache s)) = None"
    and "sg_Get G (Hash_Bytes root) (st_storage s) = Ret (x_rlp_marshal X (node_rlp X (FullNode h e v cs)), True)"
    and "length cs = 16" and "Some m \<in> set cs" and "ref_node X m = RlpBytes b" and "b \<noteq> []"
  shows "(\<forall>t s'. NewSnapshotAt X G L root s \<noteq> Ret (Inr t, s')) \<and> (\<forall>key w s'. Snapshot_GetStorage X G L root key s \<noteq> Ret (w, s'))"
proof -
  obtain c where c: "lru_Get L root (st_cache s) = (None, c)" using assms(3) by (cases "lru_Get L root (st_cache s)") auto
  have "State_GetNode X G (s\<lparr>st_cache := c\<rparr>) (Hash_Bytes root) \<noteq> Ret (Inr n)" for n
    using assms(4) DecodeNode_reference [OF assms(1,5-8), of h e v] by (auto simp: State_GetNode_def bnd_eq_Ret split: sum.splits)
  then have n: "NewSnapshotAt X G L root s \<noteq> Ret (Inr t, s')" for t s'
    using assms(2) c by (auto simp: NewSnapshotAt_def bnd_eq_Ret Let_def split: sum.splits option.splits)
  then have "Snapshot_GetStorage X G L root key s \<noteq> Ret (w, s')" for key w s'
    using assms(2) by (auto simp: Snapshot_GetStorage_def bnd_eq_Ret split: sum.splits)
  with n show ?thesis by blast
qed

text \<open>
  C36: A transaction must not be used after its hash was computed. If the root is a full node of the transaction's own
  epoch with a cached hash, as \<open>Hash\<close> leaves it, an insertion updates the node in place and keeps the
  cached hash: the next \<open>Hash\<close> returns the root of the old map.
\<close>

theorem stale_hash_after_insert:
  assumes "hash_ok X" and "itx_root t = Some (FullNode h (itx_epoch t) v cs)" and "ok_node (FullNode h (itx_epoch t) v cs)" and "length h = 32"
  shows "\<exists>t' p p'. Itxn_Hash X t = Ret (h, t, p) \<and> Itxn_Insert k val t = Ret t' \<and> Itxn_Hash X t' = Ret (h, t', p') \<and>
    itxn_map t' = (itxn_map t)(k := Some val)"
proof -
  let ?n = "FullNode h (itx_epoch t) v cs"
  have hash: "\<exists>p. Itxn_Hash X u = Ret (h, u, p)" if "itx_root u = Some (FullNode h e w ds)" for u e w ds
    using that assms(1,4) by (auto simp: Itxn_Hash_def hash_ok_def list_put_def Let_def)
  obtain x xs where k: "keybytesToHex k = x # xs" by (cases "keybytesToHex k") (use valid_key_keybytes [of k] in auto)
  obtain n' where n': "insert_node (itx_storage t) (itx_epoch t) (key_fuel (keybytesToHex k)) (Some ?n) (keybytesToHex k) val = Ret (Some n')"
      "content (Some n') = (content (Some ?n))(keybytesToHex k := Some val)"
    using insert_content [OF assms(3), of "keybytesToHex k" "key_fuel (keybytesToHex k)" "itx_storage t" "itx_epoch t" val] by auto
  obtain g where "key_fuel (keybytesToHex k) = Suc g" by (cases "key_fuel (keybytesToHex k)") simp_all
  with n'(1) k have "insert_node (itx_storage t) (itx_epoch t) (Suc g) (Some ?n) (x # xs) val = Ret (Some n')" by simp
  then have "\<exists>w ds. n' = FullNode h (itx_epoch t) w ds"
    by (auto simp: Let_def bnd_eq_Ret setEdge.simps replaceEdge.simps split: if_splits)
  then obtain w ds where "n' = FullNode h (itx_epoch t) w ds" by blast
  moreover have "Itxn_Insert k val t = Ret (t\<lparr>itx_root := Some n'\<rparr>)" using n'(1) assms(2) by (simp add: Itxn_Insert_def Let_def)
  moreover have "itxn_map (t\<lparr>itx_root := Some n'\<rparr>) = (itxn_map t)(k := Some val)"
    using n'(2) assms(2) by (simp add: itxn_map_def fun_eq_iff)
  ultimately show ?thesis using hash [of t] hash [of "t\<lparr>itx_root := Some n'\<rparr>"] assms(2) by auto
qed

end
