(* ===== verification/Txn_View.thy ===== *)
theory Txn_View
  imports Txn
begin

text \<open>
  What the accessors of the transient state show of an account, as one record, and what an operation on one account does to
  it. An account that does not exist reads as an empty one, except for \<open>Exist\<close> and \<open>GetCodeHash\<close>; the first
  operation that writes to it, even if only to touch it, creates it.
\<close>

section \<open>The view of an account\<close>

record view =
  vw_Exist :: bool
  vw_Nonce :: u64
  vw_Balance :: int
  vw_Code :: bytes
  vw_CodeHash :: hash
  vw_Suicided :: bool
  vw_Storage :: "hash \<Rightarrow> hash"
  vw_Committed :: "hash \<Rightarrow> hash"

definition account_view :: "('t, 's) trees \<Rightarrow> ('t, 's) txn \<Rightarrow> address \<Rightarrow> view" where
  "account_view T txn a =
     \<lparr>vw_Exist = Txn_Exist T txn a, vw_Nonce = Txn_GetNonce T txn a, vw_Balance = Txn_GetBalance T txn a,
      vw_Code = Txn_GetCode T txn a, vw_CodeHash = Txn_GetCodeHash T txn a, vw_Suicided = Txn_HasSuicided T txn a,
      vw_Storage = Txn_GetState T txn a, vw_Committed = Txn_GetCommittedState T txn a\<rparr>"

text \<open>The same account once it exists.\<close>

definition created :: "ext \<Rightarrow> view \<Rightarrow> view" where
  "created X v = (if vw_Exist v then v else v\<lparr>vw_Exist := True, vw_CodeHash := BytesToHash (EmptyCodeHash X)\<rparr>)"

lemma created_idem [simp]: "created X (created X v) = created X v"
  by (simp add: created_def)

section \<open>The view of an object\<close>

definition object_view :: "('t, 's) trees \<Rightarrow> snapshot \<Rightarrow> 's stateObject \<Rightarrow> view" where
  "object_view T sn obj =
     \<lparr>vw_Exist = True, vw_Nonce = acc_Nonce (so_Account obj), vw_Balance = acc_Balance (so_Account obj),
      vw_Code = (if so_DirtyCode obj then so_Code obj else fst (snap_GetCode sn (BytesToHash (acc_CodeHash (so_Account obj))))),
      vw_CodeHash = BytesToHash (acc_CodeHash (so_Account obj)), vw_Suicided = so_Suicide obj,
      vw_Storage = (\<lambda>key.
        case so_Txn obj of
          None \<Rightarrow> snap_GetStorage sn (acc_Root (so_Account obj)) key
        | Some t \<Rightarrow>
            (case rx_get (tr_store T) t (Hash_Bytes key) of
               None \<Rightarrow> snap_GetStorage sn (acc_Root (so_Account obj)) key
             | Some None \<Rightarrow> 0
             | Some (Some val) \<Rightarrow> BytesToHash val)),
      vw_Committed = snap_GetStorage sn (acc_Root (so_Account obj))\<rparr>"

lemma account_view_Some: "getStateObject T txn a = Some obj \<Longrightarrow> account_view T txn a = object_view T (txn_snapshot txn) obj"
  by (simp add: account_view_def object_view_def Txn_Exist_def Txn_GetNonce_def Txn_GetBalance_def Txn_GetCode_def Txn_GetCodeHash_def
      Txn_HasSuicided_def Txn_GetState_def Txn_GetCommittedState_def fun_eq_iff Let_def)

lemma account_view_cong:
  "getStateObject T txn' a = getStateObject T txn a \<Longrightarrow> txn_snapshot txn' = txn_snapshot txn \<Longrightarrow> account_view T txn' a = account_view T txn a"
  by (cases "getStateObject T txn a")
    (simp_all add: account_view_def Txn_Exist_def Txn_GetNonce_def Txn_GetBalance_def Txn_GetCode_def Txn_GetCodeHash_def
      Txn_HasSuicided_def Txn_GetState_def Txn_GetCommittedState_def fun_eq_iff)

text \<open>Creating an account shows in \<open>Exist\<close> and \<open>GetCodeHash\<close> only.\<close>

lemma created_view:
  assumes "snapshot_ok X (txn_snapshot txn)"
  shows "object_view T (txn_snapshot txn) (object_or_new X T txn a) = created X (account_view T txn a)"
proof (cases "getStateObject T txn a")
  case None
  then show ?thesis
    using assms
    by (simp add: object_or_new_def object_view_def newStateObject_def created_def account_view_def Txn_Exist_def Txn_GetNonce_def
        Txn_GetBalance_def Txn_GetCode_def Txn_GetCodeHash_def Txn_HasSuicided_def Txn_GetState_def Txn_GetCommittedState_def
        snapshot_ok_def fun_eq_iff)
next
  case (Some obj)
  then show ?thesis using account_view_Some [OF Some] by (simp add: object_or_new_def created_def object_view_def)
qed

section \<open>Operations on one account\<close>

lemma view_upsert:
  assumes "trees_ok T" and "\<And>obj. so_Deleted (f obj) = so_Deleted obj"
  shows "account_view T (upsertAccount X T a True f txn) =
    (account_view T txn)(a := object_view T (txn_snapshot txn) (stateObject_Copy (f (object_or_new X T txn a))))"
proof
  fix b
  have g: "getStateObject T (upsertAccount X T a True f txn) b =
      (if b = a then Some (stateObject_Copy (f (object_or_new X T txn a))) else getStateObject T txn b)"
    by (rule getStateObject_upsert [OF assms])
  show "account_view T (upsertAccount X T a True f txn) b =
      ((account_view T txn)(a := object_view T (txn_snapshot txn) (stateObject_Copy (f (object_or_new X T txn a))))) b"
    using g account_view_Some [of T "upsertAccount X T a True f txn" b] account_view_cong [of T "upsertAccount X T a True f txn" b txn]
    by auto
qed

lemma aux_upsert:
  assumes "trees_ok T"
  shows "Txn_GetRefund T (upsertAccount X T a True f txn) = Txn_GetRefund T txn"
    and "tree_logs T (upsertAccount X T a True f txn) = tree_logs T txn"
  by (simp_all add: upsert_True Txn_GetRefund_def tree_logs_def trees_okD [OF assms] cong: option.case_cong)

lemma upsert_get:
  assumes "trees_ok T" and "\<And>obj. so_Deleted (f obj) = so_Deleted obj"
  shows "Txn_GetNonce T (upsertAccount X T a True f txn) b =
      (if b = a then acc_Nonce (so_Account (f (object_or_new X T txn a))) else Txn_GetNonce T txn b)"
    and "Txn_GetCodeHash T (upsertAccount X T a True f txn) b =
      (if b = a then BytesToHash (acc_CodeHash (so_Account (f (object_or_new X T txn a)))) else Txn_GetCodeHash T txn b)"
    and "Txn_HasSuicided T (upsertAccount X T a True f txn) b =
      (if b = a then so_Suicide (f (object_or_new X T txn a)) else Txn_HasSuicided T txn b)"
    and "Txn_GetCode T (upsertAccount X T a True f txn) b =
      (if b = a
       then if so_DirtyCode (f (object_or_new X T txn a)) then so_Code (f (object_or_new X T txn a))
         else fst (snap_GetCode (txn_snapshot txn) (BytesToHash (acc_CodeHash (so_Account (f (object_or_new X T txn a))))))
       else Txn_GetCode T txn b)"
  using getStateObject_upsert [OF assms, of X a txn]
  by (simp_all add: Txn_GetNonce_def Txn_GetCodeHash_def Txn_HasSuicided_def Txn_GetCode_def stateObject_Copy_def Account_Copy_def
      upsertAccount_def Let_def split: option.split)

lemma object_or_new_nonce: "acc_Nonce (so_Account (object_or_new X T txn a)) = Txn_GetNonce T txn a"
  by (simp add: object_or_new_def Txn_GetNonce_def newStateObject_def split: option.split)

end
