(* ===== verification/Txn_Props.thy ===== *)
theory Txn_Props
  imports Example_Trees Txn_View
begin

text \<open>
  What the operations of the transient state do to what can be read from it: setters and getters,
  storage with the refund of EIP-2200, snapshots, the deletion at the end of a transaction, and the
  objects a commit hands over. The operations as steps of a state machine give the types of the entries after
  any sequence of operations, and nested blocks of operations that a revert undoes them.
\<close>

section \<open>Setters and getters\<close>

lemma object_view_upd:
  assumes "0 \<le> acc_Balance (so_Account obj)"
  shows "object_view T sn (stateObject_Copy (upd_account (\<lambda>a. a\<lparr>acc_Balance := g (acc_Balance a)\<rparr>) obj)) =
      (object_view T sn obj)\<lparr>vw_Balance := \<bar>g (vw_Balance (object_view T sn obj))\<bar>\<rparr>"
    and "object_view T sn (stateObject_Copy (upd_account (\<lambda>a. a\<lparr>acc_Nonce := gn (acc_Nonce a)\<rparr>) obj)) =
      (object_view T sn obj)\<lparr>vw_Nonce := gn (vw_Nonce (object_view T sn obj))\<rparr>"
    and "object_view T sn (stateObject_Copy ((upd_account (\<lambda>a. a\<lparr>acc_CodeHash := h\<rparr>) obj)\<lparr>so_DirtyCode := True, so_Code := cd\<rparr>)) =
      (object_view T sn obj)\<lparr>vw_Code := cd, vw_CodeHash := BytesToHash h\<rparr>"
    and "object_view T sn (stateObject_Copy obj) = object_view T sn obj"
  using assms by (simp_all add: object_view_def stateObject_Copy_def Account_Copy_def upd_account_def cong: option.case_cong)

lemma view_ops:
  fixes a :: address
  assumes "trees_ok T" and "snapshot_ok X (txn_snapshot txn)"
  defines "c \<equiv> created X (account_view T txn a)"
  shows "account_view T (upsertAccount X T a True (upd_account (\<lambda>x. x\<lparr>acc_Balance := g (acc_Balance x)\<rparr>)) txn) =
      (account_view T txn)(a := c\<lparr>vw_Balance := \<bar>g (vw_Balance c)\<bar>\<rparr>)"
    and "account_view T (upsertAccount X T a True (upd_account (\<lambda>x. x\<lparr>acc_Nonce := gn (acc_Nonce x)\<rparr>)) txn) =
      (account_view T txn)(a := c\<lparr>vw_Nonce := gn (vw_Nonce c)\<rparr>)"
    and "account_view T (Txn_SetCode X T a cd txn) = (account_view T txn)(a := c\<lparr>vw_Code := cd, vw_CodeHash := BytesToHash (Keccak256 X [cd])\<rparr>)"
    and "account_view T (Txn_TouchAccount X T a txn) = (account_view T txn)(a := c)"
  unfolding c_def Txn_SetCode_def Txn_TouchAccount_def
  by (subst view_upsert [OF assms(1)],
      simp add: upd_account_def,
      simp only: object_view_upd [OF object_or_new_live(2)] created_view [OF assms(2)])+

lemma view_SetState:
  fixes a :: address
  assumes "trees_ok T" and "snapshot_ok X (txn_snapshot txn)"
  defines "c \<equiv> created X (account_view T txn a)"
  shows "account_view T (Txn_SetState X T a k w txn) = (account_view T txn)(a := c\<lparr>vw_Storage := (vw_Storage c)(k := w)\<rparr>)"
proof -
  let ?f = "\<lambda>obj. obj\<lparr>so_Txn := Some (rx_insert (tr_store T) (case so_Txn obj of None \<Rightarrow> rx_new (tr_store T) | Some t \<Rightarrow> t) (Hash_Bytes k)
    (if w = 0 then None else Some (Hash_Bytes w)))\<rparr>"
  have "object_view T sn (stateObject_Copy (?f obj)) = (object_view T sn obj)\<lparr>vw_Storage := (vw_Storage (object_view T sn obj))(k := w)\<rparr>"
    if "0 \<le> acc_Balance (so_Account obj)" for sn obj
    using that by (auto simp: object_view_def stateObject_Copy_def Account_Copy_def fun_eq_iff trees_okD [OF assms(1)] split: option.split)
  note f = this [OF object_or_new_live(2) [of X T txn a], of "txn_snapshot txn", unfolded created_view [OF assms(2)]]
  have "account_view T (upsertAccount X T a True ?f txn) =
      (account_view T txn)(a := object_view T (txn_snapshot txn) (stateObject_Copy (?f (object_or_new X T txn a))))"
    by (rule view_upsert [OF assms(1)]) simp
  then show ?thesis unfolding c_def Txn_SetState_def Let_def f .
qed

lemma created_balance [simp]: "vw_Balance (created X (account_view T txn a)) = Txn_GetBalance T txn a"
  by (simp add: created_def account_view_def)

text \<open>
  C14: A setter changes exactly what it names. After each operation every accessor (existence, nonce, balance, code, code hash, suicide,
  current and committed storage) gives for every account what it gave before, except the named value of the named account; the
  account exists afterwards, with the hash of the empty code if it did not before. A debit that is not covered
  is refused and, like a debit of zero, changes nothing at all. Refund and logs stay as they were.
\<close>

theorem txn_setters:
  assumes "trees_ok T" and "snapshot_ok X (txn_snapshot txn)" and "0 \<le> v"
  shows "account_view T (Txn_AddBalance X T a v txn) = (account_view T txn)(a :=
      (created X (account_view T txn a))\<lparr>vw_Balance := Txn_GetBalance T txn a + v\<rparr>) \<and>
    account_view T (snd (Txn_SubBalance X T a v txn)) =
      (if 0 < v \<and> v \<le> Txn_GetBalance T txn a
       then (account_view T txn)(a := (created X (account_view T txn a))\<lparr>vw_Balance := Txn_GetBalance T txn a - v\<rparr>) else account_view T txn) \<and>
    (fst (Txn_SubBalance X T a v txn) = None \<longleftrightarrow> v \<le> Txn_GetBalance T txn a) \<and>
    account_view T (Txn_SetBalance X T a v txn) = (account_view T txn)(a := (created X (account_view T txn a))\<lparr>vw_Balance := v\<rparr>) \<and>
    account_view T (Txn_IncrNonce X T a txn) = (account_view T txn)(a :=
      (created X (account_view T txn a))\<lparr>vw_Nonce := Txn_GetNonce T txn a + 1\<rparr>) \<and>
    account_view T (Txn_SetNonce X T a n txn) = (account_view T txn)(a := (created X (account_view T txn a))\<lparr>vw_Nonce := n\<rparr>) \<and>
    account_view T (Txn_SetCode X T a cd txn) = (account_view T txn)(a :=
      (created X (account_view T txn a))\<lparr>vw_Code := cd, vw_CodeHash := BytesToHash (Keccak256 X [cd])\<rparr>) \<and>
    account_view T (Txn_SetState X T a k w txn) = (account_view T txn)(a :=
      (created X (account_view T txn a))\<lparr>vw_Storage := (Txn_GetState T txn a)(k := w)\<rparr>) \<and>
    account_view T (Txn_TouchAccount X T a txn) = (account_view T txn)(a := created X (account_view T txn a)) \<and>
    (\<forall>txn' \<in> {Txn_AddBalance X T a v txn, snd (Txn_SubBalance X T a v txn), Txn_SetBalance X T a v txn, Txn_IncrNonce X T a txn,
        Txn_SetNonce X T a n txn, Txn_SetCode X T a cd txn, Txn_SetState X T a k w txn, Txn_TouchAccount X T a txn}.
      Txn_GetRefund T txn' = Txn_GetRefund T txn \<and> tree_logs T txn' = tree_logs T txn)"
proof -
  note u = view_ops [OF assms(1,2)] and b = Txn_GetBalance_nonneg [of T txn a]
  have c: "vw_Nonce (created X (account_view T txn a)) = Txn_GetNonce T txn a"
    "vw_Storage (created X (account_view T txn a)) = Txn_GetState T txn a" by (simp_all add: created_def account_view_def)
  have bal: "account_view T (Txn_AddBalance X T a v txn) = (account_view T txn)(a :=
      (created X (account_view T txn a))\<lparr>vw_Balance := Txn_GetBalance T txn a + v\<rparr>)"
    "account_view T (Txn_SetBalance X T a v txn) = (account_view T txn)(a := (created X (account_view T txn a))\<lparr>vw_Balance := v\<rparr>)"
    using b assms(3) u(1) [where g = "\<lambda>x. x + v"] u(1) [where g = "\<lambda>x. \<bar>v\<bar>"] by (simp_all add: Txn_AddBalance_def Txn_SetBalance_def)
  have sub: "account_view T (snd (Txn_SubBalance X T a v txn)) =
      (if 0 < v \<and> v \<le> Txn_GetBalance T txn a
       then (account_view T txn)(a := (created X (account_view T txn a))\<lparr>vw_Balance := Txn_GetBalance T txn a - v\<rparr>) else account_view T txn)"
    using assms(3) u(1) [where g = "\<lambda>x. x - v"] by (simp add: Txn_SubBalance_def)
  have nonce: "account_view T (Txn_IncrNonce X T a txn) = (account_view T txn)(a :=
      (created X (account_view T txn a))\<lparr>vw_Nonce := Txn_GetNonce T txn a + 1\<rparr>)"
    "account_view T (Txn_SetNonce X T a n txn) = (account_view T txn)(a := (created X (account_view T txn a))\<lparr>vw_Nonce := n\<rparr>)"
    using u(2) [where gn = "\<lambda>x. x + 1"] u(2) [where gn = "\<lambda>x. n"] by (simp_all add: Txn_IncrNonce_def Txn_SetNonce_def c)
  have fst: "fst (Txn_SubBalance X T a v txn) = None \<longleftrightarrow> v \<le> Txn_GetBalance T txn a"
    using b by (auto simp: Txn_SubBalance_def)
  have aux: "Txn_GetRefund T txn' = Txn_GetRefund T txn \<and> tree_logs T txn' = tree_logs T txn"
    if "txn' \<in> {Txn_AddBalance X T a v txn, snd (Txn_SubBalance X T a v txn), Txn_SetBalance X T a v txn, Txn_IncrNonce X T a txn,
        Txn_SetNonce X T a n txn, Txn_SetCode X T a cd txn, Txn_SetState X T a k w txn, Txn_TouchAccount X T a txn}" for txn'
    using that by (auto simp: txn_upsert_defs Txn_SubBalance_def aux_upsert [OF assms(1)])
  have st: "account_view T (Txn_SetState X T a k w txn) = (account_view T txn)(a :=
      (created X (account_view T txn a))\<lparr>vw_Storage := (Txn_GetState T txn a)(k := w)\<rparr>)"
    using view_SetState [OF assms(1,2), of a k w] by (simp add: c)
  show ?thesis by (intro conjI ballI bal sub fst nonce u(3,4) st) (rule aux [THEN conjunct1] aux [THEN conjunct2]; assumption)+
qed

lemma snapshot_ok0: "snapshot_ok ext0 (txn_snapshot (newTxn al_trees snap0))" "snapshot_ok ext0 snap0"
  by (simp_all add: snapshot_ok_def newTxn_def snap0_def)

theorem txn_setters_witness:
  "trees_ok al_trees \<and> Txn_GetBalance al_trees (Txn_AddBalance ext0 al_trees 0xaa 5 (newTxn al_trees snap0)) 0xaa = 1000005 \<and>
   Txn_GetNonce al_trees (Txn_AddBalance ext0 al_trees 0xaa 5 (newTxn al_trees snap0)) 0xaa = 0 \<and>
   fst (Txn_SubBalance ext0 al_trees 0xaa 2000000 (newTxn al_trees snap0)) \<noteq> None"
proof -
  let ?t = "newTxn al_trees snap0"
  have b: "Txn_GetBalance al_trees ?t 0xaa = 1000000" "Txn_GetNonce al_trees ?t 0xaa = 0"
    by (simp_all add: Txn_GetBalance_def Txn_GetNonce_def getStateObject_def newTxn_def al_trees_def al_radix_def snap0_def Account_Copy_def)
  have "account_view al_trees (Txn_AddBalance ext0 al_trees 0xaa 5 ?t) 0xaa =
      (created ext0 (account_view al_trees ?t 0xaa))\<lparr>vw_Balance := 1000005\<rparr>"
    using txn_setters [OF trees_ok_al snapshot_ok0(1), of 5 "0xaa"] b by simp
  then have "Txn_GetBalance al_trees (Txn_AddBalance ext0 al_trees 0xaa 5 ?t) 0xaa = 1000005"
    "Txn_GetNonce al_trees (Txn_AddBalance ext0 al_trees 0xaa 5 ?t) 0xaa = 0"
    using b by (auto simp: account_view_def created_def split: if_splits)
  moreover have "fst (Txn_SubBalance ext0 al_trees 0xaa 2000000 ?t) \<noteq> None"
    using txn_setters [OF trees_ok_al snapshot_ok0(1), of 2000000 "0xaa"] b by simp
  ultimately show ?thesis by simp
qed

section \<open>Storage\<close>

lemma GetState_SetState:
  assumes "trees_ok T" and "snapshot_ok X (txn_snapshot txn)"
  shows "Txn_GetState T (Txn_SetState X T a k v txn) b j = (if b = a \<and> j = k then v else Txn_GetState T txn b j)"
proof (cases "b = a")
  case True
  show ?thesis
    using assms(2)
    by (auto simp: True Txn_SetState_def Txn_GetState_def getStateObject_upsert [OF assms(1)] Let_def stateObject_Copy_def
        Account_Copy_def trees_okD [OF assms(1)] object_or_new_def newStateObject_def snapshot_ok_def BytesToHash_eq
        split: option.split)
next
  case False
  then show ?thesis
    by (simp add: Txn_SetState_def Txn_GetState_def getStateObject_upsert [OF assms(1)] Let_def split: option.split)
qed



section \<open>Storage status and refunds\<close>

lemma refund_ops:
  assumes "trees_ok T"
  shows "Txn_GetRefund T (Txn_SetState X T a k v txn) = Txn_GetRefund T txn"
    and "Txn_GetRefund T (Txn_AddRefund T g txn) = Txn_GetRefund T txn + g"
    and "Txn_GetRefund T (Txn_SubRefund T g txn) = Txn_GetRefund T txn - g"
  by (simp_all add: Txn_SetState_def upsert_True Txn_GetRefund_def Txn_AddRefund_def Txn_SubRefund_def trees_okD [OF assms]
      cong: option.case_cong)

text \<open>The net metering of EIP-2200, on the original, the current and the new value of a slot.\<close>

definition net_status :: "hash \<Rightarrow> hash \<Rightarrow> hash \<Rightarrow> storage_status" where
  "net_status original current new =
     (if current = new then StorageUnchanged
      else if original = current
      then if original = 0 then StorageAdded else if new = 0 then StorageDeleted else StorageModified
      else StorageModifiedAgain)"

definition net_refund :: "bool \<Rightarrow> hash \<Rightarrow> hash \<Rightarrow> hash \<Rightarrow> int" where
  "net_refund istanbul original current new =
     (if current = new then 0
      else if original = current then (if original \<noteq> 0 \<and> new = 0 then 15000 else 0)
      else (if original \<noteq> 0 \<and> current = 0 then - 15000 else 0) + (if original \<noteq> 0 \<and> new = 0 then 15000 else 0) +
        (if original = new
         then if original = 0 then (if istanbul then 19200 else 19800) else (if istanbul then 4200 else 4800)
         else 0))"

text \<open>
  C16: \<open>SetStorage\<close> meters a slot as EIP-2200 (or EIP-1283 in Constantinople) prescribes, if no earlier transaction of the block has changed
  the slot. The original value of the specification is the value at the start of the transaction, here \<open>start\<close>; the code takes the one of the
  snapshot of the block, so the two must agree. Then the status is the one of the original, current and new value, the
  refund counter changes by the net refund, modulo \<open>2\<^sup>6\<^sup>4\<close>, and the slot, and nothing else of the storage, has the
  new value.
\<close>

theorem SetStorage_net_metering:
  assumes "trees_ok T" and "snapshot_ok X (txn_snapshot txn)" and "Istanbul config \<or> Constantinople config \<and> \<not> Petersburg config"
    and "Txn_GetCommittedState T txn a k = Txn_GetState T start a k"
  shows "fst (Txn_SetStorage X T txn a k new config) = net_status (Txn_GetState T start a k) (Txn_GetState T txn a k) new \<and>
    Txn_GetRefund T (snd (Txn_SetStorage X T txn a k new config)) =
      Txn_GetRefund T txn + of_int (net_refund (Istanbul config) (Txn_GetState T start a k) (Txn_GetState T txn a k) new) \<and>
    Txn_GetState T (snd (Txn_SetStorage X T txn a k new config)) = (Txn_GetState T txn)(a := (Txn_GetState T txn a)(k := new))"
proof -
  define orig where "orig = Txn_GetCommittedState T txn a k"
  define cur where "cur = Txn_GetState T txn a k"
  let ?s = "Txn_SetState X T a k new txn"
  let ?r = "Txn_SetStorage X T txn a k new config"
  have legacy: "\<not> (\<not> Istanbul config \<and> (Petersburg config \<or> \<not> Constantinople config))" using assms(3) by blast
  have status: "fst ?r = net_status orig cur new"
    unfolding Txn_SetStorage_def net_status_def orig_def cur_def Let_def if_not_P [OF legacy] by (simp add: if_distrib [of fst])
  have refund: "Txn_GetRefund T (snd ?r) = Txn_GetRefund T txn + of_int (net_refund (Istanbul config) orig cur new)"
    unfolding Txn_SetStorage_def net_refund_def orig_def [symmetric] cur_def [symmetric] Let_def if_not_P [OF legacy]
    by (simp add: refund_ops [OF assms(1)])
  have st: "Txn_GetState T (Txn_AddRefund T g x) = Txn_GetState T x" "Txn_GetState T (Txn_SubRefund T g x) = Txn_GetState T x" for g x
    by (simp_all add: fun_eq_iff Txn_GetState_def getStateObject_aux [OF assms(1)] split: option.split)
  have set: "Txn_GetState T ?s = (Txn_GetState T txn)(a := (Txn_GetState T txn a)(k := new))"
    by (auto simp: fun_eq_iff GetState_SetState [OF assms(1,2)])
  have "Txn_GetState T (snd ?r) = (if cur = new then Txn_GetState T txn else Txn_GetState T ?s)"
    unfolding Txn_SetStorage_def orig_def [symmetric] cur_def [symmetric] Let_def if_not_P [OF legacy] by (simp add: st)
  then have "Txn_GetState T (snd ?r) = (Txn_GetState T txn)(a := (Txn_GetState T txn a)(k := new))"
    using set by (auto simp: cur_def)
  with status refund show ?thesis by (simp add: orig_def cur_def assms(4))
qed

definition istanbul0 :: forks_in_time where
  "istanbul0 = Forks_At AllForksEnabled 0"

theorem SetStorage_net_metering_witness:
  "trees_ok al_trees \<and> snapshot_ok ext0 snap0 \<and> Istanbul istanbul0 \<and>
   fst (Txn_SetStorage ext0 al_trees (newTxn al_trees snap0) 0xaa 1 7 istanbul0) = StorageAdded"
proof -
  let ?t = "newTxn al_trees snap0"
  have s: "snapshot_ok ext0 (txn_snapshot ?t)" by (simp add: snapshot_ok_def newTxn_def snap0_def)
  have f: "Istanbul istanbul0" by (simp add: istanbul0_def Forks_At_AllForksEnabled)
  have "Txn_GetState al_trees ?t 0xaa 1 = 0" "Txn_GetCommittedState al_trees ?t 0xaa 1 = 0"
    by (simp_all add: Txn_GetState_def Txn_GetCommittedState_def getStateObject_def newTxn_def al_trees_def al_radix_def snap0_def)
  with SetStorage_net_metering [OF trees_ok_al s, of istanbul0 "0xaa" 1 ?t 7] f s
  show ?thesis by (simp add: net_status_def newTxn_def)
qed

text \<open>
  C40: The original value is read from the snapshot of the block, not from the start of the transaction, while
  the refund counter starts at zero in each transaction. So a slot that an earlier transaction of the
  block has cleared takes 15000 from an empty counter when a later one sets it again: the counter wraps
  around to nearly \<open>2\<^sup>6\<^sup>4\<close>, and the transaction is refunded up to half of its gas.
\<close>

theorem SetStorage_refund_wraps:
  assumes "trees_ok T" and "Istanbul config" and "Txn_GetRefund T txn = 0"
    and "Txn_GetCommittedState T txn a k \<noteq> 0" and "Txn_GetState T txn a k = 0" and "new \<noteq> 0" and "new \<noteq> Txn_GetCommittedState T txn a k"
  shows "unat (Txn_GetRefund T (snd (Txn_SetStorage X T txn a k new config))) = 2 ^ 64 - 15000"
  using assms by (simp add: Txn_SetStorage_def Let_def refund_ops [OF assms(1)])

definition snap1 :: snapshot where
  "snap1 = snap0\<lparr>snap_GetStorage := (\<lambda>r k. 9)\<rparr>"

theorem SetStorage_refund_wraps_witness:
  "trees_ok al_trees \<and> Istanbul istanbul0 \<and>
   unat (Txn_GetRefund al_trees (snd (Txn_SetStorage ext0 al_trees
     (Txn_SetState ext0 al_trees 0xaa 1 0 (newTxn al_trees snap1)) 0xaa 1 7 istanbul0))) = 2 ^ 64 - 15000"
proof -
  let ?t = "Txn_SetState ext0 al_trees 0xaa 1 0 (newTxn al_trees snap1)"
  have sn: "txn_snapshot (newTxn al_trees snap1) = snap1" by (simp add: newTxn_def)
  have "Txn_GetCommittedState al_trees ?t 0xaa 1 = 9"
    by (simp add: Txn_GetCommittedState_def Txn_SetState_def getStateObject_upsert [OF trees_ok_al] Let_def sn) (simp add: snap1_def)
  moreover have "Txn_GetState al_trees ?t 0xaa 1 = 0"
    by (simp add: Txn_GetState_def Txn_SetState_def getStateObject_upsert [OF trees_ok_al] Let_def stateObject_Copy_def trees_okD [OF trees_ok_al])
  moreover have "Txn_GetRefund al_trees ?t = 0"
    by (simp add: refund_ops [OF trees_ok_al]) (simp add: Txn_GetRefund_def newTxn_def trees_okD [OF trees_ok_al])
  moreover have "Istanbul istanbul0" by (simp add: istanbul0_def Forks_At_AllForksEnabled)
  ultimately show ?thesis
    using SetStorage_refund_wraps [OF trees_ok_al, of istanbul0 ?t "0xaa" 1 7 ext0] by simp
qed

section \<open>Snapshots\<close>

text \<open>The operations of the transient state; with taking a snapshot and reverting to one they are the steps.\<close>

inductive txn_op :: "ext \<Rightarrow> ('t, 's) trees \<Rightarrow> ('t, 's) txn \<Rightarrow> ('t, 's) txn \<Rightarrow> bool" for X T where
  op_AddBalance: "txn_op X T txn (Txn_AddBalance X T a v txn)"
| op_SubBalance: "txn_op X T txn (snd (Txn_SubBalance X T a v txn))"
| op_SetBalance: "txn_op X T txn (Txn_SetBalance X T a v txn)"
| op_AddSealingReward: "txn_op X T txn (AddSealingReward X T a v txn)"
| op_IncrNonce: "txn_op X T txn (Txn_IncrNonce X T a txn)"
| op_SetNonce: "txn_op X T txn (Txn_SetNonce X T a n txn)"
| op_SetCode: "txn_op X T txn (Txn_SetCode X T a cd txn)"
| op_SetStorage: "txn_op X T txn (snd (Txn_SetStorage X T txn a k w f))"
| op_Suicide: "txn_op X T txn (Txn_Suicide X T a txn)"
| op_Touch: "txn_op X T txn (Txn_TouchAccount X T a txn)"
| op_CreateAccount: "txn_op X T txn (Txn_CreateAccount X T a txn)"
| op_EmitLog: "txn_op X T txn (Txn_EmitLog T a ts d txn)"
| op_AddLog: "txn_op X T txn (AddLog T l txn)"
| op_Logs: "txn_op X T txn (snd (Txn_Logs T txn))"
| op_AddRefund: "txn_op X T txn (Txn_AddRefund T g txn)"
| op_SubRefund: "txn_op X T txn (Txn_SubRefund T g txn)"
| op_Clean: "CleanDeleteObjects X T flag txn = Ret txn' \<Longrightarrow> txn_op X T txn txn'"

inductive txn_step :: "ext \<Rightarrow> ('t, 's) trees \<Rightarrow> ('t, 's) txn \<Rightarrow> ('t, 's) txn \<Rightarrow> bool" for X T where
  step_op: "txn_op X T txn txn' \<Longrightarrow> txn_step X T txn txn'"
| step_Snapshot: "txn_step X T txn (snd (Txn_Snapshot txn))"
| step_Revert: "Txn_RevertToSnapshot i txn = Ret txn' \<Longrightarrow> txn_step X T txn txn'"

lemma txn_op_frame:
  assumes "txn_op X T txn txn'"
  shows "txn_snapshot txn' = txn_snapshot txn \<and> txn_snapshots txn' = txn_snapshots txn"
  using assms
proof cases
  case (op_Clean flag)
  then show ?thesis by (auto simp: CleanDeleteObjects_def Let_def bnd_eq_Ret)
qed (simp_all add: AddSealingReward_def Txn_SetBalance_def Txn_SetNonce_def AddLog_def Txn_Logs_def split: option.split)

lemma txn_step_frame:
  assumes "txn_step X T txn txn'"
  shows "txn_snapshot txn' = txn_snapshot txn \<and> (\<exists>xs. txn_snapshots txn' = txn_snapshots txn @ xs)"
  using assms
proof cases
  case step_op
  then show ?thesis using txn_op_frame by fastforce
next
  case (step_Revert i)
  then show ?thesis by (auto simp: Txn_RevertToSnapshot_def split: if_splits)
qed (simp add: Txn_Snapshot_def)

lemma txn_steps_frame:
  assumes "(txn_step X T)\<^sup>*\<^sup>* txn txn'"
  shows "txn_snapshot txn' = txn_snapshot txn \<and> (\<exists>xs. txn_snapshots txn' = txn_snapshots txn @ xs)"
  using assms by induction (use txn_step_frame in fastforce)+

lemma txn_step_ok:
  assumes "txn_step X T txn txn'" and "trees_ok T" and "txn_ok T txn"
  shows "txn_ok T txn'"
  using assms
proof cases
  case step_op
  then show ?thesis
  proof cases
    case (op_Clean flag)
    then show ?thesis using CleanDeleteObjects_effect(1) [OF assms(2,3)] by blast
  qed (simp_all add: txn_ok_ops txn_ok_aux txn_ok_SetStorage assms(2,3))
next
  case (step_Revert i)
  then show ?thesis using txn_ok_Revert [OF assms(3)] by blast
qed (simp_all add: txn_ok_aux)

text \<open>
  Sequences in which reverts are properly nested, as in the calls of the transition: a revert goes back to the snapshot at the start of a
  block of operations, in which blocks may be nested; snapshots that nothing reverts to may be taken anywhere.
\<close>

inductive nested :: "ext \<Rightarrow> ('t, 's) trees \<Rightarrow> ('t, 's) txn \<Rightarrow> ('t, 's) txn \<Rightarrow> bool" for X T where
  nested_none: "nested X T txn txn"
| nested_op: "nested X T txn t1 \<Longrightarrow> txn_op X T t1 t2 \<Longrightarrow> nested X T txn t2"
| nested_Snapshot: "nested X T txn t1 \<Longrightarrow> nested X T txn (snd (Txn_Snapshot t1))"
| nested_block: "nested X T txn t1 \<Longrightarrow> nested X T (snd (Txn_Snapshot t1)) t2 \<Longrightarrow>
    Txn_RevertToSnapshot (fst (Txn_Snapshot t1)) t2 = Ret t3 \<Longrightarrow> nested X T txn t3"

lemma nested_steps: "nested X T txn txn' \<Longrightarrow> (txn_step X T)\<^sup>*\<^sup>* txn txn'"
proof (induction rule: nested.induct)
  case (nested_block txn t1 t2 t3)
  have "txn_step X T t1 (snd (Txn_Snapshot t1))" by (rule step_Snapshot)
  moreover have "txn_step X T t2 t3" using nested_block.hyps(3) by (rule step_Revert)
  ultimately show ?case using nested_block.IH by (meson rtranclp.rtrancl_into_rtrancl rtranclp_trans)
qed (auto intro: step_op step_Snapshot rtranclp.rtrancl_into_rtrancl)

text \<open>
  C13: A block of operations can be undone. A snapshot can be reverted to after any properly nested sequence of operations, snapshots and
  reverts: the number it returned is valid, and reverting to it brings back the tree of the moment it was taken, and with it every account,
  the logs and the refund. (Reverts out of order are excluded: they can overwrite logs, see \<open>Log_Slices\<close>.)
\<close>

theorem revert_restores:
  assumes "nested X T (snd (Txn_Snapshot txn)) txn'"
  shows "\<exists>txn''. Txn_RevertToSnapshot (fst (Txn_Snapshot txn)) txn' = Ret txn'' \<and>
    txn_txn txn'' = txn_txn txn \<and> txn_snapshot txn'' = txn_snapshot txn \<and> account_view T txn'' = account_view T txn \<and>
    tree_logs T txn'' = tree_logs T txn \<and> Txn_GetRefund T txn'' = Txn_GetRefund T txn"
proof -
  obtain xs where xs: "txn_snapshots txn' = txn_snapshots txn @ [txn_txn txn] @ xs" "txn_snapshot txn' = txn_snapshot txn"
    using txn_steps_frame [OF nested_steps [OF assms]] by (auto simp: Txn_Snapshot_def)
  let ?t = "txn'\<lparr>txn_txn := txn_txn txn\<rparr>"
  have "Txn_RevertToSnapshot (fst (Txn_Snapshot txn)) txn' = Ret ?t"
    using xs(1) by (simp add: Txn_Snapshot_def Txn_RevertToSnapshot_def)
  moreover have "getStateObject T ?t a = getStateObject T txn a" for a
    using xs(2) by (simp add: getStateObject_def cong: option.case_cong)
  then have "account_view T ?t = account_view T txn" using xs(2) by (intro ext account_view_cong) simp_all
  ultimately show ?thesis using xs(2) by (auto simp: tree_logs_def Txn_GetRefund_def)
qed

theorem revert_restores_witness:
  "nested ext0 al_trees (snd (Txn_Snapshot (newTxn al_trees snap0)))
     (Txn_AddBalance ext0 al_trees 0xbb 3 (snd (Txn_Snapshot (newTxn al_trees snap0)))) \<and>
   (\<exists>txn''. Txn_RevertToSnapshot 0 (Txn_AddBalance ext0 al_trees 0xbb 3 (snd (Txn_Snapshot (newTxn al_trees snap0)))) = Ret txn'' \<and>
     txn_txn txn'' = rx_new (tr_state al_trees))"
proof -
  let ?s = "snd (Txn_Snapshot (newTxn al_trees snap0))"
  have "nested ext0 al_trees ?s (Txn_AddBalance ext0 al_trees 0xbb 3 ?s)"
    by (rule nested_op [OF nested_none op_AddBalance])
  with revert_restores [OF this] show ?thesis by (auto simp: Txn_Snapshot_def newTxn_def)
qed

text \<open>
  C19: The entries of the tree keep their types: objects under addresses, logs and refund under their indices, in
  the current tree and in every snapshot, through any sequence of operations. So the type assertions
  of the code never panic.
\<close>

theorem txn_types:
  assumes "trees_ok T" and "(txn_step X T)\<^sup>*\<^sup>* (newTxn T sn) txn"
  shows "txn_ok T txn"
  using assms(2) by induction (auto intro: txn_step_ok [OF _ assms(1)] txn_ok_new [OF assms(1)])

theorem txn_types_witness:
  "trees_ok al_trees \<and> (txn_step ext0 al_trees)\<^sup>*\<^sup>* (newTxn al_trees snap0) (Txn_AddBalance ext0 al_trees 0xbb 3 (newTxn al_trees snap0)) \<and>
   txn_ok al_trees (Txn_AddBalance ext0 al_trees 0xbb 3 (newTxn al_trees snap0))"
proof -
  have "(txn_step ext0 al_trees)\<^sup>*\<^sup>* (newTxn al_trees snap0) (Txn_AddBalance ext0 al_trees 0xbb 3 (newTxn al_trees snap0))"
    by (intro r_into_rtranclp step_op op_AddBalance)
  with txn_types [OF trees_ok_al this] show ?thesis by simp
qed

section \<open>End of a transaction and commit\<close>

text \<open>
  C18: \<open>CleanDeleteObjects\<close> never panics. Afterwards the accounts that committed suicide, and the empty ones if that is
  asked for, are gone, every other account and the logs are unchanged, and the refund counter is back
  to zero.
\<close>

theorem CleanDeleteObjects_correct:
  assumes "trees_ok T" and "txn_ok T txn"
  shows "\<exists>txn'. CleanDeleteObjects X T flag txn = Ret txn' \<and> Txn_GetRefund T txn' = 0 \<and> tree_logs T txn' = tree_logs T txn \<and>
    (\<forall>a. getStateObject T txn' a =
      (case rx_get (tr_state T) (txn_txn txn) (Address_Bytes a) of
         Some (EntryObj obj) \<Rightarrow> if so_Suicide obj \<or> stateObject_Empty X obj \<and> flag then None else getStateObject T txn a
       | _ \<Rightarrow> getStateObject T txn a))"
proof -
  obtain txn' where c: "CleanDeleteObjects X T flag txn = Ret txn'" using CleanDeleteObjects_spec [OF assms, of X flag] by blast
  note e = CleanDeleteObjects_effect [OF assms c]
  have "getStateObject T txn' a =
      (case rx_get (tr_state T) (txn_txn txn) (Address_Bytes a) of
         Some (EntryObj obj) \<Rightarrow> if so_Suicide obj \<or> stateObject_Empty X obj \<and> flag then None else getStateObject T txn a
       | _ \<Rightarrow> getStateObject T txn a)" for a
    by (auto simp: e(4) doomed_def split: option.split entry.split)
  with c e(2,3) show ?thesis by blast
qed

theorem CleanDeleteObjects_correct_witness:
  "trees_ok al_trees \<and> txn_ok al_trees (Txn_TouchAccount ext0 al_trees 0xbb (newTxn al_trees snap0)) \<and>
   (\<exists>txn'. CleanDeleteObjects ext0 al_trees True (Txn_TouchAccount ext0 al_trees 0xbb (newTxn al_trees snap0)) = Ret txn' \<and>
     getStateObject al_trees txn' 0xbb = None)"
proof -
  let ?t = "Txn_TouchAccount ext0 al_trees 0xbb (newTxn al_trees snap0)"
  have ok: "txn_ok al_trees ?t" by (intro txn_ok_ops txn_ok_new trees_ok_al)
  have n: "getStateObject al_trees (newTxn al_trees snap0) 0xbb = None"
    by (simp add: getStateObject_def newTxn_def snap0_def al_trees_def al_radix_def)
  have "rx_get (tr_state al_trees) (txn_txn ?t) (Address_Bytes 0xbb) = Some (EntryObj (newStateObject ext0))"
    by (simp add: Txn_TouchAccount_def upsert_True trees_okD [OF trees_ok_al] object_or_new_def n)
  with CleanDeleteObjects_correct [OF trees_ok_al ok, of ext0 True] ok show ?thesis
    by (auto simp: stateObject_Empty_def newStateObject_def)
qed

lemma walk_get: "trees_ok T \<Longrightarrow> (k, v) \<in> set (rx_walk (tr_state T) t) \<longleftrightarrow> rx_get (tr_state T) t k = Some v"
  using map_of_eq_Some_iff [OF trees_okD(4)] trees_okD(5) by metis

lemma store_walk_get: "trees_ok T \<Longrightarrow> (k, v) \<in> set (rx_walk (tr_store T) u) \<longleftrightarrow> rx_get (tr_store T) u k = Some v"
  unfolding trees_ok_def radix_ok_def by (metis map_of_eq_Some_iff)

lemma in_Commit:
  assumes "trees_ok T" and "txn_ok T txn"
  shows "obj \<in> set (Txn_Commit T txn) \<longleftrightarrow>
    (\<exists>a o'. rx_get (tr_state T) (txn_txn txn) (Address_Bytes a) = Some (EntryObj o') \<and> obj = commit_object T (Address_Bytes a) o')"
proof -
  have "obj \<in> set (Txn_Commit T txn) \<longleftrightarrow> (\<exists>k o'. rx_get (tr_state T) (txn_txn txn) k = Some (EntryObj o') \<and> obj = commit_object T k o')"
    by (fastforce simp: Txn_Commit_def walk_get [OF assms(1), symmetric] split: entry.splits)
  also have "\<dots> \<longleftrightarrow> (\<exists>a o'. rx_get (tr_state T) (txn_txn txn) (Address_Bytes a) = Some (EntryObj o') \<and> obj = commit_object T (Address_Bytes a) o')"
    using assms(2) unfolding txn_ok_def tree_typed_def by blast
  finally show ?thesis .
qed

lemma distinct_Commit:
  assumes "trees_ok T" and "txn_ok T txn"
  shows "distinct (map ob_Address (Txn_Commit T txn))"
proof -
  let ?w = "rx_walk (tr_state T) (txn_txn txn)"
  have key: "\<exists>a. k = Address_Bytes a" if "(k, EntryObj obj) \<in> set ?w" for k obj
    using that assms(2) walk_get [OF assms(1)] unfolding txn_ok_def tree_typed_def by metis
  have "map ob_Address [commit_object T k a. (k, EntryObj a) \<leftarrow> w] = [BytesToAddress k. (k, EntryObj a) \<leftarrow> w]" for w
    by (induction w) (auto simp: commit_object_def split: entry.split)
  moreover have "distinct [BytesToAddress k. (k, EntryObj a) \<leftarrow> w]" if "distinct (map fst w)" "set w \<subseteq> set ?w" for w
    using that
  proof (induction w)
    case (Cons p w)
    obtain k e where p: "p = (k, e)" by force
    have "BytesToAddress k \<noteq> BytesToAddress k'" if "e = EntryObj o'" "(k', EntryObj a) \<in> set w" for o' k' a
      using that Cons.prems key [of k o'] key [of k' a] p by (force simp: image_iff)
    then have "BytesToAddress k \<notin> set [BytesToAddress k. (k, EntryObj a) \<leftarrow> w]" if "e = EntryObj o'" for o'
      using that by (fastforce split: entry.splits)
    then show ?case using Cons p by (cases e) simp_all
  qed simp
  ultimately show ?thesis using trees_okD(4) [OF assms(1)] by (simp add: Txn_Commit_def)
qed

text \<open>What the changed slots of a committed object say about a slot: nothing, or its new value.\<close>

definition committed_slot :: "Object \<Rightarrow> hash \<Rightarrow> hash option" where
  "committed_slot obj k =
     map_of (map (\<lambda>st. (sto_Key st, if sto_Deleted st then 0 else BytesToHash (sto_Val st))) (ob_Storage obj)) (Hash_Bytes k)"

lemma committed_slot_object:
  assumes "trees_ok T" and "\<not> so_Deleted o'"
  shows "committed_slot (commit_object T key o') k =
    (case so_Txn o' of
       None \<Rightarrow> None
     | Some t \<Rightarrow> map_option (\<lambda>v. case v of None \<Rightarrow> 0 | Some val \<Rightarrow> BytesToHash val) (rx_get (tr_store T) t (Hash_Bytes k)))"
proof (cases "so_Txn o'")
  case None
  then show ?thesis by (simp add: committed_slot_def commit_object_def commit_storage_def)
next
  case (Some t)
  let ?w = "rx_walk (tr_store T) t" and ?val = "\<lambda>v. case v of None \<Rightarrow> 0 | Some val \<Rightarrow> BytesToHash val"
  have "map (\<lambda>st. (sto_Key st, if sto_Deleted st then 0 else BytesToHash (sto_Val st))) (commit_storage T (Some t)) =
      map (\<lambda>(k, v). (k, ?val v)) ?w"
    by (auto simp: commit_storage_def split: option.split)
  moreover have "map_of ?w = rx_get (tr_store T) t" using assms(1) by (simp add: trees_ok_def radix_ok_def)
  ultimately show ?thesis
    using Some assms(2) map_of_map [of ?val ?w] by (simp add: committed_slot_def commit_object_def)
qed

text \<open>
  C17: A commit hands over what was seen during the transaction: an object for each account that was written, and exactly one per
  address. It is marked deleted exactly when the account no longer exists. Otherwise its nonce, balance, code hash and storage root are those of
  the account; the code the account has is the code of the object if that is marked as changed, and the code stored under the
  hash if not; and the value of every slot is the one among the changed slots of the object, and the one stored under the root if the slot
  is not among them.
\<close>

theorem Commit_correct:
  assumes "trees_ok T" and "txn_ok T txn"
  shows "(\<forall>obj \<in> set (Txn_Commit T txn). ob_Deleted obj = (\<not> Txn_Exist T txn (ob_Address obj)) \<and>
      (\<not> ob_Deleted obj \<longrightarrow> Txn_GetNonce T txn (ob_Address obj) = ob_Nonce obj \<and>
        Txn_GetBalance T txn (ob_Address obj) = \<bar>ob_Balance obj\<bar> \<and> Txn_GetCodeHash T txn (ob_Address obj) = ob_CodeHash obj \<and>
        map_option acc_Root (Txn_GetAccount T txn (ob_Address obj)) = Some (ob_Root obj) \<and>
        Txn_GetCode T txn (ob_Address obj) =
          (if ob_DirtyCode obj then ob_Code obj else fst (snap_GetCode (txn_snapshot txn) (ob_CodeHash obj))) \<and>
        (\<forall>k. Txn_GetState T txn (ob_Address obj) k =
          (case committed_slot obj k of Some v \<Rightarrow> v | None \<Rightarrow> snap_GetStorage (txn_snapshot txn) (ob_Root obj) k)))) \<and>
    distinct (map ob_Address (Txn_Commit T txn)) \<and>
    (\<forall>a. (\<exists>obj \<in> set (Txn_Commit T txn). ob_Address obj = a) \<longleftrightarrow> rx_get (tr_state T) (txn_txn txn) (Address_Bytes a) \<noteq> None)"
proof (intro conjI ballI allI impI)
  fix obj
  assume "obj \<in> set (Txn_Commit T txn)"
  then obtain a o' where g: "rx_get (tr_state T) (txn_txn txn) (Address_Bytes a) = Some (EntryObj o')"
      and obj: "obj = commit_object T (Address_Bytes a) o'"
    using in_Commit [OF assms] by blast
  have a: "ob_Address obj = a" and d: "ob_Deleted obj = so_Deleted o'" by (simp_all add: obj commit_object_def)
  have get: "getStateObject T txn a = (if so_Deleted o' then None else Some (stateObject_Copy o'))"
    using g by (simp add: getStateObject_def)
  show "ob_Deleted obj = (\<not> Txn_Exist T txn (ob_Address obj))" by (simp add: a d Txn_Exist_def get)
  assume nd: "\<not> ob_Deleted obj"
  show "Txn_GetNonce T txn (ob_Address obj) = ob_Nonce obj" "Txn_GetBalance T txn (ob_Address obj) = \<bar>ob_Balance obj\<bar>"
    "Txn_GetCodeHash T txn (ob_Address obj) = ob_CodeHash obj" "map_option acc_Root (Txn_GetAccount T txn (ob_Address obj)) = Some (ob_Root obj)"
    "Txn_GetCode T txn (ob_Address obj) =
      (if ob_DirtyCode obj then ob_Code obj else fst (snap_GetCode (txn_snapshot txn) (ob_CodeHash obj)))"
    using nd by (simp_all add: a d Txn_GetNonce_def Txn_GetBalance_def Txn_GetCodeHash_def Txn_GetAccount_def Txn_GetCode_def get
        stateObject_Copy_def Account_Copy_def obj commit_object_def)
  show "Txn_GetState T txn (ob_Address obj) k =
      (case committed_slot obj k of Some v \<Rightarrow> v | None \<Rightarrow> snap_GetStorage (txn_snapshot txn) (ob_Root obj) k)" for k
    using nd a d committed_slot_object [OF assms(1), of o' "Address_Bytes a" k]
    by (auto simp: Txn_GetState_def get stateObject_Copy_def Account_Copy_def obj commit_object_def Let_def split: option.splits)
next
  show "distinct (map ob_Address (Txn_Commit T txn))" by (rule distinct_Commit [OF assms])
next
  fix a
  show "(\<exists>obj \<in> set (Txn_Commit T txn). ob_Address obj = a) \<longleftrightarrow> rx_get (tr_state T) (txn_txn txn) (Address_Bytes a) \<noteq> None"
  proof
    assume "\<exists>obj \<in> set (Txn_Commit T txn). ob_Address obj = a"
    then show "rx_get (tr_state T) (txn_txn txn) (Address_Bytes a) \<noteq> None"
      using in_Commit [OF assms] by (auto simp: commit_object_def)
  next
    assume "rx_get (tr_state T) (txn_txn txn) (Address_Bytes a) \<noteq> None"
    then obtain o' where g: "rx_get (tr_state T) (txn_txn txn) (Address_Bytes a) = Some (EntryObj o')"
      using assms(2) unfolding txn_ok_def tree_typed_def by blast
    then have "commit_object T (Address_Bytes a) o' \<in> set (Txn_Commit T txn)" using in_Commit [OF assms] by blast
    then show "\<exists>obj \<in> set (Txn_Commit T txn). ob_Address obj = a" by (rule bexI [rotated]) (simp add: commit_object_def)
  qed
qed

theorem Commit_correct_witness:
  "trees_ok al_trees \<and> txn_ok al_trees (Txn_AddBalance ext0 al_trees 0xbb 3 (newTxn al_trees snap0)) \<and>
   (\<exists>obj \<in> set (Txn_Commit al_trees (Txn_AddBalance ext0 al_trees 0xbb 3 (newTxn al_trees snap0))). ob_Address obj = 0xbb)"
proof -
  let ?t = "Txn_AddBalance ext0 al_trees 0xbb 3 (newTxn al_trees snap0)"
  have ok: "txn_ok al_trees ?t" by (intro txn_ok_ops txn_ok_new trees_ok_al)
  have "rx_get (tr_state al_trees) (txn_txn ?t) (Address_Bytes 0xbb) \<noteq> None"
    by (simp add: Txn_AddBalance_def upsert_True trees_okD [OF trees_ok_al])
  then have "\<exists>obj \<in> set (Txn_Commit al_trees ?t). ob_Address obj = 0xbb"
    by (rule Commit_correct [OF trees_ok_al ok, THEN conjunct2, THEN conjunct2, THEN spec, THEN iffD2])
  with ok show ?thesis by simp
qed

end
