(* ===== verification/Archive_Txn.thy ===== *)
theory Archive_Txn
  imports Itrie_State_Props Txn_Props
begin

text \<open>
  The transient state over the archive: the objects that \<open>Txn.Commit\<close> hands over to \<open>Snapshot.Commit\<close>, and what the next
  block sees in the new snapshot.
\<close>

text \<open>A snapshot of the interface answers \<open>GetAccount\<close> as the archive does for the trie.\<close>

definition sees :: "ext \<Rightarrow> trie \<Rightarrow> snapshot \<Rightarrow> bool" where
  "sees X t sn \<longleftrightarrow>
     (\<forall>a. snap_GetAccount sn a = (case account_of X t a of Inl _ \<Rightarrow> Inl () | Inr acc \<Rightarrow> Inr acc))"

lemma fold_obj_value:
  "(\<exists>p \<in> set ps. ob_Address (fst p) = a \<and> fold (obj_value a) ps v = obj_value a p v) \<or>
   (\<forall>p \<in> set ps. ob_Address (fst p) \<noteq> a) \<and> fold (obj_value a) ps v = v"
proof (induction ps rule: rev_induct)
  case (snoc p ps)
  then show ?case by (cases "ob_Address (fst p) = a") (auto simp: obj_value_def)
qed simp

lemma Commit_addresses:
  assumes "trees_ok T" and "txn_ok T txn"
  shows "a \<in> ob_Address ` set (Txn_Commit T txn) \<longleftrightarrow> rx_get (tr_state T) (txn_txn txn) (Address_Bytes a) \<noteq> None"
proof
  assume "a \<in> ob_Address ` set (Txn_Commit T txn)"
  then show "rx_get (tr_state T) (txn_txn txn) (Address_Bytes a) \<noteq> None"
    using in_Commit [OF assms] by (auto simp: commit_object_def)
next
  assume "rx_get (tr_state T) (txn_txn txn) (Address_Bytes a) \<noteq> None"
  then obtain o' where "rx_get (tr_state T) (txn_txn txn) (Address_Bytes a) = Some (EntryObj o')"
    using assms(2) unfolding txn_ok_def tree_typed_def by blast
  then have "commit_object T (Address_Bytes a) o' \<in> set (Txn_Commit T txn)" using in_Commit [OF assms] by blast
  moreover have "ob_Address (commit_object T (Address_Bytes a) o') = a" by (simp add: commit_object_def)
  ultimately show "a \<in> ob_Address ` set (Txn_Commit T txn)" by force
qed

lemma Commit_object:
  assumes "trees_ok T" and "txn_ok T txn" and "obj \<in> set (Txn_Commit T txn)"
  shows "\<exists>o'. rx_get (tr_state T) (txn_txn txn) (Address_Bytes (ob_Address obj)) = Some (EntryObj o') \<and>
    obj = commit_object T (Address_Bytes (ob_Address obj)) o'"
  using in_Commit [OF assms(1,2)] assms(3) by (auto simp: commit_object_def)

text \<open>What the getters see of an account: its existence, nonce, balance and code hash.\<close>

definition seen_account :: "('t, 's) trees \<Rightarrow> ('t, 's) txn \<Rightarrow> address \<Rightarrow> bool \<times> u64 \<times> int \<times> hash" where
  "seen_account T txn a = (Txn_Exist T txn a, Txn_GetNonce T txn a, Txn_GetBalance T txn a, Txn_GetCodeHash T txn a)"

lemma seen_account_new:
  assumes "trees_ok T"
  shows "seen_account T (newTxn T sn) a =
    (case snap_GetAccount sn a of
       Inr (Some acc) \<Rightarrow> (True, acc_Nonce acc, \<bar>acc_Balance acc\<bar>, BytesToHash (acc_CodeHash acc))
     | _ \<Rightarrow> (False, 0, 0, 0))"
  using trees_okD(1) [OF assms]
  by (simp add: seen_account_def Txn_Exist_def Txn_GetNonce_def Txn_GetBalance_def Txn_GetCodeHash_def getStateObject_def newTxn_def
      Account_Copy_def split: sum.split option.split)

lemma seen_account_old:
  assumes "trees_ok T" and "rx_get (tr_state T) (txn_txn txn) (Address_Bytes a) = None"
  shows "seen_account T txn a = seen_account T (newTxn T (txn_snapshot txn)) a"
proof -
  have "getStateObject T txn a = getStateObject T (newTxn T (txn_snapshot txn)) a"
    using assms(2) trees_okD(1) [OF assms(1)] by (simp add: getStateObject_def newTxn_def)
  then show ?thesis by (simp add: seen_account_def Txn_Exist_def Txn_GetNonce_def Txn_GetBalance_def Txn_GetCodeHash_def)
qed

lemma seen_account_obj:
  assumes "rx_get (tr_state T) (txn_txn txn) (Address_Bytes a) = Some (EntryObj o')" and "obj = commit_object T (Address_Bytes a) o'"
  shows "seen_account T txn a =
    (if ob_Deleted obj then (False, 0, 0, 0) else (True, ob_Nonce obj, \<bar>ob_Balance obj\<bar>, ob_CodeHash obj))"
  using assms
  by (simp add: seen_account_def Txn_Exist_def Txn_GetNonce_def Txn_GetBalance_def Txn_GetCodeHash_def getStateObject_def
      stateObject_Copy_def Account_Copy_def commit_object_def)

text \<open>
  C26: What a block has written is what the next block reads. The objects that the transient state commits to the archive give a
  snapshot in which a new transient state sees, for every address, the same existence, nonce, balance
  and code hash as the old one did at the end.
\<close>

theorem next_block_sees_commit:
  assumes "rlp_ok X" and "hash_ok X" and "lru_ok L view" and "trees_ok T" and "txn_ok T txn"
    and "sees X snap (txn_snapshot txn)" and "trie_inv X 32 snap" and "tri_epoch snap \<noteq> - 1"
    and "cache_ok X view (length (Txn_Commit T txn)) (st_cache s)"
    and "\<forall>obj \<in> set (Txn_Commit T txn). obj_known view (st_cache s) obj \<and> 0 \<le> ob_Balance obj"
  shows "\<exists>snap' root s'. Snapshot_Commit X G L (Txn_Commit T txn) snap s = Ret (snap', root, s') \<and>
    (\<forall>sn a. sees X snap' sn \<and> (\<forall>obj \<in> set (Txn_Commit T txn). addr_free X a obj) \<longrightarrow>
      seen_account T (newTxn T sn) a = seen_account T txn a)"
proof -
  let ?objs = "Txn_Commit T txn"
  from commit_accounts [OF assms(1-3,7-10)] obtain snap' root s' rs where
    c: "Snapshot_Commit X G L ?objs snap s = Ret (snap', root, s')" "length rs = length ?objs"
      "\<And>a. (\<forall>obj \<in> set ?objs. addr_free X a obj) \<Longrightarrow> account_of X snap' a = fold (obj_value a) (zip ?objs rs) (account_of X snap a)"
    by blast
  have "seen_account T (newTxn T sn) a = seen_account T txn a" if sn: "sees X snap' sn" and a: "\<forall>obj \<in> set ?objs. addr_free X a obj" for sn a
  proof (rule disjE [OF fold_obj_value [of "zip ?objs rs" a "account_of X snap a"]])
    assume "\<exists>p \<in> set (zip ?objs rs). ob_Address (fst p) = a \<and> fold (obj_value a) (zip ?objs rs) (account_of X snap a) = obj_value a p (account_of X snap a)"
    then obtain obj r where p: "(obj, r) \<in> set (zip ?objs rs)" "ob_Address obj = a" "account_of X snap' a = obj_value a (obj, r) (account_of X snap a)"
      using c(3) [OF a] by auto
    then have obj: "obj \<in> set ?objs" by (auto dest: set_zip_leftD)
    obtain o' where o': "rx_get (tr_state T) (txn_txn txn) (Address_Bytes a) = Some (EntryObj o')" "obj = commit_object T (Address_Bytes a) o'"
      using Commit_object [OF assms(4,5) obj] p(2) by blast
    show ?thesis
      using sn p(2,3) by (simp add: seen_account_new [OF assms(4)] seen_account_obj [OF o'] sees_def obj_value_def obj_account_def)
  next
    assume n: "(\<forall>p \<in> set (zip ?objs rs). ob_Address (fst p) \<noteq> a) \<and> fold (obj_value a) (zip ?objs rs) (account_of X snap a) = account_of X snap a"
    have "a \<notin> ob_Address ` set ?objs"
    proof
      assume "a \<in> ob_Address ` set ?objs"
      then obtain i where "i < length ?objs" "ob_Address (?objs ! i) = a" by (metis image_iff in_set_conv_nth)
      then show False using n c(2) by (metis fst_conv in_set_zip length_zip min.idem nth_mem nth_zip)
    qed
    then have "rx_get (tr_state T) (txn_txn txn) (Address_Bytes a) = None" using Commit_addresses [OF assms(4,5)] by blast
    moreover have "snap_GetAccount sn a = snap_GetAccount (txn_snapshot txn) a" using sn assms(6) n c(3) [OF a] by (simp add: sees_def)
    ultimately show ?thesis by (simp add: seen_account_old [OF assms(4)] seen_account_new [OF assms(4)])
  qed
  with c(1) show ?thesis by blast
qed

end
