(* ===== verification/Itrie_Storage.thy ===== *)
theory Itrie_Storage
  imports Itrie_State_Props
begin

text \<open>
  The interface \<open>Storage\<close> (\<open>immutable-trie/storage.go\<close>) as a locale, interpreted on the storage in memory and on the one in
  a database (\<open>immutable-trie/leveldb/leveldb.go\<close>). The database is third-party code: a record of functions with the
  laws \<open>leveldb_ok\<close> of a database without failures. The nodes of tries are stored under hashes, so the contract
  is about keys of 32 bytes; the database keeps code in the same key space, under longer keys.
\<close>

text \<open>The code under a hash after one more object.\<close>

definition code_value :: "hash \<Rightarrow> Object \<Rightarrow> (bytes \<times> bool) go \<Rightarrow> (bytes \<times> bool) go" where
  "code_value h obj c =
     (if \<not> ob_Deleted obj \<and> ob_DirtyCode obj \<and> ob_CodeHash obj = h then Ret (ob_Code obj, True) else c)"

section \<open>The contract\<close>

text \<open>
  What a batch \<open>b\<close> over a storage \<open>d\<close> amounts to is what can be read once it is written. \<open>binv\<close> holds of the batches
  with nodes only.
\<close>

locale storage =
  fixes G :: "('d, 'b) storage_impl"
    and inv :: "'d \<Rightarrow> bool"
    and binv :: "'b \<Rightarrow> bool"
  assumes put_inv: "inv d \<Longrightarrow> inv (sg_Put G k v d)"
    and get_put: "inv d \<Longrightarrow> length k = 32 \<Longrightarrow> sg_Get G q (sg_Put G k v d) = (if q = k then Ret (v, True) else sg_Get G q d)"
    and code_put: "inv d \<Longrightarrow> length k = 32 \<Longrightarrow> sg_GetCode G h (sg_Put G k v d) = sg_GetCode G h d"
    and code_inv: "inv d \<Longrightarrow> inv (sg_SetCode G h c d)"
    and new_batch: "inv d \<Longrightarrow> binv (sg_Batch G) \<and> sg_Get G q (sg_BatchWrite G (sg_Batch G) d) = sg_Get G q d \<and>
      sg_GetCode G h (sg_BatchWrite G (sg_Batch G) d) = sg_GetCode G h d"
    and write_inv: "inv d \<Longrightarrow> binv b \<Longrightarrow> inv (sg_BatchWrite G b d)"
    and bput: "inv d \<Longrightarrow> binv b \<Longrightarrow> length k = 32 \<Longrightarrow> sg_BatchPut G k v b d = (b', d') \<Longrightarrow> inv d' \<and> binv b' \<and>
      sg_Get G q (sg_BatchWrite G b' d') = (if q = k then Ret (v, True) else sg_Get G q (sg_BatchWrite G b d)) \<and>
      sg_GetCode G h (sg_BatchWrite G b' d') = sg_GetCode G h (sg_BatchWrite G b d)"
    and get_code: "inv d \<Longrightarrow> binv b \<Longrightarrow> length q = 32 \<Longrightarrow>
      sg_Get G q (sg_BatchWrite G b (sg_SetCode G h c d)) = sg_Get G q (sg_BatchWrite G b d)"
    and code_code: "inv d \<Longrightarrow> binv b \<Longrightarrow>
      sg_GetCode G h' (sg_BatchWrite G b (sg_SetCode G h c d)) = (if h' = h then Ret (c, True) else sg_GetCode G h' (sg_BatchWrite G b d))"
begin

text \<open>A batch amounts to its entries, the last one for a key counting, and does not concern code.\<close>

lemma put_nodes_view:
  assumes "inv d" and "binv b" and "\<forall>(k, v) \<in> set kvs. length k = 32" and "put_nodes G kvs b d = (b', d')"
  shows "inv d' \<and> binv b' \<and>
    sg_Get G q (sg_BatchWrite G b' d') = (case map_of (rev kvs) q of Some v \<Rightarrow> Ret (v, True) | None \<Rightarrow> sg_Get G q (sg_BatchWrite G b d)) \<and>
    sg_GetCode G h (sg_BatchWrite G b' d') = sg_GetCode G h (sg_BatchWrite G b d)"
  using assms(3,4)
proof (induction kvs arbitrary: b' d' rule: rev_induct)
  case Nil
  then show ?case using assms(1,2) by (simp add: put_nodes_def)
next
  case (snoc p kvs)
  obtain k v where p: "p = (k, v)" by (cases p)
  obtain b1 d1 where 1: "put_nodes G kvs b d = (b1, d1)" by (cases "put_nodes G kvs b d")
  then have "sg_BatchPut G k v b1 d1 = (b', d')" using snoc.prems(2) by (simp add: put_nodes_def p)
  with snoc.IH [OF _ 1] snoc.prems(1) bput [of d1 b1 k v b' d' q h] show ?case by (auto simp: p)
qed

text \<open>
  The nodes of a storage are stored under their hash. The data of a batch that is not written yet is included.
\<close>

definition intact :: "ext \<Rightarrow> 'b \<Rightarrow> 'd \<Rightarrow> bool" where
  "intact X b d \<longleftrightarrow> inv d \<and> binv b \<and>
     (\<forall>k v. length k = 32 \<longrightarrow> sg_Get G k (sg_BatchWrite G b d) = Ret (v, True) \<longrightarrow> x_keccak256 X v = k)"

text \<open>One part of a commit: nodes stay, new ones come under their hash, and \<open>f\<close> is the effect on the code.\<close>

definition stores :: "ext \<Rightarrow> (hash \<Rightarrow> (bytes \<times> bool) go \<Rightarrow> (bytes \<times> bool) go) \<Rightarrow> 'b \<Rightarrow> 'd \<Rightarrow> 'b \<Rightarrow> 'd \<Rightarrow> bool" where
  "stores X f b d b' d' \<longleftrightarrow> (intact X b d \<longrightarrow> intact X b' d' \<and>
     (\<forall>k v. length k = 32 \<longrightarrow> sg_Get G k (sg_BatchWrite G b d) = Ret (v, True) \<longrightarrow> (\<exists>v'. sg_Get G k (sg_BatchWrite G b' d') = Ret (v', True))) \<and>
     (\<forall>h. sg_GetCode G h (sg_BatchWrite G b' d') = f h (sg_GetCode G h (sg_BatchWrite G b d))))"

lemma stores_refl: "stores X (\<lambda>h c. c) b d b d"
  by (simp add: stores_def)

lemma stores_trans: "stores X f b d b1 d1 \<Longrightarrow> stores X g b1 d1 b2 d2 \<Longrightarrow> stores X (\<lambda>h c. g h (f h c)) b d b2 d2"
  unfolding stores_def by (metis (no_types))

lemma stores_nodes:
  assumes "hash_ok X" and "addressed X kvs" and "put_nodes G kvs b d = (b', d')"
  shows "stores X (\<lambda>h c. c) b d b' d'"
  unfolding stores_def
proof
  assume i: "intact X b d"
  have len: "\<forall>(k, v) \<in> set kvs. length k = 32" using assms(1,2) by (auto simp: hash_ok_def addressed_def)
  have key: "map_of (rev kvs) k = Some v \<Longrightarrow> k = x_keccak256 X v" for k v using assms(2) by (auto simp: addressed_def dest!: map_of_SomeD)
  have v: "inv d' \<and> binv b' \<and> sg_Get G k (sg_BatchWrite G b' d') =
      (case map_of (rev kvs) k of Some v \<Rightarrow> Ret (v, True) | None \<Rightarrow> sg_Get G k (sg_BatchWrite G b d)) \<and>
      sg_GetCode G h (sg_BatchWrite G b' d') = sg_GetCode G h (sg_BatchWrite G b d)" for k h
    using put_nodes_view [OF _ _ len assms(3)] i by (simp add: intact_def)
  with i key show "intact X b' d' \<and> (\<forall>k v. length k = 32 \<longrightarrow> sg_Get G k (sg_BatchWrite G b d) = Ret (v, True) \<longrightarrow>
      (\<exists>v'. sg_Get G k (sg_BatchWrite G b' d') = Ret (v', True))) \<and>
      (\<forall>h. sg_GetCode G h (sg_BatchWrite G b' d') = sg_GetCode G h (sg_BatchWrite G b d))"
    by (auto simp: intact_def split: option.splits)
qed

lemma stores_code: "stores X (\<lambda>h' c'. if h' = h then Ret (c, True) else c') b d b (sg_SetCode G h c d)"
  by (auto simp: stores_def intact_def code_inv get_code code_code)

lemma commit_root_stores:
  assumes "hash_ok X" and "commit_root X G L obj b s = Ret (root, b', s')"
  shows "stores X (\<lambda>h c. c) b (st_storage s) b' (st_storage s')"
proof -
  obtain puts d where "addressed X puts" "put_nodes G puts b (st_storage s) = (b', d)" "st_storage s' = d"
    using assms(2) unfolding commit_root_def
    by (elim bnd_RetE)
      (auto simp: Let_def AddState_def elim!: bnd_RetE split: sum.splits prod.splits dest!: NewSnapshotAt_storage Itxn_Hash_addressed)
  then show ?thesis using stores_nodes assms(1) by blast
qed

lemma commit_obj_stores:
  assumes "hash_ok X" and "commit_obj X G L obj tt b s = Ret (tt', b', s')"
  shows "stores X (\<lambda>h. code_value h obj) b (st_storage s) b' (st_storage s')"
proof (cases "ob_Deleted obj")
  case True
  then have "(\<lambda>h. code_value h obj) = (\<lambda>h c. c)" by (simp add: code_value_def fun_eq_iff)
  then show ?thesis using assms(2) True by (auto simp: commit_obj_def bnd_eq_Ret stores_refl)
next
  case False
  then obtain root s1 where r: "(if ob_Storage obj \<noteq> [] then commit_root X G L obj b s else Ret (ob_Root obj, b, s)) = Ret (root, b', s1)"
    and s': "s' = (if ob_DirtyCode obj then State_SetCode G (ob_CodeHash obj) (ob_Code obj) s1 else s1)"
    using assms(2) by (auto simp: commit_obj_def bnd_eq_Ret Let_def)
  have 1: "stores X (\<lambda>h c. c) b (st_storage s) b' (st_storage s1)"
    using r commit_root_stores [OF assms(1)] stores_refl by (auto split: if_splits)
  have "stores X (\<lambda>h. code_value h obj) b' (st_storage s1) b' (st_storage s')"
  proof (cases "ob_DirtyCode obj")
    case True
    with False have "(\<lambda>h. code_value h obj) = (\<lambda>h c. if h = ob_CodeHash obj then Ret (ob_Code obj, True) else c)"
      by (auto simp: code_value_def fun_eq_iff)
    then show ?thesis using True stores_code by (simp add: s' State_SetCode_def)
  next
    case False
    then have "(\<lambda>h. code_value h obj) = (\<lambda>h c. c)" by (simp add: code_value_def fun_eq_iff)
    then show ?thesis using False stores_refl by (simp add: s')
  qed
  from stores_trans [OF 1 this] show ?thesis .
qed

lemma commit_objs_stores:
  assumes "hash_ok X" and "commit_objs X G L objs tt b s = Ret (tt', b', s')"
  shows "stores X (\<lambda>h. fold (code_value h) objs) b (st_storage s) b' (st_storage s')"
  using assms(2)
proof (induction objs arbitrary: tt b s)
  case (Cons obj objs)
  then obtain tt1 b1 s1 where "commit_obj X G L obj tt b s = Ret (tt1, b1, s1)" "commit_objs X G L objs tt1 b1 s1 = Ret (tt', b', s')"
    by (auto simp: bnd_eq_Ret)
  then show ?case using stores_trans [OF commit_obj_stores [OF assms(1)] Cons.IH] by (simp add: o_def)
qed (auto simp: id_def intro: stores_refl)

text \<open>The whole commit: the storage at its end, with the batch written.\<close>

lemma Commit_stores:
  assumes "hash_ok X" and "Snapshot_Commit X G L objs snap s = Ret (snap', root, s')"
  shows "\<exists>b d. stores X (\<lambda>h. fold (code_value h) objs) (sg_Batch G) (st_storage s) b d \<and> st_storage s' = sg_BatchWrite G b d"
proof -
  obtain tt tt' b b' d s1 puts where "commit_objs X G L objs tt (sg_Batch G) s = Ret (tt', b, s1)" "addressed X puts"
    "put_nodes G puts b (st_storage s1) = (b', d)" "st_storage s' = sg_BatchWrite G b' d"
    using assms(2) unfolding Snapshot_Commit_def Let_def
    by (elim bnd_RetE) (auto simp: AddState_def elim!: bnd_RetE split: prod.splits dest!: Itxn_Hash_addressed)
  then show ?thesis using stores_trans [OF commit_objs_stores stores_nodes] assms(1) by blast
qed

lemma Commit_intact:
  assumes "hash_ok X" and "Snapshot_Commit X G L objs snap s = Ret (snap', root, s')" and "inv (st_storage s)"
    and "\<And>k v. length k = 32 \<Longrightarrow> sg_Get G k (st_storage s) = Ret (v, True) \<Longrightarrow> x_keccak256 X v = k"
  shows "length k = 32 \<Longrightarrow> sg_Get G k (st_storage s') = Ret (v, True) \<Longrightarrow> x_keccak256 X v = k"
    and "length k = 32 \<Longrightarrow> sg_Get G k (st_storage s) = Ret (v, True) \<Longrightarrow> \<exists>v'. sg_Get G k (st_storage s') = Ret (v', True)"
    and "sg_GetCode G h (st_storage s') = fold (code_value h) objs (sg_GetCode G h (st_storage s))"
  using Commit_stores [OF assms(1,2)] assms(3,4) new_batch [OF assms(3)] by (auto simp: stores_def intact_def)

text \<open>The keys under which a storage has a node.\<close>

definition nodes_of :: "'d \<Rightarrow> bytes set" where
  "nodes_of d = {k. length k = 32 \<and> (\<exists>v. sg_Get G k d = Ret (v, True))}"

lemma nodes_of_put:
  assumes "inv d" and "binv b" and "\<forall>(k, v) \<in> set kvs. length k = 32" and "put_nodes G kvs b d = (b', d')"
  shows "(inv d' \<and> binv b') \<and> nodes_of (sg_BatchWrite G b d) \<union> fst ` set kvs \<subseteq> nodes_of (sg_BatchWrite G b' d')"
proof -
  note v = put_nodes_view [OF assms]
  have "map_of (rev kvs) k \<noteq> None" if "k \<in> fst ` set kvs" for k using that by (simp add: map_of_eq_None_iff)
  then show ?thesis using v assms(3) by (fastforce simp: nodes_of_def split: option.splits)
qed

end

text \<open>Every storage with this contract is a store of nodes: what a batch has is there once it is written.\<close>

sublocale storage \<subseteq> nodes: node_store G "\<lambda>b d. nodes_of (sg_BatchWrite G b d)" "\<lambda>b d. inv d \<and> binv b"
proof
  show "(inv d' \<and> binv b') \<and> nodes_of (sg_BatchWrite G b d) \<union> fst ` set kvs \<subseteq> nodes_of (sg_BatchWrite G b' d')"
    if "inv d \<and> binv b" "\<forall>(k, v) \<in> set kvs. length k = 32" "put_nodes G kvs b d = (b', d')" for b d kvs b' d'
    using that by (intro nodes_of_put) simp_all
  show "(inv (sg_SetCode G h c d) \<and> binv b) \<and> nodes_of (sg_BatchWrite G b d) \<subseteq> nodes_of (sg_BatchWrite G b (sg_SetCode G h c d))"
    if "inv d \<and> binv b" for b d h c
    using that by (auto simp: nodes_of_def get_code code_inv)
qed

context storage
begin

lemma Commit_stored:
  assumes R: "rlp_ok X" and X: "hash_ok X" and L: "lru_ok L view" and I: "inv (st_storage s)"
    and t: "trie_in X (nodes_of (st_storage s)) 32 snap" "tri_epoch snap \<noteq> - 1"
    and c: "cache_in X (nodes_of (st_storage s)) view (length objs) (st_cache s)"
    and o: "\<forall>obj \<in> set objs. obj_known view (st_cache s) obj \<and> 0 \<le> ob_Balance obj"
  shows "\<exists>snap' root s' rs. Snapshot_Commit X G L objs snap s = Ret (snap', root, s') \<and>
    stored_trie X (nodes_of (st_storage s')) (BytesToHash root) snap' \<and> root = root_of X (tri_root snap') \<and> length rs = length objs \<and>
    (\<forall>(obj, r) \<in> set (zip objs rs). new_root X (nodes_of (st_storage s')) obj r) \<and>
    (\<forall>(h, t) \<in> set (view (st_cache s')). trie_in X (nodes_of (st_storage s')) 32 t) \<and>
    (\<forall>a. (\<forall>obj \<in> set objs. addr_free X a obj) \<longrightarrow> account_of X snap' a = fold (obj_value a) (zip objs rs) (account_of X snap a))"
proof -
  have n: "nodes_of (sg_BatchWrite G (sg_Batch G) (st_storage s)) = nodes_of (st_storage s)" "binv (sg_Batch G)"
    using new_batch [OF I] by (simp_all add: nodes_of_def)
  have J: "inv (st_storage s) \<and> binv (sg_Batch G)" using I n(2) by simp
  from nodes.commit_all [OF R X L J, unfolded n(1), OF t c o] show ?thesis by metis
qed

end

section \<open>Memory\<close>

lemma EncodeToHex_inj [simp]: "EncodeToHex a = EncodeToHex b \<longleftrightarrow> a = b"
proof -
  have "DecodeHex (EncodeToHex x) = (x, True)" for x by (simp add: DecodeHex_def EncodeToHex_def trim_0x_def)
  then show ?thesis by (metis prod.inject)
qed

lemma memStorage_Get_Put [simp]:
  "memStorage_Get q (memStorage_Put p v m) = (if q = p then (v, True) else memStorage_Get q m)"
  "memStorage_Get q (memBatch_Put p v m) = (if q = p then (v, True) else memStorage_Get q m)"
  by (simp_all add: memStorage_Get_def memStorage_Put_def memBatch_Put_def)

lemma Hash_String_inj [simp]: "Hash_String a = Hash_String b \<longleftrightarrow> a = b"
  by (metis Hash_Bytes_inject Hash_String_def append_same_eq hex_Decode_Encode prod.inject same_append_eq)

lemma memStorage_code [simp]:
  "memStorage_GetCode h (memStorage_Put k v m) = memStorage_GetCode h m"
  "memStorage_GetCode h (memBatch_Put k v m) = memStorage_GetCode h m"
  "memStorage_Get q (memStorage_SetCode h' c m) = memStorage_Get q m"
  "memStorage_GetCode h (memStorage_SetCode h' c m) = (if h = h' then (c, True) else memStorage_GetCode h m)"
  by (simp_all add: memStorage_GetCode_def memStorage_Put_def memBatch_Put_def memStorage_SetCode_def memStorage_Get_def)

interpretation mem: storage memory "\<lambda>m. True" "\<lambda>b. True"
  by unfold_locales (auto simp: memory_def memBatch_Write_def)

section \<open>LevelDB\<close>

text \<open>Operations return an error as a text; \<open>leveldb.Batch\<close> collects entries.\<close>

record 'd leveldb =
  ldb_OpenFile :: "string \<Rightarrow> string + 'd"
  ldb_Put :: "bytes \<Rightarrow> bytes \<Rightarrow> 'd \<Rightarrow> string option \<times> 'd"
  ldb_Get :: "bytes \<Rightarrow> 'd \<Rightarrow> string + bytes"
  ldb_Write :: "(bytes \<times> bytes) list \<Rightarrow> 'd \<Rightarrow> string option \<times> 'd"
  ldb_Close :: "'d \<Rightarrow> string option"

definition leveldb_ok :: "'d leveldb \<Rightarrow> ('d \<Rightarrow> bytes \<Rightarrow> bytes option) \<Rightarrow> bool" where
  "leveldb_ok D view \<longleftrightarrow>
     (\<forall>k v d. view (snd (ldb_Put D k v d)) = (view d)(k \<mapsto> v)) \<and>
     (\<forall>kvs d. view (snd (ldb_Write D kvs d)) = fold (\<lambda>(k, v) m. m(k \<mapsto> v)) kvs (view d)) \<and>
     (\<forall>k d. ldb_Get D k d = (case view d k of None \<Rightarrow> Inl ''leveldb: not found'' | Some v \<Rightarrow> Inr v))"

definition codePrefix :: bytes where
  "codePrefix = [0x63, 0x6f, 0x64, 0x65]"

definition KVStorage_Put :: "'d leveldb \<Rightarrow> bytes \<Rightarrow> bytes \<Rightarrow> 'd \<Rightarrow> 'd" where
  "KVStorage_Put D k v d = snd (ldb_Put D k v d)"

definition KVStorage_Get :: "'d leveldb \<Rightarrow> bytes \<Rightarrow> 'd \<Rightarrow> (bytes \<times> bool) go" where
  "KVStorage_Get D k d =
     (case ldb_Get D k d of
        Inl err \<Rightarrow> if err = ''leveldb: not found'' then Ret ([], False) else Panic
      | Inr data \<Rightarrow> Ret (data, True))"

definition KVStorage_SetCode :: "'d leveldb \<Rightarrow> hash \<Rightarrow> bytes \<Rightarrow> 'd \<Rightarrow> 'd" where
  "KVStorage_SetCode D h code d = KVStorage_Put D (codePrefix @ Hash_Bytes h) code d"

definition KVStorage_GetCode :: "'d leveldb \<Rightarrow> hash \<Rightarrow> 'd \<Rightarrow> (bytes \<times> bool) go" where
  "KVStorage_GetCode D h d = KVStorage_Get D (codePrefix @ Hash_Bytes h) d"

definition KVStorage_Batch :: "(bytes \<times> bytes) list" where
  "KVStorage_Batch = []"

definition KVBatch_Put :: "bytes \<Rightarrow> bytes \<Rightarrow> (bytes \<times> bytes) list \<Rightarrow> (bytes \<times> bytes) list" where
  "KVBatch_Put k v b = b @ [(k, v)]"

definition KVBatch_Write :: "'d leveldb \<Rightarrow> (bytes \<times> bytes) list \<Rightarrow> 'd \<Rightarrow> 'd" where
  "KVBatch_Write D b d = snd (ldb_Write D b d)"

definition KVStorage_Close :: "'d leveldb \<Rightarrow> 'd \<Rightarrow> string option" where
  "KVStorage_Close D d = ldb_Close D d"

definition NewLevelDBStorage :: "'d leveldb \<Rightarrow> string \<Rightarrow> string + 'd" where
  "NewLevelDBStorage D path = (case ldb_OpenFile D path of Inl err \<Rightarrow> Inl err | Inr db \<Rightarrow> Inr db)"

definition leveldb_storage :: "'d leveldb \<Rightarrow> ('d, (bytes \<times> bytes) list) storage_impl" where
  "leveldb_storage D =
     \<lparr>sg_Put = KVStorage_Put D, sg_Get = KVStorage_Get D, sg_Batch = KVStorage_Batch,
      sg_BatchPut = (\<lambda>k v b d. (KVBatch_Put k v b, d)), sg_BatchWrite = KVBatch_Write D,
      sg_SetCode = KVStorage_SetCode D, sg_GetCode = KVStorage_GetCode D, sg_Close = KVStorage_Close D\<rparr>"

lemma KVStorage_view:
  assumes "leveldb_ok D view"
  shows "KVStorage_Get D q d = Ret (case view d q of None \<Rightarrow> ([], False) | Some v \<Rightarrow> (v, True))"
    and "view (KVStorage_Put D k v d) = (view d)(k \<mapsto> v)"
    and "view (KVBatch_Write D b d) = view d ++ map_of (rev b)"
proof -
  show "view (KVStorage_Put D k v d) = (view d)(k \<mapsto> v)"
    using assms by (simp add: KVStorage_Put_def leveldb_ok_def)
  show "KVStorage_Get D q d = Ret (case view d q of None \<Rightarrow> ([], False) | Some v \<Rightarrow> (v, True))"
    using assms by (simp add: KVStorage_Get_def leveldb_ok_def split: option.split)
  have "fold (\<lambda>(k, v) m. m(k \<mapsto> v)) b m = m ++ map_of (rev b)" for m :: "bytes \<Rightarrow> bytes option"
    by (induction b arbitrary: m) (auto simp: map_add_def fun_eq_iff split: option.split)
  then show "view (KVBatch_Write D b d) = view d ++ map_of (rev b)"
    using assms by (simp add: KVBatch_Write_def leveldb_ok_def)
qed

text \<open>Code and nodes share the keys of the database, but the keys of nodes are shorter.\<close>

lemma code_key: "length k = 32 \<Longrightarrow> k \<noteq> codePrefix @ Hash_Bytes h" "length k = 32 \<Longrightarrow> codePrefix @ Hash_Bytes h \<noteq> k"
  by (auto simp: codePrefix_def)

lemma batch_code: "\<forall>(k, v) \<in> set b. length k = 32 \<Longrightarrow> map_of (rev b) (codePrefix @ Hash_Bytes h) = None"
  using code_key(1) by (fastforce simp: map_of_eq_None_iff)

lemma leveldb_ops:
  "sg_Put (leveldb_storage D) = KVStorage_Put D" "sg_Get (leveldb_storage D) = KVStorage_Get D"
  "sg_SetCode (leveldb_storage D) = KVStorage_SetCode D" "sg_GetCode (leveldb_storage D) = KVStorage_GetCode D"
  "sg_Batch (leveldb_storage D) = []" "sg_BatchPut (leveldb_storage D) k v b d = (b @ [(k, v)], d)"
  "sg_BatchWrite (leveldb_storage D) = KVBatch_Write D"
  by (simp_all add: leveldb_storage_def KVStorage_Batch_def KVBatch_Put_def)

interpretation database: storage "leveldb_storage D" "\<lambda>d. leveldb_ok D view" "\<lambda>b. \<forall>(k, v) \<in> set b. length k = 32"
  for D :: "'d leveldb" and view
  by unfold_locales
    (auto simp: leveldb_ops KVStorage_view KVStorage_SetCode_def KVStorage_GetCode_def code_key batch_code map_add_def split: option.splits if_splits)

text \<open>A database that is a map.\<close>

definition map_db :: "(bytes \<Rightarrow> bytes option) leveldb" where
  "map_db = \<lparr>ldb_OpenFile = (\<lambda>_. Inr (\<lambda>_. None)), ldb_Put = (\<lambda>k v d. (None, d(k \<mapsto> v))),
     ldb_Get = (\<lambda>k d. case d k of None \<Rightarrow> Inl ''leveldb: not found'' | Some v \<Rightarrow> Inr v),
     ldb_Write = (\<lambda>kvs d. (None, fold (\<lambda>(k, v) m. m(k \<mapsto> v)) kvs d)), ldb_Close = (\<lambda>_. None)\<rparr>"

lemma leveldb_ok_map: "leveldb_ok map_db (\<lambda>d. d)"
  by (simp add: leveldb_ok_def map_db_def)

lemma leveldb_Get: "leveldb_ok D view \<Longrightarrow> sg_Get (leveldb_storage D) k d = Ret (v, True) \<longleftrightarrow> view d k = Some v"
  by (simp add: leveldb_ops KVStorage_view split: option.split)

text \<open>The keys of nodes in a database.\<close>

definition db_nodes :: "('d \<Rightarrow> bytes \<Rightarrow> bytes option) \<Rightarrow> 'd \<Rightarrow> bytes set" where
  "db_nodes view d = {k. length k = 32 \<and> view d k \<noteq> None}"

lemma database_nodes: "leveldb_ok D view \<Longrightarrow> database.nodes_of D d = db_nodes view d"
  by (simp add: database.nodes_of_def db_nodes_def leveldb_Get)


end
