(* ===== verification/Example_State.thy ===== *)
theory Example_State
  imports Example_Rlp Archive_Txn Itrie_Storage
begin

text \<open>
  Concrete states of the archive that satisfy the hypotheses of the properties of \<open>Itrie_State_Props\<close>: a list as the cache, an
  object with one slot, a stored node with a reference, a transaction that was hashed.
\<close>

section \<open>A cache\<close>

definition lru_list :: "(hash \<times> trie) list lru" where
  "lru_list = \<lparr>lru_New = (\<lambda>n. []),
     lru_Get = (\<lambda>h c. (map_of c h, case map_of c h of None \<Rightarrow> c | Some t \<Rightarrow> (h, t) # filter (\<lambda>p. fst p \<noteq> h) c)),
     lru_Add = (\<lambda>h t c. take 128 ((h, t) # filter (\<lambda>p. fst p \<noteq> h) c))\<rparr>"

lemma lru_ok_list [simp]: "lru_ok lru_list (\<lambda>c. c)"
  by (simp add: lru_ok_def lru_list_def)

definition state0 :: "(memStorage, (hash \<times> trie) list) State" where
  "state0 = NewArchiveState lru_list NewMemoryStorage"

lemma state0_cache [simp]: "st_cache state0 = []"
  by (simp add: state0_def NewArchiveState_def lru_list_def)

section \<open>A commit\<close>

definition object0 :: Object where
  "object0 = \<lparr>ob_Address = 0xaa, ob_CodeHash = 0, ob_Balance = 5, ob_Root = EmptyRootHash, ob_Nonce = 1, ob_Deleted = False,
     ob_DirtyCode = False, ob_Code = [], ob_Storage = [\<lparr>sto_Deleted = False, sto_Key = Hash_Bytes 5, sto_Val = Hash_Bytes 9\<rparr>]\<rparr>"

theorem commit_storage_readback_witness:
  "\<exists>root b s2. commit_root ext1 memory lru_list object0 () state0 = Ret (root, b, s2) \<and>
    (root \<noteq> EmptyRootHash \<longrightarrow>
      (\<exists>s3. Snapshot_GetStorage ext1 memory lru_list root 5 s2 =
        Ret (fold (entry_value 5) (ob_Storage object0) (slot_of ext1 (NewSnapshot ext1 memory state0) 5), s3)))"
proof (rule commit_storage_readback [where view = "\<lambda>c. c"])
  show "NewSnapshotAt ext1 memory lru_list (ob_Root object0) state0 = Ret (Inr (NewSnapshot ext1 memory state0), state0)"
    by (simp add: NewSnapshotAt_def object0_def)
  show "trie_inv ext1 32 (NewSnapshot ext1 memory state0)" "tri_epoch (NewSnapshot ext1 memory state0) \<noteq> - 1"
    by (simp_all add: NewSnapshot_def trie_inv_New)
qed (simp_all add: object0_def)

text \<open>A contract with new code and a slot, committed to an empty database.\<close>

definition object1 :: Object where
  "object1 = object0\<lparr>ob_CodeHash := 7, ob_DirtyCode := True, ob_Code := [0x60, 0]\<rparr>"

definition state1 :: "(bytes \<Rightarrow> bytes option, (hash \<times> trie) list) State" where
  "state1 = NewArchiveState lru_list (\<lambda>_. None)"


text \<open>A transient state over the empty archive with one account.\<close>

definition snap1 :: snapshot where
  "snap1 = \<lparr>snap_GetCode = (\<lambda>h. ([], False)), snap_GetStorage = (\<lambda>r k. 0), snap_GetAccount = (\<lambda>a. Inr None)\<rparr>"

definition txn1 :: "(al_state, al_store) txn" where
  "txn1 = Txn_SetBalance ext1 al_trees 0xaa 5 (newTxn al_trees snap1)"

lemma Commit_txn1:
  "Txn_Commit al_trees txn1 =
     [\<lparr>ob_Address = 0xaa, ob_CodeHash = BytesToHash (EmptyCodeHash ext1), ob_Balance = 5, ob_Root = EmptyStateHash, ob_Nonce = 0,
       ob_Deleted = False, ob_DirtyCode = False, ob_Code = [], ob_Storage = []\<rparr>]"
  by (simp add: txn1_def Txn_SetBalance_def upsertAccount_def getStateObject_def newTxn_def snap1_def al_trees_def al_radix_def
      newStateObject_def upd_account_def Txn_Commit_def commit_object_def commit_storage_def)

theorem next_block_sees_commit_witness:
  "\<exists>snap' root s'. Snapshot_Commit ext1 memory lru_list (Txn_Commit al_trees txn1) NewTrie state0 = Ret (snap', root, s') \<and>
    (\<forall>sn a. sees ext1 snap' sn \<and> (\<forall>obj \<in> set (Txn_Commit al_trees txn1). addr_free ext1 a obj) \<longrightarrow>
      seen_account al_trees (newTxn al_trees sn) a = seen_account al_trees txn1 a)"
proof (rule next_block_sees_commit [where view = "\<lambda>c. c"])
  show "txn_ok al_trees txn1" unfolding txn1_def by (intro txn_ok_ops txn_ok_new trees_ok_al)
  show "sees ext1 NewTrie (txn_snapshot txn1)"
    by (simp add: sees_def txn1_def Txn_SetBalance_def snap1_def newTxn_def account_of_def trie_inv_New)
qed (simp_all add: trie_inv_New cache_in_def obj_known_def Commit_txn1)

section \<open>A stored node with a reference\<close>

definition leaf0 :: node where
  "leaf0 = ShortNode [] [16] (Some (ValueNode False (Some (replicate 32 1))))"

definition children0 :: "node option list" where
  "children0 = no_children[3 := Some leaf0]"

definition stored0 :: "(memStorage, (hash \<times> trie) list) State" where
  "stored0 = state0\<lparr>st_storage :=
     memStorage_Put (Hash_Bytes (EmptyRootHash + 1)) (x_rlp_marshal ext1 (node_rlp ext1 (FullNode [] 0 None children0))) NewMemoryStorage\<rparr>"

lemma length_enc_bytes: "length (enc_bytes b) = 2 * length b + 1"
  by (induction b) (simp_all add: enc_bytes_def)

lemma leaf0_reference: "\<exists>b. ref_node ext1 leaf0 = RlpBytes b \<and> b \<noteq> []"
proof -
  have "compact [16] = [0x20]" by (simp add: compact_def hexToCompact_def hasTerm_def Let_def)
  then have "x_rlp_len ext1 (node_rlp ext1 leaf0) = of_nat 74"
    by (simp add: ext1_def leaf0_def node_rlp.simps slice_bytes_def length_enc_bytes del: of_nat_numeral)
  then have "ref_node ext1 leaf0 = RlpBytes (x_keccak256 ext1 (x_rlp_marshal ext1 (node_rlp ext1 leaf0)))"
    by (simp add: leaf0_def node_ref_def)
  with hasher_Hash_ok(2) [OF hash_ok_1] show ?thesis by blast
qed

theorem stored_trie_unreadable_witness:
  "(\<forall>t s'. NewSnapshotAt ext1 memory lru_list (EmptyRootHash + 1) stored0 \<noteq> Ret (Inr t, s')) \<and>
   (\<forall>key w s'. Snapshot_GetStorage ext1 memory lru_list (EmptyRootHash + 1) key stored0 \<noteq> Ret (w, s'))"
proof -
  obtain b where b: "ref_node ext1 leaf0 = RlpBytes b" "b \<noteq> []" using leaf0_reference by blast
  show ?thesis
  proof (rule stored_trie_unreadable [OF rlp_ok_1 _ _ _ _ _ b])
    show "sg_Get memory (Hash_Bytes (EmptyRootHash + 1)) (st_storage stored0) =
        Ret (x_rlp_marshal ext1 (node_rlp ext1 (FullNode [] 0 None children0)), True)" by (simp add: stored0_def memory_def)
    show "Some leaf0 \<in> set children0" by (simp add: children0_def no_children_def set_update_memI)
  qed (simp_all add: stored0_def lru_list_def children0_def no_children_def)
qed

section \<open>A transaction after its hash\<close>

definition hashed0 :: itxn where
  "hashed0 = \<lparr>itx_root = Some (FullNode (replicate 32 1) 1 None (no_children[4 := Some (two_leaf 7), 5 := Some (two_leaf 8)])),
     itx_epoch = 1, itx_storage = None, itx_batch = False\<rparr>"

theorem stale_hash_after_insert_witness:
  "\<exists>t' p p'. Itxn_Hash ext1 hashed0 = Ret (replicate 32 1, hashed0, p) \<and> Itxn_Insert [9] [1] hashed0 = Ret t' \<and>
    Itxn_Hash ext1 t' = Ret (replicate 32 1, t', p') \<and> itxn_map t' = (itxn_map hashed0)([9] := Some [1])"
proof (rule stale_hash_after_insert [OF hash_ok_1])
  show "ok_node (FullNode (replicate 32 1) (itx_epoch hashed0) None (no_children[4 := Some (two_leaf 7), 5 := Some (two_leaf 8)]))"
    by code_simp
qed (simp_all add: hashed0_def)

end
