(* ===== verification/Helper_Keccak.thy ===== *)
theory Helper_Keccak
  imports Runtime Example_Trees
begin

text \<open>
  The reusable hash object and its pool (\<open>helper/keccak.go\<close>). The sponge of \<open>golang.org/x/crypto/sha3\<close> is third-party
  code, the record \<open>sponge\<close>; \<open>sponge_ok\<close> states its documentation: what was written since the last reset is hashed,
  reading returns the hash, and writing after reading panics. A \<open>sync.Pool\<close> may return any
  object it holds or none; the choice is an argument.
\<close>

section \<open>Third-party code\<close>

record 'h sponge =
  sp_New256 :: 'h
  sp_New512 :: 'h
  sp_Write :: "bytes \<Rightarrow> 'h \<Rightarrow> 'h go"
  sp_Read :: "nat \<Rightarrow> 'h \<Rightarrow> bytes \<times> 'h"
  sp_Reset :: "'h \<Rightarrow> 'h"
  sp_Size :: "'h \<Rightarrow> nat"

text \<open>\<open>fed h\<close> is what \<open>h\<close> has been given since its last reset, \<open>None\<close> once output was read.\<close>

definition sponge_ok :: "'h sponge \<Rightarrow> ('h \<Rightarrow> bytes option) \<Rightarrow> (nat \<Rightarrow> bytes \<Rightarrow> bytes) \<Rightarrow> bool" where
  "sponge_ok S fed digest \<longleftrightarrow>
     fed (sp_New256 S) = Some [] \<and> sp_Size S (sp_New256 S) = 32 \<and> fed (sp_New512 S) = Some [] \<and> sp_Size S (sp_New512 S) = 64 \<and>
     (\<forall>h b d. fed h = Some b \<longrightarrow> (\<exists>h'. sp_Write S d h = Ret h' \<and> fed h' = Some (b @ d) \<and> sp_Size S h' = sp_Size S h)) \<and>
     (\<forall>h d. fed h = None \<longrightarrow> sp_Write S d h = Panic) \<and>
     (\<forall>h b. fed h = Some b \<longrightarrow> fst (sp_Read S (sp_Size S h) h) = digest (sp_Size S h) b) \<and>
     (\<forall>h n. length (fst (sp_Read S n h)) = n \<and> fed (snd (sp_Read S n h)) = None \<and> sp_Size S (snd (sp_Read S n h)) = sp_Size S h) \<and>
     (\<forall>h. fed (sp_Reset S h) = Some [] \<and> sp_Size S (sp_Reset S h) = sp_Size S h)"

section \<open>Keccak\<close>

record 'h Keccak =
  kc_buf :: bytes
  kc_tmp :: bytes
  kc_hash :: 'h

definition newKeccak :: "'h sponge \<Rightarrow> 'h \<Rightarrow> 'h Keccak" where
  "newKeccak S h = \<lparr>kc_buf = [], kc_tmp = replicate (sp_Size S h) 0, kc_hash = h\<rparr>"

definition NewKeccak256 :: "'h sponge \<Rightarrow> 'h Keccak" where
  "NewKeccak256 S = newKeccak S (sp_New256 S)"

definition NewKeccak512 :: "'h sponge \<Rightarrow> 'h Keccak" where
  "NewKeccak512 S = newKeccak S (sp_New512 S)"

definition Keccak_Write :: "'h sponge \<Rightarrow> bytes \<Rightarrow> 'h Keccak \<Rightarrow> 'h Keccak go" where
  "Keccak_Write S b k = bnd (sp_Write S b (kc_hash k)) (\<lambda>h. Ret (k\<lparr>kc_hash := h\<rparr>))"

definition Keccak_Reset :: "'h sponge \<Rightarrow> 'h Keccak \<Rightarrow> 'h Keccak" where
  "Keccak_Reset S k = k\<lparr>kc_buf := [], kc_hash := sp_Reset S (kc_hash k)\<rparr>"

text \<open>\<open>Read\<close> returns the buffer \<open>tmp\<close> itself, \<open>Sum\<close> a copy of it behind the destination.\<close>

definition Keccak_Read :: "'h sponge \<Rightarrow> 'h Keccak \<Rightarrow> bytes \<times> 'h Keccak" where
  "Keccak_Read S k =
     (let (tmp, h) = sp_Read S (length (kc_tmp k)) (kc_hash k); k = k\<lparr>kc_tmp := tmp, kc_hash := h\<rparr> in (kc_tmp k, k))"

definition Keccak_Sum :: "'h sponge \<Rightarrow> bytes \<Rightarrow> 'h Keccak \<Rightarrow> bytes \<times> 'h Keccak" where
  "Keccak_Sum S dst k =
     (let (tmp, h) = sp_Read S (length (kc_tmp k)) (kc_hash k); k = k\<lparr>kc_tmp := tmp, kc_hash := h\<rparr> in (dst @ kc_tmp k, k))"

definition Keccak_WriteRlp :: "'h sponge \<Rightarrow> ext \<Rightarrow> bytes \<Rightarrow> rlp \<Rightarrow> 'h Keccak \<Rightarrow> (bytes \<times> 'h Keccak) go" where
  "Keccak_WriteRlp S X dst v k =
     (let k = k\<lparr>kc_buf := x_rlp_marshal X v\<rparr> in
      bnd (Keccak_Write S (kc_buf k) k) (\<lambda>k. Ret (Keccak_Sum S dst k)))"

section \<open>The pool\<close>

definition Pool_Get :: "'h sponge \<Rightarrow> nat option \<Rightarrow> 'h Keccak list \<Rightarrow> 'h Keccak \<times> 'h Keccak list" where
  "Pool_Get S pick pool =
     (case pick of
        None \<Rightarrow> (NewKeccak256 S, pool)
      | Some i \<Rightarrow> if i < length pool then (pool ! i, take i pool @ drop (Suc i) pool) else (NewKeccak256 S, pool))"

definition Pool_Put :: "'h sponge \<Rightarrow> 'h Keccak \<Rightarrow> 'h Keccak list \<Rightarrow> 'h Keccak list" where
  "Pool_Put S k pool = Keccak_Reset S k # pool"

definition Keccak256To_pool ::
    "'h sponge \<Rightarrow> nat option \<Rightarrow> bytes \<Rightarrow> bytes \<Rightarrow> 'h Keccak list \<Rightarrow> (bytes \<times> 'h Keccak list) go" where
  "Keccak256To_pool S pick dst src pool =
     (let (h, pool) = Pool_Get S pick pool in
      bnd (Keccak_Write S src h) (\<lambda>h.
      let (dst, h) = Keccak_Sum S dst h in Ret (dst, Pool_Put S h pool)))"

text \<open>A sequence of calls, each with the choice of the pool, the destination and the source.\<close>

fun pool_calls ::
    "'h sponge \<Rightarrow> (nat option \<times> bytes \<times> bytes) list \<Rightarrow> 'h Keccak list \<Rightarrow> (bytes list \<times> 'h Keccak list) go" where
  "pool_calls S [] pool = Ret ([], pool)"
| "pool_calls S ((pick, dst, src) # cs) pool =
     bnd (Keccak256To_pool S pick dst src pool) (\<lambda>(r, pool).
     bnd (pool_calls S cs pool) (\<lambda>(rs, pool). Ret (r # rs, pool)))"

section \<open>Properties\<close>

text \<open>An object that is ready for use, with a buffer of the right size.\<close>

definition fresh :: "'h sponge \<Rightarrow> ('h \<Rightarrow> bytes option) \<Rightarrow> 'h Keccak \<Rightarrow> bool" where
  "fresh S fed k \<longleftrightarrow> fed (kc_hash k) = Some [] \<and> sp_Size S (kc_hash k) = 32 \<and> length (kc_tmp k) = 32"

lemma fresh_new: "sponge_ok S fed digest \<Longrightarrow> fresh S fed (NewKeccak256 S)"
  by (simp add: fresh_def NewKeccak256_def newKeccak_def sponge_ok_def)

text \<open>One use of an object: the hash of what was written, behind the destination; after a reset it is fresh again.\<close>

lemma fresh_use:
  assumes "sponge_ok S fed digest" and "fresh S fed k"
  obtains k' k'' where "Keccak_Write S src k = Ret k'" and "Keccak_Sum S dst k' = (dst @ digest 32 src, k'')"
    and "fresh S fed (Keccak_Reset S k'')"
proof -
  have k: "fed (kc_hash k) = Some []" "sp_Size S (kc_hash k) = 32" "length (kc_tmp k) = 32" using assms(2) by (simp_all add: fresh_def)
  obtain h where h: "sp_Write S src (kc_hash k) = Ret h" "fed h = Some src" "sp_Size S h = 32"
    using assms(1) k unfolding sponge_ok_def by (metis append_Nil)
  have r: "fst (sp_Read S 32 h) = digest 32 src" using assms(1) h unfolding sponge_ok_def by metis
  have l: "length (fst (sp_Read S 32 h)) = 32" "sp_Size S (snd (sp_Read S 32 h)) = 32"
      "\<And>h. fed (sp_Reset S h) = Some []" "\<And>h. sp_Size S (sp_Reset S h) = sp_Size S h"
    using assms(1) h(3) by (auto simp: sponge_ok_def)
  show ?thesis
    by (rule that [of "k\<lparr>kc_hash := h\<rparr>" "k\<lparr>kc_tmp := digest 32 src, kc_hash := snd (sp_Read S 32 h)\<rparr>"])
      (use h(1) k(3) r l in \<open>simp_all add: Keccak_Write_def Keccak_Sum_def Keccak_Reset_def fresh_def case_prod_beta\<close>)
qed

lemma WriteRlp_fresh:
  assumes "sponge_ok S fed digest" and "fresh S fed k"
  shows "\<exists>k'. Keccak_WriteRlp S X dst v k = Ret (dst @ digest 32 (x_rlp_marshal X v), k') \<and> fresh S fed (Keccak_Reset S k')"
proof -
  have "fresh S fed (k\<lparr>kc_buf := x_rlp_marshal X v\<rparr>)" using assms(2) by (simp add: fresh_def)
  then obtain k' k'' where "Keccak_Write S (x_rlp_marshal X v) (k\<lparr>kc_buf := x_rlp_marshal X v\<rparr>) = Ret k'"
      "Keccak_Sum S dst k' = (dst @ digest 32 (x_rlp_marshal X v), k'')" "fresh S fed (Keccak_Reset S k'')"
    by (rule fresh_use [OF assms(1)])
  then show ?thesis by (simp add: Keccak_WriteRlp_def)
qed

lemma Keccak256To_pool_step:
  assumes "sponge_ok S fed digest" and "digest 32 = x_keccak256 X" and "\<forall>k \<in> set pool. fresh S fed k"
  shows "\<exists>pool'. Keccak256To_pool S pick dst src pool = Ret (Keccak256To X dst src, pool') \<and> (\<forall>k \<in> set pool'. fresh S fed k)"
proof -
  obtain k pool1 where g: "Pool_Get S pick pool = (k, pool1)" by (cases "Pool_Get S pick pool")
  have "set pool1 \<subseteq> set pool" "k \<in> set pool \<or> k = NewKeccak256 S"
    using g by (auto simp: Pool_Get_def split: option.splits if_splits intro: in_set_takeD in_set_dropD)
  then have k: "fresh S fed k" "\<forall>k \<in> set pool1. fresh S fed k" using assms(3) fresh_new [OF assms(1)] by blast+
  obtain k' k'' where "Keccak_Write S src k = Ret k'" "Keccak_Sum S dst k' = (dst @ digest 32 src, k'')" "fresh S fed (Keccak_Reset S k'')"
    using k(1) by (rule fresh_use [OF assms(1)])
  with k(2) show ?thesis by (simp add: Keccak256To_pool_def g Pool_Put_def Keccak256To_def assms(2))
qed

text \<open>
  C39: Reusing hash objects cannot be observed. Whatever objects the pool hands out, a sequence of calls of
  \<open>Keccak256To\<close> that starts with an empty pool never panics, and each call returns its destination followed by the
  hash of its own source: nothing that an earlier call wrote into an object leaks into a later one.
\<close>

theorem keccak_pool_refines:
  assumes "sponge_ok S fed digest" and "digest 32 = x_keccak256 X"
  shows "\<exists>pool. pool_calls S calls [] = Ret (map (\<lambda>(pick, dst, src). Keccak256To X dst src) calls, pool)"
proof -
  have "\<exists>pool'. pool_calls S calls pool = Ret (map (\<lambda>(pick, dst, src). Keccak256To X dst src) calls, pool')"
    if "\<forall>k \<in> set pool. fresh S fed k" for pool
    using that
  proof (induction calls arbitrary: pool)
    case (Cons c calls)
    obtain pick dst src where c: "c = (pick, dst, src)" by (cases c)
    obtain pool1 where "Keccak256To_pool S pick dst src pool = Ret (Keccak256To X dst src, pool1)" "\<forall>k \<in> set pool1. fresh S fed k"
      using Keccak256To_pool_step [OF assms Cons.prems] by blast
    with Cons.IH [of pool1] show ?case by (auto simp: c)
  qed simp
  from this [of "[]"] show ?thesis by simp
qed

text \<open>A sponge that keeps its input.\<close>

definition sponge0 :: "(bytes option \<times> nat) sponge" where
  "sponge0 = \<lparr>sp_New256 = (Some [], 32), sp_New512 = (Some [], 64),
     sp_Write = (\<lambda>d (b, n). case b of None \<Rightarrow> Panic | Some b \<Rightarrow> Ret (Some (b @ d), n)),
     sp_Read = (\<lambda>m (b, n). (if m = 32 \<and> b \<noteq> None then x_keccak256 ext0 (the b) else replicate m 0, (None, n))),
     sp_Reset = (\<lambda>(b, n). (Some [], n)), sp_Size = snd\<rparr>"

theorem keccak_pool_refines_witness:
  "sponge_ok sponge0 fst (\<lambda>n b. if n = 32 then x_keccak256 ext0 b else replicate n 0) \<and>
   (\<exists>pool. pool_calls sponge0 [(None, [], [1]), (Some 0, [9], [2])] [] =
      Ret ([Keccak256To ext0 [] [1], Keccak256To ext0 [9] [2]], pool))"
proof -
  let ?d = "\<lambda>n b. if n = 32 then x_keccak256 ext0 b else replicate n 0"
  have ok: "sponge_ok sponge0 fst ?d"
    by (auto simp: sponge_ok_def sponge0_def ext0_def split: option.split)
  show ?thesis
    using ok keccak_pool_refines [OF ok, of ext0 "[(None, [], [1]), (Some 0, [9], [2])]"] by simp
qed

end
