(* ===== verification/Evm_Bitmap.thy ===== *)
theory Evm_Bitmap
  imports Runtime
begin

text \<open>
  The jump destination bitmap of the virtual machine (\<open>runtime/evm/bitmap.go\<close>) and the slice growth
  it shares with the machine's memory (\<open>extendByteSlice\<close> of \<open>state.go\<close>). The main result is that the
  bitmap computed in one pass over the code marks exactly the \<open>JUMPDEST\<close> bytes that start an
  instruction, as an inductive definition of instruction starts says.
\<close>

unbundle bit_operations_syntax

section \<open>Growing a slice\<close>

text \<open>
  \<open>b[:cap(b)]\<close>, then \<open>append\<close> of zeros when the capacity is too small, then \<open>b[:needLen]\<close>. What
  \<open>append\<close> allocates beyond the length it needs is zero.
\<close>

definition extendByteSlice :: "ext \<Rightarrow> slice \<Rightarrow> nat \<Rightarrow> slice" where
  "extendByteSlice X b needLen =
     (let arr = s_arr b;
          arr = (if length arr < needLen
                 then arr @ replicate (max needLen (x_append_cap X (length arr) needLen) - length arr) 0
                 else arr)
      in \<lparr>s_arr = arr, s_len = needLen\<rparr>)"

section \<open>The bitmap\<close>

definition bitmap_isSet :: "slice \<Rightarrow> nat \<Rightarrow> bool go" where
  "bitmap_isSet b i =
     (if i div 8 < s_len b then Ret ((s_arr b ! (i div 8)) AND push_bit (i mod 8) 1 \<noteq> 0) else Panic)"

definition bitmap_set :: "slice \<Rightarrow> nat \<Rightarrow> slice go" where
  "bitmap_set b i =
     (if i div 8 < s_len b
      then Ret (b\<lparr>s_arr := (s_arr b)[i div 8 := (s_arr b ! (i div 8)) OR push_bit (i mod 8) 1]\<rparr>)
      else Panic)"

definition bitmap_reset :: "slice \<Rightarrow> slice" where
  "bitmap_reset b =
     \<lparr>s_arr = list_put (s_arr b) 0 (replicate (s_len b) 0), s_len = 0\<rparr>"

definition isPushOp :: "byte \<Rightarrow> bool" where
  "isPushOp i \<longleftrightarrow> drop_bit 5 i = 3"

lemma isPushOp_iff: "isPushOp c \<longleftrightarrow> 0x60 \<le> unat c \<and> unat c < 0x80"
proof -
  have "drop_bit 5 c = 3 \<longleftrightarrow> unat (drop_bit 5 c) = 3"
    by (simp add: word_unat_eq_iff)
  also have "\<dots> \<longleftrightarrow> unat c div 32 = 3"
    unfolding unat_drop_bit_eq by (simp add: drop_bit_eq_div)
  also have "\<dots> \<longleftrightarrow> 0x60 \<le> unat c \<and> unat c < 0x80" by auto
  finally show ?thesis by (simp add: isPushOp_def)
qed

lemma push_width: "isPushOp c \<Longrightarrow> unat (c - 94) = unat c - 94"
  unfolding isPushOp_iff by unat_arith

lemma bnd_cong [fundef_cong]:
  "m = m' \<Longrightarrow> (\<And>x. m' = Ret x \<Longrightarrow> f x = f' x) \<Longrightarrow> bnd m f = bnd m' f'"
  by (cases m') simp_all

function setCode_loop :: "bytes \<Rightarrow> nat \<Rightarrow> slice \<Rightarrow> slice go" where
  "setCode_loop code i b =
     (if i < length code then
        let c = code ! i in
        if isPushOp c then setCode_loop code (i + unat (c - 0x60 + 2)) b
        else bnd (if c = 0x5B then bitmap_set b i else Ret b) (\<lambda>b. setCode_loop code (i + 1) b)
      else Ret b)"
  by pat_completeness auto
termination
  by (relation "measure (\<lambda>(code, i, b). length code - i)") (auto simp: push_width isPushOp_iff)

declare setCode_loop.simps [simp del]

definition bitmap_setCode :: "ext \<Rightarrow> slice \<Rightarrow> bytes \<Rightarrow> slice go" where
  "bitmap_setCode X b code =
     setCode_loop code 0 (extendByteSlice X b (length code div 8 + 1))"

section \<open>Instruction starts\<close>

text \<open>
  The reference: where instructions start when the code is read from its first byte, an
  instruction \<open>PUSHn\<close> taking \<open>n\<close> more bytes; a valid jump destination is a \<open>JUMPDEST\<close> there.
\<close>

definition next_instr :: "bytes \<Rightarrow> nat \<Rightarrow> nat" where
  "next_instr code i =
     (if 0x60 \<le> unat (code ! i) \<and> unat (code ! i) \<le> 0x7F then i + 1 + (unat (code ! i) - 0x5F) else i + 1)"

inductive instr_start :: "bytes \<Rightarrow> nat \<Rightarrow> bool" for code where
  first: "instr_start code 0"
| step: "instr_start code i \<Longrightarrow> i < length code \<Longrightarrow> instr_start code (next_instr code i)"

definition valid_dest :: "bytes \<Rightarrow> nat \<Rightarrow> bool" where
  "valid_dest code d \<longleftrightarrow> d < length code \<and> code ! d = 0x5B \<and> instr_start code d"

section \<open>Slice growth adds zeros\<close>

lemma extendByteSlice_ok:
  assumes "s_ok b" and "s_len b \<le> n"
  shows "s_ok (extendByteSlice X b n)"
    and "s_len (extendByteSlice X b n) = n"
    and "s_bytes (extendByteSlice X b n) = s_bytes b @ replicate (n - s_len b) 0"
proof -
  let ?arr = "s_arr b" and ?l = "s_len b"
  have zeros: "drop ?l ?arr = replicate (length ?arr - ?l) 0"
    using assms(1) by (intro replicate_eqI) (auto simp: s_ok_def)
  have arr: "?arr = s_bytes b @ replicate (length ?arr - ?l) 0"
    using zeros append_take_drop_id [of ?l ?arr] by (simp add: s_bytes_def)
  have len: "length (s_bytes b) = ?l" using assms(1) by (rule length_s_bytes)
  obtain k where k: "s_arr (extendByteSlice X b n) = s_bytes b @ replicate k 0" "n \<le> ?l + k"
  proof (cases "length ?arr < n")
    case True
    let ?c = "max n (x_append_cap X (length ?arr) n) - length ?arr"
    have "s_arr (extendByteSlice X b n) = ?arr @ replicate ?c 0"
      using True by (simp add: extendByteSlice_def Let_def)
    also have "\<dots> = s_bytes b @ replicate (length ?arr - ?l + ?c) 0"
      by (subst arr) (simp only: append_assoc replicate_add)
    finally have "s_arr (extendByteSlice X b n) = s_bytes b @ replicate (length ?arr - ?l + ?c) 0" .
    with that True assms show ?thesis by (simp add: s_ok_def)
  next
    case False
    with arr that [of "length ?arr - ?l"] assms show ?thesis
      by (simp add: extendByteSlice_def s_ok_def)
  qed
  show sl: "s_len (extendByteSlice X b n) = n"
    by (simp add: extendByteSlice_def Let_def)
  show "s_bytes (extendByteSlice X b n) = s_bytes b @ replicate (n - ?l) 0"
    using k assms(2) len by (simp add: s_bytes_def [of "extendByteSlice X b n"] sl)
  show "s_ok (extendByteSlice X b n)"
    using k assms(2) len by (auto simp: s_ok_def sl)
qed

lemma bitmap_reset_ok:
  assumes "s_ok b"
  shows "s_ok (bitmap_reset b)" and "s_bytes (bitmap_reset b) = []"
  using assms by (auto simp: bitmap_reset_def s_ok_def s_bytes_def list_put_def)

section \<open>The bitmap marks the valid jump destinations\<close>

definition bit_at :: "slice \<Rightarrow> nat \<Rightarrow> bool" where
  "bit_at b k \<longleftrightarrow> bit (s_arr b ! (k div 8)) (k mod 8)"

lemma bitmap_isSet_bit_at: "k div 8 < s_len b \<Longrightarrow> bitmap_isSet b k = Ret (bit_at b k)"
  by (simp add: bitmap_isSet_def bit_at_def bit_iff_and_push_bit_not_eq_0)

lemma bitmap_set_bit_at:
  assumes "s_len b \<le> length (s_arr b)" and "i div 8 < s_len b" and "k div 8 < s_len b"
  shows "\<exists>b'. bitmap_set b i = Ret b' \<and> s_len b' = s_len b \<and> length (s_arr b') = length (s_arr b) \<and>
    (bit_at b' k \<longleftrightarrow> k = i \<or> bit_at b k)"
proof -
  have "bit (w OR push_bit (i mod 8) 1) (k mod 8) \<longleftrightarrow> k mod 8 = i mod 8 \<or> bit w (k mod 8)"
    for w :: byte
    by (auto simp: bit_simps)
  moreover have "k = i \<longleftrightarrow> k div 8 = i div 8 \<and> k mod 8 = i mod 8"
    by (metis div_mult_mod_eq)
  ultimately show ?thesis
    using assms by (auto simp: bitmap_set_def bit_at_def nth_list_update)
qed

lemma next_instr_push:
  "isPushOp (code ! i) \<Longrightarrow> next_instr code i = i + unat (code ! i - 0x60 + 2)"
  by (auto simp: next_instr_def push_width isPushOp_iff)

lemma next_instr_no_push: "\<not> isPushOp (code ! i) \<Longrightarrow> next_instr code i = i + 1"
  by (auto simp: next_instr_def isPushOp_iff)

lemma next_instr_gt: "i < next_instr code i"
  by (auto simp: next_instr_def)

text \<open>Instruction starts do not overlap: none lies strictly inside another instruction.\<close>

lemma instr_start_no_overlap:
  assumes "instr_start code i" and "instr_start code j" and "i < j"
  shows "next_instr code i \<le> j"
  using assms
proof (induction "i + j" arbitrary: i j rule: less_induct)
  case less
  from less.prems(2,3) obtain k where k: "instr_start code k" "j = next_instr code k"
    by (auto elim: instr_start.cases)
  have "k < j" using k next_instr_gt by simp
  consider "k = i" | "i < k" | "k < i" by linarith
  then show ?case
  proof cases
    case 1
    with k show ?thesis by simp
  next
    case 2
    then have "next_instr code i \<le> k"
      using less.hyps [of i k] less.prems(1) k(1) \<open>k < j\<close> by simp
    with \<open>k < j\<close> show ?thesis by simp
  next
    case 3
    then have "next_instr code k \<le> i"
      using less.hyps [of k i] less.prems(1) k(1) \<open>k < j\<close> by simp
    with k less.prems(3) show ?thesis by simp
  qed
qed

lemma valid_dest_below_next:
  assumes "instr_start code i" and "i < length code"
  shows "k < next_instr code i \<and> valid_dest code k \<longleftrightarrow>
    k < i \<and> valid_dest code k \<or> k = i \<and> code ! i = 0x5B"
proof -
  have "\<not> (i < k \<and> k < next_instr code i \<and> instr_start code k)"
    using instr_start_no_overlap [OF assms(1), of k] by auto
  moreover have "i < next_instr code i" by (rule next_instr_gt)
  ultimately show ?thesis
    using assms by (cases k i rule: linorder_cases) (auto simp: valid_dest_def)
qed

lemma setCode_loop_marks:
  assumes "instr_start code i" and "s_len b \<le> length (s_arr b)" and "length code div 8 < s_len b"
    and "\<And>k. k < length code \<Longrightarrow> bit_at b k \<longleftrightarrow> k < i \<and> valid_dest code k"
  shows "\<exists>b'. setCode_loop code i b = Ret b' \<and> s_len b' = s_len b \<and>
    (\<forall>k < length code. bit_at b' k \<longleftrightarrow> valid_dest code k)"
  using assms
proof (induction code i b rule: setCode_loop.induct)
  case (1 code i b)
  note prems = "1.prems" and inv = "1.prems"(4)
  show ?case
  proof (cases "i < length code")
    case False
    with inv show ?thesis by (auto simp: setCode_loop.simps [of code i])
  next
    case True
    have next_start: "instr_start code (next_instr code i)"
      using prems(1) True by (rule instr_start.step)
    note below = valid_dest_below_next [OF prems(1) True]
    show ?thesis
    proof (cases "isPushOp (code ! i)")
      case push: True
      then have "code ! i \<noteq> 0x5B" by (auto simp: isPushOp_iff)
      then have "bit_at b k \<longleftrightarrow> k < next_instr code i \<and> valid_dest code k"
        if "k < length code" for k
        using that inv below by blast
      with "1.IH"(1) [OF True refl push] next_start prems(2,3) push True show ?thesis
        by (simp add: setCode_loop.simps [of code i] next_instr_push)
    next
      case no_push: False
      have idx: "k div 8 < s_len b" if "k < length code" for k
        using that prems(3) div_le_mono [of k "length code" 8] by linarith
      obtain b1 where b1: "(if code ! i = 0x5B then bitmap_set b i else Ret b) = Ret b1"
          "s_len b1 = s_len b" "length (s_arr b1) = length (s_arr b)"
          "\<And>k. k < length code \<Longrightarrow> bit_at b1 k \<longleftrightarrow> k = i \<and> code ! i = 0x5B \<or> bit_at b k"
      proof (cases "code ! i = 0x5B")
        case dest: True
        obtain b1 where set: "bitmap_set b i = Ret b1"
          using idx [OF True] by (simp add: bitmap_set_def)
        then show ?thesis
          using that [of b1] bitmap_set_bit_at [OF prems(2) idx [OF True] idx] dest True by fastforce
      next
        case False
        with that [of b] show ?thesis by simp
      qed
      have "bit_at b1 k \<longleftrightarrow> k < next_instr code i \<and> valid_dest code k" if "k < length code" for k
        using that inv below b1(4) by blast
      with "1.IH"(2) [OF True refl no_push b1(1)] next_start prems(2,3) b1(2,3) show ?thesis
        using True no_push b1(1)
        by (simp add: setCode_loop.simps [of code i] next_instr_no_push)
    qed
  qed
qed

lemma bit_at_zeros:
  assumes "s_ok b" and "s_bytes b = replicate (s_len b) 0" and "k div 8 < s_len b"
  shows "\<not> bit_at b k"
proof -
  have "s_arr b ! (k div 8) = s_bytes b ! (k div 8)"
    using assms(3) by (simp add: s_bytes_def)
  with assms(2,3) show ?thesis by (simp add: bit_at_def)
qed

lemma bitmap_setCode_spec:
  assumes "s_ok b" and "s_len b = 0"
  obtains b' where "bitmap_setCode X b code = Ret b'" and "s_len b' = length code div 8 + 1"
    and "\<And>k. k < length code \<Longrightarrow> bitmap_isSet b' k = Ret (valid_dest code k)"
proof -
  let ?n = "length code div 8 + 1"
  let ?b = "extendByteSlice X b ?n"
  have ok: "s_ok ?b" "s_len ?b = ?n" "s_bytes ?b = replicate ?n 0"
    using extendByteSlice_ok [OF assms(1), of ?n X] assms by (simp_all add: s_bytes_def)
  have idx: "k div 8 < ?n" if "k < length code" for k
    using that div_le_mono [of k "length code" 8] by linarith
  have "bit_at ?b k \<longleftrightarrow> k < 0 \<and> valid_dest code k" if "k < length code" for k
    using bit_at_zeros [OF ok(1), of k] ok idx [OF that] by simp
  then obtain b' where b': "setCode_loop code 0 ?b = Ret b'" "s_len b' = ?n"
      "\<forall>k < length code. bit_at b' k \<longleftrightarrow> valid_dest code k"
    using setCode_loop_marks [OF instr_start.first, of ?b code] ok by (auto simp: s_ok_def)
  then show ?thesis
    using that [of b'] idx by (simp add: bitmap_setCode_def bitmap_isSet_bit_at)
qed

end
