(* ===== verification/Evm_State.thy ===== *)
theory Evm_State
  imports Evm_Bitmap
begin

text \<open>
  The state of the virtual machine and its primitive operations (\<open>runtime/evm/state.go\<close>): stack,
  gas, memory with its expansion cost, jump destinations. The stack is a list with the top first and
  its length is the field \<open>sp\<close>; slots above \<open>sp\<close> keep old numbers in the code, but every \<open>push1\<close>
  is followed by an assignment, so they are not part of the model. The mutable object behind the field
  \<open>host\<close> is the component \<open>c_host\<close>; the operations of the interface are a separate argument.
\<close>

record 'h state =
  c_ip :: int
  c_code :: bytes
  c_tmp :: bytes
  c_host :: 'h
  c_msg :: contract
  c_config :: forks_in_time
  c_memory :: slice
  c_lastGasCost :: u64
  c_stack :: "int list"
  c_err :: "vm_error option"
  c_stop :: bool
  c_gas :: u64
  c_bitmap :: slice
  c_returnData :: bytes
  c_ret :: bytes

section \<open>Operations\<close>

definition stackSize :: nat where
  "stackSize = 1024"

definition state_reset :: "'h state \<Rightarrow> 'h state" where
  "state_reset c = c\<lparr>
     c_stack := [], c_ip := 0, c_gas := 0, c_lastGasCost := 0, c_stop := False, c_err := None,
     c_bitmap := bitmap_reset (c_bitmap c),
     c_memory := \<lparr>s_arr = list_put (s_arr (c_memory c)) 0 (replicate (s_len (c_memory c)) 0), s_len = 0\<rparr>,
     c_tmp := [], c_ret := [], c_code := []\<rparr>"

definition validJumpdest :: "'h state \<Rightarrow> int \<Rightarrow> bool go" where
  "validJumpdest c dest =
     (let udest = big_Uint64 dest in
      if 63 \<le> big_BitLen dest \<or> of_nat (length (c_code c)) \<le> udest then Ret False
      else bitmap_isSet (c_bitmap c) (unat udest))"

definition halt :: "'h state \<Rightarrow> 'h state" where
  "halt c = c\<lparr>c_stop := True\<rparr>"

definition exit :: "'h state \<Rightarrow> vm_error \<Rightarrow> 'h state" where
  "exit c e = c\<lparr>c_stop := True, c_err := Some e\<rparr>"

text \<open>\<open>c.push1().Set(v)\<close>.\<close>

definition push :: "'h state \<Rightarrow> int \<Rightarrow> 'h state" where
  "push c v = c\<lparr>c_stack := v # c_stack c\<rparr>"

definition stackAtLeast :: "'h state \<Rightarrow> nat \<Rightarrow> bool" where
  "stackAtLeast c n \<longleftrightarrow> n \<le> length (c_stack c)"

definition pop :: "'h state \<Rightarrow> int option \<times> 'h state" where
  "pop c = (case c_stack c of [] \<Rightarrow> (None, c) | v # s \<Rightarrow> (Some v, c\<lparr>c_stack := s\<rparr>))"

definition state_top :: "'h state \<Rightarrow> int option" where
  "state_top c = (case c_stack c of [] \<Rightarrow> None | v # s \<Rightarrow> Some v)"

text \<open>
  \<open>popv\<close> and \<open>topv\<close> are \<open>pop\<close> and \<open>top\<close> where the caller goes on to use the number: a nil pointer
  panics. \<open>set_top\<close> is an assignment through the pointer that \<open>top\<close> returned.
\<close>

definition popv :: "'h state \<Rightarrow> (int \<times> 'h state) go" where
  "popv c = (let (v, c') = pop c in bnd (deref v) (\<lambda>x. Ret (x, c')))"

definition topv :: "'h state \<Rightarrow> int go" where
  "topv c = deref (state_top c)"

definition set_top :: "'h state \<Rightarrow> int \<Rightarrow> 'h state" where
  "set_top c v = c\<lparr>c_stack := v # tl (c_stack c)\<rparr>"

definition bigToHash :: "int \<Rightarrow> hash" where
  "bigToHash b = BytesToHash (big_Bytes b)"

definition popHash :: "'h state \<Rightarrow> (hash \<times> 'h state) go" where
  "popHash c = bnd (popv c) (\<lambda>(v, c). Ret (BytesToHash (big_Bytes v), c))"

text \<open>\<open>popAddr\<close> checks for nil itself; its second result is discarded by every caller.\<close>

definition popAddr :: "'h state \<Rightarrow> address \<times> 'h state" where
  "popAddr c =
     (let (b, c') = pop c in
      case b of None \<Rightarrow> (0, c') | Some v \<Rightarrow> (BytesToAddress (big_Bytes v), c'))"

definition peekAt :: "'h state \<Rightarrow> nat \<Rightarrow> int go" where
  "peekAt c n = (if 0 < n \<and> n \<le> length (c_stack c) then Ret (c_stack c ! (n - 1)) else Panic)"

definition state_swap :: "'h state \<Rightarrow> nat \<Rightarrow> 'h state go" where
  "state_swap c n =
     (let s = c_stack c in
      if n < length s then Ret (c\<lparr>c_stack := s[0 := s ! n, n := s ! 0]\<rparr>) else Panic)"

definition consumeGas :: "'h state \<Rightarrow> u64 \<Rightarrow> bool \<times> 'h state" where
  "consumeGas c g =
     (if c_gas c < g then (False, exit c ErrOutOfGas)
      else (True, c\<lparr>c_gas := c_gas c - g\<rparr>))"

definition resetReturnData :: "'h state \<Rightarrow> 'h state" where
  "resetReturnData c = c\<lparr>c_returnData := []\<rparr>"

definition inStaticCall :: "'h state \<Rightarrow> bool" where
  "inStaticCall c = ct_Static (c_msg c)"

definition checkMemory :: "ext \<Rightarrow> 'h state \<Rightarrow> int \<Rightarrow> int \<Rightarrow> bool \<times> 'h state" where
  "checkMemory X c offset sz =
     (if sz = 0 then (True, c)
      else if \<not> big_IsUint64 offset \<or> \<not> big_IsUint64 sz then (False, exit c errGasUintOverflow)
      else
        let o' = big_Uint64 offset; s = big_Uint64 sz in
        if 0xffffffffe0 < o' \<or> 0xffffffffe0 < s then (False, exit c errGasUintOverflow)
        else
          let m = of_nat (s_len (c_memory c)); newSize = o' + s in
          if m < newSize then
            let w = (newSize + 31) div 32;
                newCost = 3 * w + w * w div 512;
                cost = newCost - c_lastGasCost c;
                (ok, c) = consumeGas (c\<lparr>c_lastGasCost := newCost\<rparr>) cost
            in if \<not> ok then (False, exit c ErrOutOfGas)
               else (True, c\<lparr>c_memory := extendByteSlice X (c_memory c) (unat (w * 32))\<rparr>)
          else (True, c))"

text \<open>The bytes appended to \<open>dst\<close> and \<open>true\<close>, or \<open>false\<close> when the memory could not be grown.\<close>

definition get2 :: "ext \<Rightarrow> 'h state \<Rightarrow> bytes \<Rightarrow> int \<Rightarrow> int \<Rightarrow> (bytes \<times> bool \<times> 'h state) go" where
  "get2 X c dst offset len =
     (if len = 0 then Ret ([], True, c)
      else
        let (ok, c) = checkMemory X c offset len in
        if \<not> ok then Ret ([], False, c)
        else
          let o' = big_Uint64 offset; l = big_Uint64 len in
          bnd (s_sub (c_memory c) (unat o') (unat (o' + l))) (\<lambda>bs. Ret (dst @ bs, True, c)))"

section \<open>Stack primitives\<close>

lemma popv_Cons [simp]: "c_stack c = v # s \<Longrightarrow> popv c = Ret (v, c\<lparr>c_stack := s\<rparr>)"
  by (simp add: popv_def pop_def)

lemma popv_eq_Ret:
  "popv c = Ret (v, c') \<longleftrightarrow> c_stack c = v # c_stack c' \<and> c' = c\<lparr>c_stack := c_stack c'\<rparr>"
  by (cases "c_stack c") (auto simp: popv_def pop_def)

lemma popv_neq_NoFuel [simp]: "popv c \<noteq> NoFuel"
  by (cases "c_stack c") (simp_all add: popv_def pop_def)

lemma topv_Cons [simp]: "c_stack c = v # s \<Longrightarrow> topv c = Ret v"
  by (simp add: topv_def state_top_def)

lemma topv_neq_NoFuel [simp]: "topv c \<noteq> NoFuel"
  by (simp add: topv_def)

lemma set_top_Cons [simp]: "c_stack c = v # s \<Longrightarrow> set_top c x = c\<lparr>c_stack := x # s\<rparr>"
  by (simp add: set_top_def)

lemma popAddr_Cons [simp]:
  "c_stack c = v # s \<Longrightarrow> popAddr c = (BytesToAddress (big_Bytes v), c\<lparr>c_stack := s\<rparr>)"
  by (simp add: popAddr_def pop_def)

lemma popHash_Cons [simp]:
  "c_stack c = v # s \<Longrightarrow> popHash c = Ret (bigToHash v, c\<lparr>c_stack := s\<rparr>)"
  by (simp add: popHash_def bigToHash_def)

section \<open>Memory expansion\<close>

text \<open>The gas a memory of \<open>w\<close> words has cost in total, as a number rather than a machine word.\<close>

definition mem_cost :: "nat \<Rightarrow> nat" where
  "mem_cost w = 3 * w + w * w div 512"

lemma mem_cost_mono: "v \<le> w \<Longrightarrow> mem_cost v \<le> mem_cost w"
  unfolding mem_cost_def by (intro add_mono mult_le_mono div_le_mono) auto

text \<open>The memory is zero beyond its length, whole words long, and its cost so far is recorded.\<close>

definition mem_ok :: "'h state \<Rightarrow> bool" where
  "mem_ok c \<longleftrightarrow> s_ok (c_memory c) \<and> s_len (c_memory c) mod 32 = 0 \<and>
     s_len (c_memory c) \<le> 2 ^ 41"

definition cost_ok :: "'h state \<Rightarrow> bool" where
  "cost_ok c \<longleftrightarrow> s_len (c_memory c) < 2 ^ 37 \<longrightarrow>
     unat (c_lastGasCost c) = mem_cost (s_len (c_memory c) div 32)"

text \<open>The memory length after an access to \<open>size\<close> bytes at \<open>offset\<close>.\<close>

definition grown :: "nat \<Rightarrow> nat \<Rightarrow> nat" where
  "grown l n = (if l < n then (n + 31) div 32 * 32 else l)"

lemma u64_words:
  assumes "n \<le> 2 ^ 41"
  shows "((of_nat n + 31) div 32 :: u64) = of_nat ((n + 31) div 32)"
    and "unat (of_nat ((n + 31) div 32) * 32 :: u64) = (n + 31) div 32 * 32"
proof -
  have "unat (of_nat n + 31 :: u64) = n + 31"
    using unat_u64 [of "n + 31"] assms by simp
  then have "unat ((of_nat n + 31) div 32 :: u64) = (n + 31) div 32"
    by (simp add: unat_div)
  then show "((of_nat n + 31) div 32 :: u64) = of_nat ((n + 31) div 32)"
    using unat_u64 [of "(n + 31) div 32"] assms by (simp add: word_unat_eq_iff)
  have "(n + 31) div 32 * 32 \<le> n + 31" by simp
  then have "(n + 31) div 32 * 32 < 2 ^ 64" using assms by (simp del: times_div_less_eq_dividend)
  from unat_u64 [OF this] show "unat (of_nat ((n + 31) div 32) * 32 :: u64) = (n + 31) div 32 * 32"
    by simp
qed

lemma u64_mem_cost:
  assumes "w < 2 ^ 32"
  shows "unat (3 * of_nat w + of_nat w * of_nat w div 512 :: u64) = mem_cost w"
proof -
  have w2: "w * w < 2 ^ 64"
    using mult_strict_mono [of w "2 ^ 32" w "2 ^ 32"] assms by simp
  then have "unat (of_nat w * of_nat w :: u64) = w * w"
    using unat_u64 [of "w * w"] by simp
  then have "(of_nat w * of_nat w div 512 :: u64) = of_nat (w * w div 512)"
    using unat_u64 [of "w * w div 512"] w2 by (simp add: word_unat_eq_iff unat_div)
  then have "3 * of_nat w + of_nat w * of_nat w div 512 = (of_nat (mem_cost w) :: u64)"
    by (simp add: mem_cost_def)
  moreover have "mem_cost w < 2 ^ 64" using assms w2 by (simp add: mem_cost_def)
  ultimately show ?thesis by (simp only: unat_u64)
qed

lemma consumeGas_cases:
  assumes "consumeGas c g = (ok, c')"
  obtains (enough) "ok" "g \<le> c_gas c" "c' = c\<lparr>c_gas := c_gas c - g\<rparr>"
    | (lack) "\<not> ok" "c_gas c < g" "c' = exit c ErrOutOfGas"
  using assms by (auto simp: consumeGas_def split: if_splits)

lemma checkMemory_cases [consumes 1, case_names none within grow fail]:
  assumes "checkMemory X c off sz = (ok, c')"
  obtains "sz = 0" "ok" "c' = c"
    | "ok" "c' = c" "0 \<le> off" "0 < sz" "nat off + nat sz \<le> 2 ^ 41 - 64"
        "of_nat (nat off + nat sz) \<le> (of_nat (s_len (c_memory c)) :: u64)"
    | n w newCost where "ok" "0 \<le> off" "0 < sz" "n = nat off + nat sz" "n \<le> 2 ^ 41 - 64"
        "of_nat (s_len (c_memory c)) < (of_nat n :: u64)" "w = (n + 31) div 32"
        "newCost = 3 * of_nat w + of_nat w * of_nat w div 512"
        "newCost - c_lastGasCost c \<le> c_gas c"
        "c' = c\<lparr>c_lastGasCost := newCost, c_gas := c_gas c - (newCost - c_lastGasCost c),
          c_memory := extendByteSlice X (c_memory c) (w * 32)\<rparr>"
    | e g where "\<not> ok" "sz \<noteq> 0" "c' = exit (c\<lparr>c_lastGasCost := g\<rparr>) e"
proof (cases "sz = 0")
  case True
  with assms that(1) show ?thesis by (simp add: checkMemory_def)
next
  case sz: False
  show ?thesis
  proof (cases "big_IsUint64 off \<and> big_IsUint64 sz \<and>
      \<not> (0xffffffffe0 < big_Uint64 off \<or> 0xffffffffe0 < big_Uint64 sz)")
    case False
    with assms sz that(4) [of "c_lastGasCost c" errGasUintOverflow] show ?thesis
      by (auto simp: checkMemory_def exit_def split: if_splits)
  next
    case True
    let ?n = "nat off + nat sz"
    from True sz have pos: "0 \<le> off" "0 < sz" "off < 2 ^ 64" "sz < 2 ^ 64"
      by (auto simp: big_IsUint64_def)
    from True have "unat (big_Uint64 off) \<le> 0xffffffffe0" "unat (big_Uint64 sz) \<le> 0xffffffffe0"
      by (simp_all add: not_less word_le_nat_alt)
    with pos have n: "?n \<le> 2 ^ 41 - 64"
      by (simp add: unat_big_Uint64)
    have sum: "big_Uint64 off + big_Uint64 sz = of_nat ?n"
      using pos by (simp add: big_Uint64_def)
    note words = u64_words [of ?n]
    show ?thesis
    proof (cases "of_nat (s_len (c_memory c)) < (of_nat ?n :: u64)")
      case False
      with assms sz True sum that(2) pos n show ?thesis
        by (simp add: checkMemory_def Let_def)
    next
      case grow: True
      define w where "w = (?n + 31) div 32"
      define newCost :: u64 where "newCost = 3 * of_nat w + of_nat w * of_nat w div 512"
      have w: "(of_nat ?n + 31) div 32 = (of_nat w :: u64)" "unat (of_nat w * 32 :: u64) = w * 32"
        using words n by (simp_all add: w_def)
      have "(ok, c') = (let (ok, c) = consumeGas (c\<lparr>c_lastGasCost := newCost\<rparr>) (newCost - c_lastGasCost c)
          in if \<not> ok then (False, exit c ErrOutOfGas)
             else (True, c\<lparr>c_memory := extendByteSlice X (c_memory c) (w * 32)\<rparr>))"
        unfolding w(2) [symmetric] using assms sz True grow
        by (simp add: checkMemory_def Let_def sum w newCost_def del: of_nat_add)
      then show ?thesis
        using that(3) [OF _ pos(1,2) refl n grow w_def newCost_def]
          that(4) [of newCost ErrOutOfGas] sz
        by (auto simp: consumeGas_def exit_def split: if_splits)
    qed
  qed
qed

lemma u64_of_nat_less: "m \<le> 2 ^ 41 \<Longrightarrow> n \<le> 2 ^ 41 \<Longrightarrow> (of_nat m :: u64) < of_nat n \<longleftrightarrow> m < n"
  by (simp add: word_less_nat_alt unat_of_nat)

lemma words_bound: "n \<le> 2 ^ 41 - 64 \<Longrightarrow> n \<le> (n + 31) div 32 * 32 \<and> (n + 31) div 32 * 32 \<le> 2 ^ 41" for n :: nat
  using div_mult_mod_eq [of "n + 31" 32] mod_less_divisor [of 32 "n + 31"] by (simp del: div_mult_mod_eq) linarith

lemma checkMemory_True:
  assumes "checkMemory X c off sz = (True, c')" and "mem_ok c"
  shows "mem_ok c'"
    and "sz \<noteq> 0 \<Longrightarrow> 0 \<le> off \<and> 0 < sz \<and> nat off + nat sz \<le> s_len (c_memory c')"
    and "s_len (c_memory c) \<le> s_len (c_memory c')"
    and "s_bytes (c_memory c') =
      s_bytes (c_memory c) @ replicate (s_len (c_memory c') - s_len (c_memory c)) 0"
    and "c_gas c' \<le> c_gas c"
    and "c' = c\<lparr>c_lastGasCost := c_lastGasCost c', c_gas := c_gas c', c_memory := c_memory c'\<rparr>"
proof -
  let ?l = "s_len (c_memory c)"
  from assms(2) have l: "?l \<le> 2 ^ 41" and ok: "s_ok (c_memory c)" by (simp_all add: mem_ok_def)
  from assms(1) have "mem_ok c' \<and>
      (sz \<noteq> 0 \<longrightarrow> 0 \<le> off \<and> 0 < sz \<and> nat off + nat sz \<le> s_len (c_memory c')) \<and>
      ?l \<le> s_len (c_memory c') \<and>
      s_bytes (c_memory c') = s_bytes (c_memory c) @ replicate (s_len (c_memory c') - ?l) 0 \<and>
      c_gas c' \<le> c_gas c \<and>
      c' = c\<lparr>c_lastGasCost := c_lastGasCost c', c_gas := c_gas c', c_memory := c_memory c'\<rparr>"
  proof (cases rule: checkMemory_cases)
    case none
    with assms(2) show ?thesis by simp
  next
    case within
    with assms(2) l show ?thesis
      using u64_of_nat_less [of ?l "nat off + nat sz"] by (simp add: not_less [symmetric] del: of_nat_add)
  next
    case (grow n w newCost)
    have "?l < n" using grow(5,6) l u64_of_nat_less [of ?l n] by simp
    moreover have "n \<le> w * 32" "w * 32 \<le> 2 ^ 41" using words_bound [OF grow(5)] grow(7) by auto
    moreover have "?l \<le> w * 32" using calculation by simp
    note ext = extendByteSlice_ok [OF ok this, of X]
    have "c_gas c - (newCost - c_lastGasCost c) \<le> c_gas c"
      using grow(9) by (simp add: word_sub_le_iff)
    ultimately show ?thesis
      using grow(2-4,10) ext by (simp add: mem_ok_def)
  qed simp
  then show "mem_ok c'"
    and "sz \<noteq> 0 \<Longrightarrow> 0 \<le> off \<and> 0 < sz \<and> nat off + nat sz \<le> s_len (c_memory c')"
    and "s_len (c_memory c) \<le> s_len (c_memory c')"
    and "s_bytes (c_memory c') =
      s_bytes (c_memory c) @ replicate (s_len (c_memory c') - s_len (c_memory c)) 0"
    and "c_gas c' \<le> c_gas c"
    and "c' = c\<lparr>c_lastGasCost := c_lastGasCost c', c_gas := c_gas c', c_memory := c_memory c'\<rparr>"
    by blast+
qed

lemma checkMemory_False:
  assumes "checkMemory X c off sz = (False, c')"
  shows "\<exists>g e. c' = exit (c\<lparr>c_lastGasCost := g\<rparr>) e"
  using assms by (cases rule: checkMemory_cases) auto

lemma checkMemory_charges:
  assumes "mem_ok c" and "cost_ok c" and "0 \<le> off" and "0 < sz"
    and "off \<le> 0xffffffffe0" and "sz \<le> 0xffffffffe0"
    and "grown (s_len (c_memory c)) (nat off + nat sz) < 2 ^ 37"
  defines "l' \<equiv> grown (s_len (c_memory c)) (nat off + nat sz)"
  defines "d \<equiv> mem_cost (l' div 32) - mem_cost (s_len (c_memory c) div 32)"
  shows "\<exists>c'. checkMemory X c off sz = (d \<le> unat (c_gas c), c') \<and>
    (if d \<le> unat (c_gas c)
     then s_len (c_memory c') = l' \<and> unat (c_gas c') = unat (c_gas c) - d \<and> cost_ok c'
     else c_stop c' \<and> c_err c' = Some ErrOutOfGas)"
proof -
  let ?l = "s_len (c_memory c)" and ?n = "nat off + nat sz"
  define w where "w = (?n + 31) div 32"
  define newCost :: u64 where "newCost = 3 * of_nat w + of_nat w * of_nat w div 512"
  from assms(1) have l: "?l \<le> 2 ^ 41" and ok: "s_ok (c_memory c)" and l32: "?l mod 32 = 0"
    by (simp_all add: mem_ok_def)
  have n: "?n \<le> 2 ^ 41 - 64" using assms(3-6) by simp
  have u: "big_IsUint64 off" "big_IsUint64 sz" using assms(3-6) by (simp_all add: big_IsUint64_def)
  have small: "\<not> (0xffffffffe0 < big_Uint64 off \<or> 0xffffffffe0 < big_Uint64 sz)"
    using assms(3-6) by (simp add: word_less_nat_alt unat_big_Uint64 zless_nat_eq_int_zless)
  have sum: "big_Uint64 off + big_Uint64 sz = of_nat ?n"
    using assms(3,4) by (simp add: big_Uint64_def)
  have w: "(of_nat ?n + 31) div 32 = (of_nat w :: u64)" "unat (of_nat w * 32 :: u64) = w * 32"
    using u64_words [of ?n] n by (simp_all add: w_def)
  show ?thesis
  proof (cases "?l < ?n")
    case False
    then have "\<not> (of_nat ?l < (of_nat ?n :: u64))" using l n u64_of_nat_less [of ?l ?n] by simp
    then have "checkMemory X c off sz = (True, c)"
      using u small assms(4) by (simp add: checkMemory_def Let_def sum del: of_nat_add)
    with False assms(2) show ?thesis by (simp add: d_def l'_def grown_def)
  next
    case True
    then have grow: "of_nat ?l < (of_nat ?n :: u64)" using l n u64_of_nat_less [of ?l ?n] by simp
    have l': "l' = w * 32" using True by (simp add: l'_def grown_def w_def)
    have wb: "w < 2 ^ 32" using assms(7) l' l'_def by simp
    have lw: "?l div 32 \<le> w" using True by (simp add: w_def div_le_mono)
    have lb: "?l < 2 ^ 37" using True l' l'_def assms(7) by (simp add: grown_def)
    have nc: "unat newCost = mem_cost w" using u64_mem_cost [OF wb] by (simp add: newCost_def)
    have lc: "unat (c_lastGasCost c) = mem_cost (?l div 32)"
      using assms(2) lb by (simp add: cost_ok_def)
    have "c_lastGasCost c \<le> newCost"
      using nc lc mem_cost_mono [OF lw] by (simp add: word_le_nat_alt)
    then have cost: "unat (newCost - c_lastGasCost c) = d"
      using nc lc l' by (simp add: d_def unat_u64_sub)
    have "checkMemory X c off sz =
        (let (ok, c) = consumeGas (c\<lparr>c_lastGasCost := newCost\<rparr>) (newCost - c_lastGasCost c)
         in if \<not> ok then (False, exit c ErrOutOfGas)
            else (True, c\<lparr>c_memory := extendByteSlice X (c_memory c) (w * 32)\<rparr>))"
      unfolding w(2) [symmetric] using u small assms(4) grow
      by (simp add: checkMemory_def Let_def sum w newCost_def del: of_nat_add)
    moreover have "?l \<le> w * 32" using l32 lw by auto
    note ext = extendByteSlice_ok [OF ok this, of X]
    ultimately show ?thesis
      using cost l' nc ext
      by (auto simp: consumeGas_def exit_def word_less_nat_alt word_le_nat_alt unat_u64_sub cost_ok_def)
  qed
qed

lemma get2_cases [consumes 2, case_names none fail ok]:
  assumes "get2 X c dst off len = r" and "mem_ok c"
  obtains "len = 0" "r = Ret ([], True, c)"
    | c' where "len \<noteq> 0" "checkMemory X c off len = (False, c')" "r = Ret ([], False, c')"
    | c' where "len \<noteq> 0" "checkMemory X c off len = (True, c')"
        "r = Ret (dst @ take (nat len) (drop (nat off) (s_bytes (c_memory c'))), True, c')"
proof (cases "len = 0")
  case True
  with assms that(1) show ?thesis by (simp add: get2_def)
next
  case False
  obtain ok c' where cm: "checkMemory X c off len = (ok, c')" by (cases "checkMemory X c off len")
  show ?thesis
  proof (cases ok)
    case no: False
    with assms False cm that(2) show ?thesis by (simp add: get2_def)
  next
    case yes: True
    note f = checkMemory_True [OF cm [unfolded yes [THEN eq_True [THEN iffD2]]] assms(2)]
    have b: "0 \<le> off" "0 < len" "nat off + nat len \<le> s_len (c_memory c')"
      using f(2) False by auto
    have m: "s_len (c_memory c') \<le> 2 ^ 41" "s_ok (c_memory c')" using f(1) by (simp_all add: mem_ok_def)
    have sm: "off < 2 ^ 64" "len < 2 ^ 64" using b m by auto
    have "big_Uint64 off + big_Uint64 len = of_nat (nat off + nat len)"
      using b by (simp add: big_Uint64_def)
    moreover have "unat (of_nat (nat off + nat len) :: u64) = nat off + nat len"
      using b m by (intro unat_u64) simp
    ultimately have "unat (big_Uint64 off + big_Uint64 len) = nat off + nat len" by simp
    with assms False cm yes that(3) b m sm show ?thesis
      by (simp add: get2_def Let_def unat_big_Uint64 s_sub_bytes)
  qed
qed

end
