(* ===== verification/Evm_Instructions.thy ===== *)
theory Evm_Instructions
  imports Evm_State
begin

text \<open>
  The instructions of the virtual machine (\<open>runtime/evm/instructions.go\<close>), one definition per
  function, in the order of the file. An instruction takes the machine state and returns the new
  state or a panic; errors of the machine are recorded in the state by \<open>exit\<close>. Instructions that
  need the host take the record of host operations \<open>H\<close>, those that need third-party code the record
  \<open>X\<close>. Numbers on the stack are unbounded integers, kept below \<open>2\<^sup>2\<^sup>5\<^sup>6\<close> by \<open>toU256\<close> as in the code.
\<close>

unbundle bit_operations_syntax

type_synonym 'h instruction = "'h state \<Rightarrow> 'h state go"

section \<open>Arithmetic\<close>

definition toU256 :: "int \<Rightarrow> int" where
  "toU256 x = (if x < 0 \<or> 256 < big_BitLen x then x AND (2 ^ 256 - 1) else x)"

definition to256 :: "int \<Rightarrow> int" where
  "to256 x = (if 255 < big_BitLen x then x - 2 ^ 256 else x)"

definition opAdd :: "'h instruction" where
  "opAdd c = bnd (popv c) (\<lambda>(a, c). bnd (topv c) (\<lambda>b. Ret (set_top c (toU256 (a + b)))))"

definition opMul :: "'h instruction" where
  "opMul c = bnd (popv c) (\<lambda>(a, c). bnd (topv c) (\<lambda>b. Ret (set_top c (toU256 (a * b)))))"

definition opSub :: "'h instruction" where
  "opSub c = bnd (popv c) (\<lambda>(a, c). bnd (topv c) (\<lambda>b. Ret (set_top c (toU256 (a - b)))))"

definition opDiv :: "'h instruction" where
  "opDiv c = bnd (popv c) (\<lambda>(a, c). bnd (topv c) (\<lambda>b.
     Ret (set_top c (if b = 0 then 0 else toU256 (big_Div a b)))))"

definition opSDiv :: "'h instruction" where
  "opSDiv c = bnd (popv c) (\<lambda>(a, c). bnd (topv c) (\<lambda>b.
     let a = to256 a; b = to256 b in
     if b = 0 then Ret (set_top c 0)
     else
       let neg = (sgn a \<noteq> sgn b);
           q = big_Div \<bar>a\<bar> \<bar>b\<bar>;
           q = (if neg then - q else q)
       in Ret (set_top c (toU256 q))))"

definition opMod :: "'h instruction" where
  "opMod c = bnd (popv c) (\<lambda>(a, c). bnd (topv c) (\<lambda>b.
     Ret (set_top c (if b = 0 then 0 else toU256 (big_Mod a b)))))"

definition opSMod :: "'h instruction" where
  "opSMod c = bnd (popv c) (\<lambda>(a, c). bnd (topv c) (\<lambda>b.
     let a = to256 a; b = to256 b in
     if b = 0 then Ret (set_top c 0)
     else
       let neg = (sgn a < 0);
           m = big_Mod \<bar>a\<bar> \<bar>b\<bar>;
           m = (if neg then - m else m)
       in Ret (set_top c (toU256 m))))"

text \<open>The square-and-multiply loop of \<open>opExp\<close>: the bits of one limb, then the limbs.\<close>

fun exp_bits :: "nat \<Rightarrow> u64 \<Rightarrow> int \<Rightarrow> int \<Rightarrow> int \<times> int" where
  "exp_bits 0 d z x = (z, x)"
| "exp_bits (Suc i) d z x =
     exp_bits i (drop_bit 1 d) (if d AND 1 = 1 then toU256 (z * x) else z) (toU256 (x * x))"

fun exp_limbs :: "u64 list \<Rightarrow> int \<Rightarrow> int \<Rightarrow> int \<times> int" where
  "exp_limbs [] z x = (z, x)"
| "exp_limbs (d # ds) z x = (let (z, x) = exp_bits 64 d z x in exp_limbs ds z x)"

definition opExp :: "'h instruction" where
  "opExp c = bnd (popv c) (\<lambda>(x, c). bnd (topv c) (\<lambda>y.
     let g = (if EIP158 (c_config c) then 50 else 10) :: u64;
         gasCost = of_nat ((big_BitLen y + 7) div 8) * g;
         (ok, c) = consumeGas c gasCost
     in if \<not> ok then Ret c
        else Ret (set_top c (fst (exp_limbs (big_Bits y) 1 x)))))"

definition opAddMod :: "'h instruction" where
  "opAddMod c = bnd (popv c) (\<lambda>(a, c). bnd (popv c) (\<lambda>(b, c). bnd (topv c) (\<lambda>z.
     Ret (set_top c (if z = 0 then 0 else toU256 (big_Mod (a + b) z))))))"

definition opMulMod :: "'h instruction" where
  "opMulMod c = bnd (popv c) (\<lambda>(a, c). bnd (popv c) (\<lambda>(b, c). bnd (topv c) (\<lambda>z.
     Ret (set_top c (if z = 0 then 0 else toU256 (big_Mod (a * b) z))))))"

section \<open>Bitwise operations and comparisons\<close>

definition opAnd :: "'h instruction" where
  "opAnd c = bnd (popv c) (\<lambda>(a, c). bnd (topv c) (\<lambda>b. Ret (set_top c (a AND b))))"

definition opOr :: "'h instruction" where
  "opOr c = bnd (popv c) (\<lambda>(a, c). bnd (topv c) (\<lambda>b. Ret (set_top c (a OR b))))"

definition opXor :: "'h instruction" where
  "opXor c = bnd (popv c) (\<lambda>(a, c). bnd (topv c) (\<lambda>b. Ret (set_top c (a XOR b))))"

definition opByte :: "'h instruction" where
  "opByte c = bnd (popv c) (\<lambda>(x, c). bnd (topv c) (\<lambda>y.
     let indx = big_Int64 x in
     if 31 < sint indx then Ret (set_top c 0)
     else
       let sh = (31 - indx) * 8
       in Ret (set_top c (drop_bit (unat sh) y AND 255))))"

definition opNot :: "'h instruction" where
  "opNot c = bnd (topv c) (\<lambda>a. Ret (set_top c (toU256 (NOT a))))"

definition opIsZero :: "'h instruction" where
  "opIsZero c = bnd (topv c) (\<lambda>a. Ret (set_top c (if a = 0 then 1 else 0)))"

definition opEq :: "'h instruction" where
  "opEq c = bnd (popv c) (\<lambda>(a, c). bnd (topv c) (\<lambda>b. Ret (set_top c (if a = b then 1 else 0))))"

definition opLt :: "'h instruction" where
  "opLt c = bnd (popv c) (\<lambda>(a, c). bnd (topv c) (\<lambda>b. Ret (set_top c (if a < b then 1 else 0))))"

definition opGt :: "'h instruction" where
  "opGt c = bnd (popv c) (\<lambda>(a, c). bnd (topv c) (\<lambda>b. Ret (set_top c (if b < a then 1 else 0))))"

definition opSlt :: "'h instruction" where
  "opSlt c = bnd (popv c) (\<lambda>(a, c). bnd (topv c) (\<lambda>b.
     Ret (set_top c (if to256 a < to256 b then 1 else 0))))"

definition opSgt :: "'h instruction" where
  "opSgt c = bnd (popv c) (\<lambda>(a, c). bnd (topv c) (\<lambda>b.
     Ret (set_top c (if to256 b < to256 a then 1 else 0))))"

text \<open>\<open>top\<close> may return nil here: the dispatch table asks for one stack element only.\<close>

definition opSignExtension :: "'h instruction" where
  "opSignExtension c = bnd (popv c) (\<lambda>(ext, c).
     if 32 < ext then Ret c
     else
       case state_top c of
         None \<Rightarrow> Ret c
       | Some x \<Rightarrow>
           let bt = unat (big_Uint64 ext * 8 + 7);
               mask = push_bit bt 1 - 1;
               x' = (if bit x bt then x OR NOT mask else x AND mask)
           in Ret (set_top c (toU256 x')))"

definition equalOrOverflowsUint256 :: "int \<Rightarrow> bool" where
  "equalOrOverflowsUint256 b \<longleftrightarrow> 8 < big_BitLen b"

definition opShl :: "'h instruction" where
  "opShl c =
     (if \<not> Constantinople (c_config c) then Ret (exit c errOpCodeNotFound)
      else bnd (popv c) (\<lambda>(shift, c). bnd (topv c) (\<lambda>value.
        Ret (set_top c (if equalOrOverflowsUint256 shift then 0
                        else toU256 (push_bit (unat (big_Uint64 shift)) value))))))"

definition opShr :: "'h instruction" where
  "opShr c =
     (if \<not> Constantinople (c_config c) then Ret (exit c errOpCodeNotFound)
      else bnd (popv c) (\<lambda>(shift, c). bnd (topv c) (\<lambda>value.
        Ret (set_top c (if equalOrOverflowsUint256 shift then 0
                        else toU256 (drop_bit (unat (big_Uint64 shift)) value))))))"

definition opSar :: "'h instruction" where
  "opSar c =
     (if \<not> Constantinople (c_config c) then Ret (exit c errOpCodeNotFound)
      else bnd (popv c) (\<lambda>(shift, c). bnd (topv c) (\<lambda>value.
        let value = to256 value in
        Ret (set_top c (if equalOrOverflowsUint256 shift
                        then (if 0 \<le> value then 0 else 2 ^ 256 - 1)
                        else toU256 (drop_bit (unat (big_Uint64 shift)) value))))))"

section \<open>Memory\<close>

definition opMload :: "ext \<Rightarrow> 'h instruction" where
  "opMload X c = bnd (popv c) (\<lambda>(offset, c).
     bnd (get2 X c [] offset 32) (\<lambda>(tmp, ok, c).
     let c = c\<lparr>c_tmp := tmp\<rparr> in
     if \<not> ok then Ret c else Ret (push c (big_SetBytes tmp))))"

text \<open>
  The conversion loop of \<open>opMStore\<close>: the bytes of a limb from the least significant one, written
  downwards from position \<open>i\<close>; a write below position 0 would panic. \<open>zero_below\<close> is the loop that
  fills what is left.
\<close>

fun put_limb :: "nat \<Rightarrow> u64 \<Rightarrow> nat \<Rightarrow> bytes \<Rightarrow> (nat \<times> bytes) go" where
  "put_limb 0 d i buf = Ret (i, buf)"
| "put_limb (Suc j) d i buf =
     (if i = 0 then Panic else put_limb j (drop_bit 8 d) (i - 1) (buf[i - 1 := ucast d]))"

fun put_limbs :: "u64 list \<Rightarrow> nat \<Rightarrow> bytes \<Rightarrow> (nat \<times> bytes) go" where
  "put_limbs [] i buf = Ret (i, buf)"
| "put_limbs (d # ds) i buf = bnd (put_limb 8 d i buf) (\<lambda>(i, buf). put_limbs ds i buf)"

fun zero_below :: "nat \<Rightarrow> bytes \<Rightarrow> bytes" where
  "zero_below 0 buf = buf"
| "zero_below (Suc i) buf = zero_below i (buf[i := 0])"

definition opMStore :: "ext \<Rightarrow> 'h instruction" where
  "opMStore X c = bnd (popv c) (\<lambda>(offset, c). bnd (popv c) (\<lambda>(val, c).
     let (ok, c) = checkMemory X c offset 32 in
     if \<not> ok then Ret c
     else
       let o' = unat (big_Uint64 offset) in
       bnd (s_sub (c_memory c) o' (o' + 32)) (\<lambda>buf.
       bnd (put_limbs (big_Bits val) 32 buf) (\<lambda>(i, buf).
       bnd (s_copy (c_memory c) o' (o' + 32) (zero_below i buf)) (\<lambda>m.
       Ret (c\<lparr>c_memory := m\<rparr>))))))"

definition opMStore8 :: "ext \<Rightarrow> 'h instruction" where
  "opMStore8 X c = bnd (popv c) (\<lambda>(offset, c). bnd (popv c) (\<lambda>(val, c).
     let (ok, c) = checkMemory X c offset 1 in
     if \<not> ok then Ret c
     else
       let o' = unat (big_Uint64 offset) in
       if o' < s_len (c_memory c)
       then bnd (s_copy (c_memory c) o' (o' + 1) [ucast (big_Uint64 val AND 0xff)]) (\<lambda>m.
         Ret (c\<lparr>c_memory := m\<rparr>))
       else Panic))"

section \<open>Storage\<close>

definition opSload :: "'h host \<Rightarrow> 'h instruction" where
  "opSload H c = bnd (topv c) (\<lambda>loc.
     let g = (if Istanbul (c_config c) then 800 else if EIP150 (c_config c) then 200 else 50) :: u64;
         (ok, c) = consumeGas c g
     in if \<not> ok then Ret c
        else
          let val = GetStorage H (c_host c) (ct_Address (c_msg c)) (bigToHash loc)
          in Ret (set_top c (big_SetBytes (Hash_Bytes val))))"

definition sstore_cost :: "forks_in_time \<Rightarrow> storage_status \<Rightarrow> u64" where
  "sstore_cost config status =
     (let legacyGasMetering = (\<not> Istanbul config \<and> (Petersburg config \<or> \<not> Constantinople config)) in
      case status of
        StorageUnchanged \<Rightarrow> if Istanbul config then 800 else if legacyGasMetering then 5000 else 200
      | StorageModified \<Rightarrow> 5000
      | StorageModifiedAgain \<Rightarrow> if Istanbul config then 800 else if legacyGasMetering then 5000 else 200
      | StorageAdded \<Rightarrow> 20000
      | StorageDeleted \<Rightarrow> 5000)"

definition opSStore :: "'h host \<Rightarrow> 'h instruction" where
  "opSStore H c =
     (if inStaticCall c then Ret (exit c errWriteProtection)
      else if Istanbul (c_config c) \<and> c_gas c \<le> 2300 then Ret (exit c ErrOutOfGas)
      else bnd (popHash c) (\<lambda>(key, c). bnd (popHash c) (\<lambda>(val, c).
        let (status, h) = SetStorage H (c_host c) (ct_Address (c_msg c)) key val (c_config c);
            c = c\<lparr>c_host := h\<rparr>
        in Ret (snd (consumeGas c (sstore_cost (c_config c) status))))))"

definition sha3WordGas :: u64 where
  "sha3WordGas = 6"

definition opSha3 :: "ext \<Rightarrow> 'h instruction" where
  "opSha3 X c = bnd (popv c) (\<lambda>(offset, c). bnd (popv c) (\<lambda>(len, c).
     bnd (get2 X c [] offset len) (\<lambda>(tmp, ok, c).
     let c = c\<lparr>c_tmp := tmp\<rparr> in
     if \<not> ok then Ret c
     else
       let sz = big_Uint64 len;
           (ok, c) = consumeGas c ((sz + 31) div 32 * sha3WordGas)
       in if \<not> ok then Ret c
          else
            let tmp = Keccak256To X [] (c_tmp c)
            in Ret (push (c\<lparr>c_tmp := tmp\<rparr>) (big_SetBytes tmp)))))"

definition opPop :: "'h instruction" where
  "opPop c = Ret (snd (pop c))"

section \<open>Context\<close>

definition opAddress :: "'h instruction" where
  "opAddress c = Ret (push c (big_SetBytes (Address_Bytes (ct_Address (c_msg c)))))"

definition opBalance :: "'h host \<Rightarrow> 'h instruction" where
  "opBalance H c =
     (let (addr, c) = popAddr c;
          g = (if Istanbul (c_config c) then 700 else if EIP150 (c_config c) then 400 else 20) :: u64;
          (ok, c) = consumeGas c g
      in if \<not> ok then Ret c else Ret (push c (GetBalance H (c_host c) addr)))"

definition opSelfBalance :: "'h host \<Rightarrow> 'h instruction" where
  "opSelfBalance H c =
     (if \<not> Istanbul (c_config c) then Ret (exit c errOpCodeNotFound)
      else Ret (push c (GetBalance H (c_host c) (ct_Address (c_msg c)))))"

definition opChainID :: "'h host \<Rightarrow> 'h instruction" where
  "opChainID H c =
     (if \<not> Istanbul (c_config c) then Ret (exit c errOpCodeNotFound)
      else Ret (push c (uint (tx_ChainID (GetTxContext H (c_host c))))))"

definition opOrigin :: "'h host \<Rightarrow> 'h instruction" where
  "opOrigin H c = Ret (push c (big_SetBytes (Address_Bytes (tx_Origin (GetTxContext H (c_host c))))))"

definition opCaller :: "'h instruction" where
  "opCaller c = Ret (push c (big_SetBytes (Address_Bytes (ct_Caller (c_msg c)))))"

definition opCallValue :: "'h instruction" where
  "opCallValue c = Ret (push c (case ct_Value (c_msg c) of Some v \<Rightarrow> v | None \<Rightarrow> 0))"

text \<open>
  \<open>setBytes(dst, input, size, dataOffset)\<close>: the \<open>size\<close> bytes it writes at the start of \<open>dst\<close>, the
  input from the offset on, padded with zeros.
\<close>

definition setBytes :: "bytes \<Rightarrow> nat \<Rightarrow> int \<Rightarrow> bytes" where
  "setBytes input sz dataOffset =
     (if \<not> big_IsUint64 dataOffset then replicate sz 0
      else
        let inputSize = length input;
            begin' = min (unat (big_Uint64 dataOffset)) inputSize;
            copySize = min sz (inputSize - begin')
        in take copySize (drop begin' input) @ replicate (sz - copySize) 0)"

text \<open>\<open>setBytes\<close> into \<open>c.memory[memOffset:]\<close>, which panics when the offset is past the length.\<close>

definition mem_setBytes :: "'h state \<Rightarrow> int \<Rightarrow> bytes \<Rightarrow> u64 \<Rightarrow> int \<Rightarrow> 'h state go" where
  "mem_setBytes c memOffset input sz dataOffset =
     (let o' = unat (big_Uint64 memOffset) in
      if o' + unat sz \<le> s_len (c_memory c)
      then bnd (s_copy (c_memory c) o' (o' + unat sz) (setBytes input (unat sz) dataOffset)) (\<lambda>m.
        Ret (c\<lparr>c_memory := m\<rparr>))
      else Panic)"

definition opCallDataLoad :: "'h instruction" where
  "opCallDataLoad c = bnd (topv c) (\<lambda>offset.
     Ret (set_top c (big_SetBytes (setBytes (ct_Input (c_msg c)) 32 offset))))"

definition opCallDataSize :: "'h instruction" where
  "opCallDataSize c = Ret (push c (int (length (ct_Input (c_msg c)))))"

definition opCodeSize :: "'h instruction" where
  "opCodeSize c = Ret (push c (int (length (c_code c))))"

definition opExtCodeSize :: "'h host \<Rightarrow> 'h instruction" where
  "opExtCodeSize H c =
     (let (addr, c) = popAddr c;
          g = (if EIP150 (c_config c) then 700 else 20) :: u64;
          (ok, c) = consumeGas c g
      in if \<not> ok then Ret c else Ret (push c (int (GetCodeSize H (c_host c) addr))))"

definition opGasPrice :: "'h host \<Rightarrow> 'h instruction" where
  "opGasPrice H c = Ret (push c (big_SetBytes (Hash_Bytes (tx_GasPrice (GetTxContext H (c_host c))))))"

definition opReturnDataSize :: "'h instruction" where
  "opReturnDataSize c =
     (if \<not> Byzantium (c_config c) then Ret (exit c errOpCodeNotFound)
      else Ret (push c (int (length (c_returnData c)))))"

definition opExtCodeHash :: "'h host \<Rightarrow> 'h instruction" where
  "opExtCodeHash H c =
     (if \<not> Constantinople (c_config c) then Ret (exit c errOpCodeNotFound)
      else
        let (addr, c) = popAddr c;
            g = (if Istanbul (c_config c) then 700 else 400) :: u64;
            (ok, c) = consumeGas c g
        in if \<not> ok then Ret c
           else Ret (push c (if Empty H (c_host c) addr then 0
                             else big_SetBytes (Hash_Bytes (GetCodeHash H (c_host c) addr)))))"

definition opPC :: "'h instruction" where
  "opPC c = Ret (push c (uint (of_int (c_ip c) :: u64)))"

definition opMSize :: "'h instruction" where
  "opMSize c = Ret (push c (int (s_len (c_memory c))))"

definition opGas :: "'h instruction" where
  "opGas c = Ret (push c (uint (c_gas c)))"

definition copyGas :: u64 where
  "copyGas = 3"

definition opExtCodeCopy :: "ext \<Rightarrow> 'h host \<Rightarrow> 'h instruction" where
  "opExtCodeCopy X H c =
     (let (addr, c) = popAddr c in
      bnd (popv c) (\<lambda>(memOffset, c). bnd (popv c) (\<lambda>(codeOffset, c). bnd (popv c) (\<lambda>(len, c).
      let (ok, c) = checkMemory X c memOffset len in
      if \<not> ok then Ret c
      else
        let sz = big_Uint64 len;
            (ok, c) = consumeGas c ((sz + 31) div 32 * copyGas)
        in if \<not> ok then Ret c
           else
             let g = (if EIP150 (c_config c) then 700 else 20) :: u64;
                 (ok, c) = consumeGas c g
             in if \<not> ok then Ret c
                else
                  let cd = GetCode H (c_host c) addr
                  in if sz \<noteq> 0 then mem_setBytes c memOffset cd sz codeOffset else Ret c))))"

definition opCallDataCopy :: "ext \<Rightarrow> 'h instruction" where
  "opCallDataCopy X c =
     bnd (popv c) (\<lambda>(memOffset, c). bnd (popv c) (\<lambda>(dataOffset, c). bnd (popv c) (\<lambda>(len, c).
     let (ok, c) = checkMemory X c memOffset len in
     if \<not> ok then Ret c
     else
       let sz = big_Uint64 len;
           (ok, c) = consumeGas c ((sz + 31) div 32 * copyGas)
       in if \<not> ok then Ret c
          else if sz \<noteq> 0 then mem_setBytes c memOffset (ct_Input (c_msg c)) sz dataOffset
          else Ret c)))"

definition opReturnDataCopy :: "ext \<Rightarrow> 'h instruction" where
  "opReturnDataCopy X c =
     (if \<not> Byzantium (c_config c) then Ret (exit c errOpCodeNotFound)
      else
        bnd (popv c) (\<lambda>(memOffset, c). bnd (popv c) (\<lambda>(dataOffset, c). bnd (popv c) (\<lambda>(len, c).
        let (ok, c) = checkMemory X c memOffset len in
        if \<not> ok then Ret c
        else
          let sz = big_Uint64 len;
              (ok, c) = consumeGas c ((sz + 31) div 32 * copyGas)
          in if \<not> ok then Ret c
             else
               let end' = dataOffset + len in
               if \<not> big_IsUint64 end' then Ret (exit c errReturnDataOutOfBounds)
               else
                 let sz = big_Uint64 end' in
                 if of_nat (length (c_returnData c)) < sz then Ret (exit c errReturnDataOutOfBounds)
                 else
                   let d = unat (big_Uint64 dataOffset);
                       data = take (unat sz - d) (drop d (c_returnData c))
                   in bnd (s_copy (c_memory c) (unat (big_Uint64 memOffset)) (s_len (c_memory c)) data)
                        (\<lambda>m. Ret (c\<lparr>c_memory := m\<rparr>))))))"

definition opCodeCopy :: "ext \<Rightarrow> 'h instruction" where
  "opCodeCopy X c =
     bnd (popv c) (\<lambda>(memOffset, c). bnd (popv c) (\<lambda>(dataOffset, c). bnd (popv c) (\<lambda>(len, c).
     let (ok, c) = checkMemory X c memOffset len in
     if \<not> ok then Ret c
     else
       let sz = big_Uint64 len;
           (ok, c) = consumeGas c ((sz + 31) div 32 * copyGas)
       in if \<not> ok then Ret c
          else if sz \<noteq> 0 then mem_setBytes c memOffset (c_code c) sz dataOffset
          else Ret c)))"

section \<open>Block information\<close>

definition opBlockHash :: "'h host \<Rightarrow> 'h instruction" where
  "opBlockHash H c = bnd (topv c) (\<lambda>num.
     if \<not> big_IsInt64 num then Ret (set_top c 0)
     else
       let n = big_Int64 num; lastBlock = tx_Number (GetTxContext H (c_host c)) in
       if sint (lastBlock - 257) < sint n \<and> sint n < sint lastBlock
       then Ret (set_top c (big_SetBytes (Hash_Bytes (GetBlockHash H (c_host c) n))))
       else Ret (set_top c 0))"

definition opCoinbase :: "'h host \<Rightarrow> 'h instruction" where
  "opCoinbase H c = Ret (push c (big_SetBytes (Address_Bytes (tx_Coinbase (GetTxContext H (c_host c))))))"

definition opTimestamp :: "'h host \<Rightarrow> 'h instruction" where
  "opTimestamp H c = Ret (push c (sint (tx_Timestamp (GetTxContext H (c_host c)))))"

definition opNumber :: "'h host \<Rightarrow> 'h instruction" where
  "opNumber H c = Ret (push c (sint (tx_Number (GetTxContext H (c_host c)))))"

definition opDifficulty :: "'h host \<Rightarrow> 'h instruction" where
  "opDifficulty H c = Ret (push c (big_SetBytes (Hash_Bytes (tx_Difficulty (GetTxContext H (c_host c))))))"

definition opGasLimit :: "'h host \<Rightarrow> 'h instruction" where
  "opGasLimit H c = Ret (push c (sint (tx_GasLimit (GetTxContext H (c_host c)))))"

definition opSelfDestruct :: "'h host \<Rightarrow> 'h instruction" where
  "opSelfDestruct H c =
     (if inStaticCall c then Ret (exit c errWriteProtection)
      else
        let (addr, c) = popAddr c;
            me = ct_Address (c_msg c);
            g = (if EIP150 (c_config c)
                 then 5000 +
                   (if EIP158 (c_config c)
                    then (if Empty H (c_host c) addr \<and> GetBalance H (c_host c) me \<noteq> 0 then 25000 else 0)
                    else if \<not> AccountExists H (c_host c) addr then 25000 else 0)
                 else 0) :: u64;
            (ok, c) = consumeGas c g
        in if \<not> ok then Ret c
           else Ret (halt (c\<lparr>c_host := Selfdestruct H (c_host c) me addr\<rparr>)))"

section \<open>Control flow and stack\<close>

definition opJump :: "'h instruction" where
  "opJump c = bnd (popv c) (\<lambda>(dest, c). bnd (validJumpdest c dest) (\<lambda>v.
     if v then Ret (c\<lparr>c_ip := sint (big_Uint64 dest - 1)\<rparr>) else Ret (exit c errInvalidJump)))"

definition opJumpi :: "'h instruction" where
  "opJumpi c = bnd (popv c) (\<lambda>(dest, c). bnd (popv c) (\<lambda>(cond, c).
     if cond \<noteq> 0 then
       bnd (validJumpdest c dest) (\<lambda>v.
       if v then Ret (c\<lparr>c_ip := sint (big_Uint64 dest - 1)\<rparr>) else Ret (exit c errInvalidJump))
     else Ret c))"

definition opJumpDest :: "'h instruction" where
  "opJumpDest c = Ret c"

definition opPush :: "nat \<Rightarrow> 'h instruction" where
  "opPush n c =
     (let ins = c_code c; ip = nat (c_ip c);
          v = (if length ins < ip + 1 + n
               then big_SetBytes (drop (ip + 1) ins @ replicate n 0)
               else big_SetBytes (take n (drop (ip + 1) ins)));
          c = push c v
      in Ret (c\<lparr>c_ip := c_ip c + int n\<rparr>))"

definition opDup :: "nat \<Rightarrow> 'h instruction" where
  "opDup n c =
     (if \<not> stackAtLeast c n then Ret (exit c ErrStackUnderflow)
      else bnd (peekAt c n) (\<lambda>val. Ret (push c val)))"

definition opSwap :: "nat \<Rightarrow> 'h instruction" where
  "opSwap n c =
     (if \<not> stackAtLeast c (n + 1) then Ret (exit c ErrStackUnderflow) else state_swap c n)"

fun popTopics :: "nat \<Rightarrow> 'h state \<Rightarrow> (hash list \<times> 'h state) go" where
  "popTopics 0 c = Ret ([], c)"
| "popTopics (Suc n) c =
     bnd (popv c) (\<lambda>(t, c). bnd (popTopics n c) (\<lambda>(ts, c). Ret (bigToHash t # ts, c)))"

text \<open>The argument is the position in the opcode range: \<open>LOG0\<close> is registered with 1.\<close>

definition opLog :: "ext \<Rightarrow> 'h host \<Rightarrow> nat \<Rightarrow> 'h instruction" where
  "opLog X H n c =
     (let sz = n - 1 in
      if inStaticCall c then Ret (exit c errWriteProtection)
      else if \<not> stackAtLeast c (2 + sz) then Ret (exit c ErrStackUnderflow)
      else bnd (popv c) (\<lambda>(mStart, c). bnd (popv c) (\<lambda>(mSize, c).
        bnd (popTopics sz c) (\<lambda>(topics, c).
        bnd (get2 X c [] mStart mSize) (\<lambda>(tmp, ok, c).
        let c = c\<lparr>c_tmp := tmp\<rparr> in
        if \<not> ok then Ret c
        else
          let c = c\<lparr>c_host := EmitLog H (c_host c) (ct_Address (c_msg c)) topics tmp\<rparr>;
              (ok, c) = consumeGas c (of_nat sz * 375)
          in if \<not> ok then Ret c
             else Ret (snd (consumeGas c (big_Uint64 mSize * 8))))))))"

definition opStop :: "'h instruction" where
  "opStop c = Ret (halt c)"

section \<open>Calls and contract creation\<close>

type_synonym OpCode = nat

abbreviation (input) CREATE :: OpCode where "CREATE \<equiv> 0xF0"
abbreviation (input) CALL :: OpCode where "CALL \<equiv> 0xF1"
abbreviation (input) CALLCODE :: OpCode where "CALLCODE \<equiv> 0xF2"
abbreviation (input) RETURN :: OpCode where "RETURN \<equiv> 0xF3"
abbreviation (input) DELEGATECALL :: OpCode where "DELEGATECALL \<equiv> 0xF4"
abbreviation (input) CREATE2 :: OpCode where "CREATE2 \<equiv> 0xF5"
abbreviation (input) STATICCALL :: OpCode where "STATICCALL \<equiv> 0xFA"
abbreviation (input) REVERT :: OpCode where "REVERT \<equiv> 0xFD"

text \<open>
  What \<open>buildCallContract\<close> and \<open>buildCreateContract\<close> return: nothing (the machine has stopped), an
  error with or without the contract, or the contract and the range for the return data.
\<close>

datatype build = BuildNil | BuildErr "contract option" | BuildOk contract u64 u64

text \<open>The parts of \<open>buildCallContract\<close>: whether value moves, the cost, the gas passed on, the contract.\<close>

definition call_transfers :: "OpCode \<Rightarrow> int option \<Rightarrow> bool" where
  "call_transfers op value \<longleftrightarrow>
     (op = CALL \<or> op = CALLCODE) \<and> (case value of None \<Rightarrow> False | Some v \<Rightarrow> v \<noteq> 0)"

definition call_cost :: "'h host \<Rightarrow> 'h \<Rightarrow> forks_in_time \<Rightarrow> OpCode \<Rightarrow> address \<Rightarrow> int option \<Rightarrow> u64" where
  "call_cost H h config op addr value =
     (let gasCost = (if EIP150 config then 700 else 40) :: u64;
          gasCost = gasCost +
            (if op = CALL
             then (if EIP158 config
                   then (if call_transfers op value \<and> Empty H h addr then 25000 else 0)
                   else if \<not> AccountExists H h addr then 25000 else 0)
             else 0)
      in gasCost + (if call_transfers op value then 9000 else 0))"

definition call_gas :: "forks_in_time \<Rightarrow> u64 \<Rightarrow> u64 \<Rightarrow> int \<Rightarrow> u64" where
  "call_gas config gasLeft gasCost initialGas =
     (if EIP150 config
      then (let availableGas = gasLeft - gasCost;
                availableGas = availableGas - availableGas div 64
            in if \<not> big_IsUint64 initialGas \<or> availableGas < big_Uint64 initialGas then availableGas
               else big_Uint64 initialGas)
      else big_Uint64 initialGas)"

definition call_contract ::
    "OpCode \<Rightarrow> contract \<Rightarrow> address \<Rightarrow> int option \<Rightarrow> u64 \<Rightarrow> bytes \<Rightarrow> bytes \<Rightarrow> contract" where
  "call_contract op parent addr value g cd args =
     (let g = (if call_transfers op value then g + 2300 else g);
          contract = NewContractCall (ct_Depth parent + 1) (ct_Origin parent) (ct_Address parent) addr
            value g cd args;
          contract = (if op = STATICCALL \<or> ct_Static parent then contract\<lparr>ct_Static := True\<rparr> else contract);
          contract = (if op = CALLCODE \<or> op = DELEGATECALL
                      then contract\<lparr>ct_Address := ct_Address parent\<rparr> else contract)
      in if op = DELEGATECALL
         then contract\<lparr>ct_Value := ct_Value parent, ct_Caller := ct_Caller parent\<rparr>
         else contract)"

definition buildCallContract :: "ext \<Rightarrow> 'h host \<Rightarrow> OpCode \<Rightarrow> 'h state \<Rightarrow> (build \<times> 'h state) go" where
  "buildCallContract X H op c =
     bnd (popv c) (\<lambda>(initialGas, c).
     let (addr, c) = popAddr c in
     bnd (if op = CALL \<or> op = CALLCODE then bnd (popv c) (\<lambda>(v, c). Ret (Some v, c)) else Ret (None, c))
       (\<lambda>(value, c).
     bnd (popv c) (\<lambda>(inOffset, c). bnd (popv c) (\<lambda>(inSize, c).
     bnd (popv c) (\<lambda>(retOffset, c). bnd (popv c) (\<lambda>(retSize, c).
     bnd (get2 X c [] inOffset inSize) (\<lambda>(args, ok, c).
     if \<not> ok then Ret (BuildNil, c)
     else
     let (ok, c) = checkMemory X c retOffset retSize in
     if \<not> ok then Ret (BuildNil, c)
     else
     let gasCost = call_cost H (c_host c) (c_config c) op addr value
     in if \<not> EIP150 (c_config c) \<and> \<not> big_IsUint64 initialGas then Ret (BuildNil, exit c ErrOutOfGas)
     else
     let g = call_gas (c_config c) (c_gas c) gasCost initialGas;
         (ok, c) = consumeGas c (gasCost + g)
     in if \<not> ok then Ret (BuildNil, c)
     else
     let contract = call_contract op (c_msg c) addr value g (GetCode H (c_host c) addr) args
     in if call_transfers op value \<and> GetBalance H (c_host c) (ct_Address (c_msg c)) < the value
        then Ret (BuildErr (Some contract), c)
        else Ret (BuildOk contract (big_Uint64 retOffset) (big_Uint64 retSize), c))))))))"

definition buildCreateContract :: "ext \<Rightarrow> 'h host \<Rightarrow> OpCode \<Rightarrow> 'h state \<Rightarrow> (build \<times> 'h state) go" where
  "buildCreateContract X H op c =
     bnd (popv c) (\<lambda>(value, c). bnd (popv c) (\<lambda>(offset, c). bnd (popv c) (\<lambda>(len, c).
     bnd (if op = CREATE2 then popv c else Ret (0, c)) (\<lambda>(salt, c).
     let hasTransfer = (value \<noteq> 0) in
     bnd (get2 X c [] offset len) (\<lambda>(input, ok, c).
     if \<not> ok then Ret (BuildNil, c)
     else
     let (ok, c) = consumeGas c 0 in
     if \<not> ok then Ret (BuildNil, c)
     else if hasTransfer \<and> GetBalance H (c_host c) (ct_Address (c_msg c)) < value
     then Ret (BuildErr None, c)
     else
     let (ok, c) = (if op = CREATE2 then consumeGas c ((big_Uint64 len + 31) div 32 * sha3WordGas)
                    else (True, c)) in
     if \<not> ok then Ret (BuildNil, c)
     else
     let g = c_gas c;
         g = (if EIP150 (c_config c) \<or> op = CREATE2 then g - g div 64 else g);
         (ok, c) = consumeGas c g
     in if \<not> ok then Ret (BuildNil, c)
     else
     let me = ct_Address (c_msg c);
         addr = (if op = CREATE then CreateAddress X me (GetNonce H (c_host c) me)
                 else CreateAddress2 X me (bigToHash salt) input)
     in Ret (BuildOk (NewContractCreation (ct_Depth (c_msg c) + 1) (ct_Origin (c_msg c)) me addr
          (Some value) g input) 0 0, c))))))"

definition opCreate :: "ext \<Rightarrow> 'h host \<Rightarrow> OpCode \<Rightarrow> 'h instruction" where
  "opCreate X H op c =
     (if inStaticCall c then Ret (exit c errWriteProtection)
      else if op = CREATE2 \<and> \<not> Constantinople (c_config c) then Ret (exit c errOpCodeNotFound)
      else
        let c = resetReturnData c in
        bnd (buildCreateContract X H op c) (\<lambda>(b, c).
        case b of
          BuildNil \<Rightarrow> Ret c
        | BuildErr k \<Rightarrow>
            (let c = push c 0
             in Ret (case k of None \<Rightarrow> c | Some contract \<Rightarrow> c\<lparr>c_gas := c_gas c + ct_Gas contract\<rparr>))
        | BuildOk contract _ _ \<Rightarrow>
            let contract = contract\<lparr>ct_Type := Create\<rparr> in
            bnd (Callx H (c_host c) contract) (\<lambda>(result, h).
            let c = c\<lparr>c_host := h\<rparr>;
                v = (if op = CREATE \<and> Homestead (c_config c) \<and> res_Err result = Some ErrCodeStoreOutOfGas
                     then 0
                     else if Failed result \<and> res_Err result \<noteq> Some ErrCodeStoreOutOfGas then 0
                     else big_SetBytes (Address_Bytes (ct_Address contract)));
                c = push c v;
                c = c\<lparr>c_gas := c_gas c + res_GasLeft result\<rparr>
            in Ret (if Reverted result then c\<lparr>c_returnData := res_ReturnValue result\<rparr> else c))))"

text \<open>The factory panics on an operation that is not one of the four calls.\<close>

definition callTypeOf :: "OpCode \<Rightarrow> call_type go" where
  "callTypeOf op =
     (if op = CALL then Ret Call
      else if op = CALLCODE then Ret CallCode
      else if op = DELEGATECALL then Ret DelegateCall
      else if op = STATICCALL then Ret StaticCall
      else Panic)"

definition opCall :: "ext \<Rightarrow> 'h host \<Rightarrow> OpCode \<Rightarrow> 'h instruction" where
  "opCall X H op c =
     (let c = resetReturnData c in
      bnd (if op = CALL \<and> inStaticCall c then bnd (peekAt c 3) (\<lambda>val. Ret (0 < big_BitLen val))
           else Ret False) (\<lambda>forbidden.
      if forbidden then Ret (exit c errWriteProtection)
      else if op = DELEGATECALL \<and> \<not> Homestead (c_config c) then Ret (exit c errOpCodeNotFound)
      else if op = STATICCALL \<and> \<not> Byzantium (c_config c) then Ret (exit c errOpCodeNotFound)
      else
        bnd (callTypeOf op) (\<lambda>callType.
        bnd (buildCallContract X H op c) (\<lambda>(b, c).
        case b of
          BuildNil \<Rightarrow> Ret c
        | BuildErr k \<Rightarrow>
            (let c = push c 0
             in Ret (case k of None \<Rightarrow> c | Some contract \<Rightarrow> c\<lparr>c_gas := c_gas c + ct_Gas contract\<rparr>))
        | BuildOk contract offset sz \<Rightarrow>
            let contract = contract\<lparr>ct_Type := callType\<rparr> in
            bnd (Callx H (c_host c) contract) (\<lambda>(result, h).
            let c = push (c\<lparr>c_host := h\<rparr>) (if Succeeded result then 1 else 0) in
            bnd (if (Succeeded result \<or> Reverted result) \<and> res_ReturnValue result \<noteq> []
                 then bnd (s_copy (c_memory c) (unat offset) (unat (offset + sz)) (res_ReturnValue result))
                        (\<lambda>m. Ret (c\<lparr>c_memory := m\<rparr>))
                 else Ret c) (\<lambda>c.
            Ret (c\<lparr>c_gas := c_gas c + res_GasLeft result, c_returnData := res_ReturnValue result\<rparr>)))))))"

definition opHalt :: "ext \<Rightarrow> OpCode \<Rightarrow> 'h instruction" where
  "opHalt X op c =
     (if op = REVERT \<and> \<not> Byzantium (c_config c) then Ret (exit c errOpCodeNotFound)
      else bnd (popv c) (\<lambda>(offset, c). bnd (popv c) (\<lambda>(sz, c).
        bnd (get2 X c [] offset sz) (\<lambda>(r, ok, c).
        let c = c\<lparr>c_ret := r\<rparr> in
        if \<not> ok then Ret c
        else if op = REVERT then Ret (exit c ErrExecutionReverted)
        else Ret (halt c)))))"

end
