(* ===== verification/Evm_Run.thy ===== *)
theory Evm_Run
  imports Evm_Instructions
begin

text \<open>
  The dispatch table (\<open>runtime/evm/dispatch_table.go\<close>, opcodes of \<open>opcodes.go\<close>), the interpreter loop
  (\<open>Run\<close> of \<open>state.go\<close>) and the entry point of the virtual machine (\<open>runtime/evm/evm.go\<close>). The loop
  is bounded: its fuel is one more than the gas, and \<open>Evm_Gas\<close> proves that this is enough because
  every iteration that does not stop the machine consumes gas.
\<close>

section \<open>Opcodes\<close>

abbreviation (input) STOP :: OpCode where "STOP \<equiv> 0x00"
abbreviation (input) ADD :: OpCode where "ADD \<equiv> 0x01"
abbreviation (input) MUL :: OpCode where "MUL \<equiv> 0x02"
abbreviation (input) SUB :: OpCode where "SUB \<equiv> 0x03"
abbreviation (input) DIV :: OpCode where "DIV \<equiv> 0x04"
abbreviation (input) SDIV :: OpCode where "SDIV \<equiv> 0x05"
abbreviation (input) MOD :: OpCode where "MOD \<equiv> 0x06"
abbreviation (input) SMOD :: OpCode where "SMOD \<equiv> 0x07"
abbreviation (input) ADDMOD :: OpCode where "ADDMOD \<equiv> 0x08"
abbreviation (input) MULMOD :: OpCode where "MULMOD \<equiv> 0x09"
abbreviation (input) EXP :: OpCode where "EXP \<equiv> 0x0A"
abbreviation (input) SIGNEXTEND :: OpCode where "SIGNEXTEND \<equiv> 0x0B"
abbreviation (input) LT :: OpCode where "LT \<equiv> 0x10"
abbreviation (input) GT :: OpCode where "GT \<equiv> 0x11"
abbreviation (input) SLT :: OpCode where "SLT \<equiv> 0x12"
abbreviation (input) SGT :: OpCode where "SGT \<equiv> 0x13"
abbreviation (input) EQ :: OpCode where "EQ \<equiv> 0x14"
abbreviation (input) ISZERO :: OpCode where "ISZERO \<equiv> 0x15"
abbreviation (input) opcode_AND :: OpCode where "opcode_AND \<equiv> 0x16"
abbreviation (input) opcode_OR :: OpCode where "opcode_OR \<equiv> 0x17"
abbreviation (input) opcode_XOR :: OpCode where "opcode_XOR \<equiv> 0x18"
abbreviation (input) opcode_NOT :: OpCode where "opcode_NOT \<equiv> 0x19"
abbreviation (input) BYTE :: OpCode where "BYTE \<equiv> 0x1A"
abbreviation (input) SHL :: OpCode where "SHL \<equiv> 0x1B"
abbreviation (input) SHR :: OpCode where "SHR \<equiv> 0x1C"
abbreviation (input) SAR :: OpCode where "SAR \<equiv> 0x1D"
abbreviation (input) SHA3 :: OpCode where "SHA3 \<equiv> 0x20"
abbreviation (input) ADDRESS :: OpCode where "ADDRESS \<equiv> 0x30"
abbreviation (input) BALANCE :: OpCode where "BALANCE \<equiv> 0x31"
abbreviation (input) ORIGIN :: OpCode where "ORIGIN \<equiv> 0x32"
abbreviation (input) CALLER :: OpCode where "CALLER \<equiv> 0x33"
abbreviation (input) CALLVALUE :: OpCode where "CALLVALUE \<equiv> 0x34"
abbreviation (input) CALLDATALOAD :: OpCode where "CALLDATALOAD \<equiv> 0x35"
abbreviation (input) CALLDATASIZE :: OpCode where "CALLDATASIZE \<equiv> 0x36"
abbreviation (input) CALLDATACOPY :: OpCode where "CALLDATACOPY \<equiv> 0x37"
abbreviation (input) CODESIZE :: OpCode where "CODESIZE \<equiv> 0x38"
abbreviation (input) CODECOPY :: OpCode where "CODECOPY \<equiv> 0x39"
abbreviation (input) GASPRICE :: OpCode where "GASPRICE \<equiv> 0x3A"
abbreviation (input) EXTCODESIZE :: OpCode where "EXTCODESIZE \<equiv> 0x3B"
abbreviation (input) EXTCODECOPY :: OpCode where "EXTCODECOPY \<equiv> 0x3C"
abbreviation (input) RETURNDATASIZE :: OpCode where "RETURNDATASIZE \<equiv> 0x3D"
abbreviation (input) RETURNDATACOPY :: OpCode where "RETURNDATACOPY \<equiv> 0x3E"
abbreviation (input) EXTCODEHASH :: OpCode where "EXTCODEHASH \<equiv> 0x3F"
abbreviation (input) BLOCKHASH :: OpCode where "BLOCKHASH \<equiv> 0x40"
abbreviation (input) COINBASE :: OpCode where "COINBASE \<equiv> 0x41"
abbreviation (input) TIMESTAMP :: OpCode where "TIMESTAMP \<equiv> 0x42"
abbreviation (input) NUMBER :: OpCode where "NUMBER \<equiv> 0x43"
abbreviation (input) DIFFICULTY :: OpCode where "DIFFICULTY \<equiv> 0x44"
abbreviation (input) GASLIMIT :: OpCode where "GASLIMIT \<equiv> 0x45"
abbreviation (input) CHAINID :: OpCode where "CHAINID \<equiv> 0x46"
abbreviation (input) SELFBALANCE :: OpCode where "SELFBALANCE \<equiv> 0x47"
abbreviation (input) POP :: OpCode where "POP \<equiv> 0x50"
abbreviation (input) MLOAD :: OpCode where "MLOAD \<equiv> 0x51"
abbreviation (input) MSTORE :: OpCode where "MSTORE \<equiv> 0x52"
abbreviation (input) MSTORE8 :: OpCode where "MSTORE8 \<equiv> 0x53"
abbreviation (input) SLOAD :: OpCode where "SLOAD \<equiv> 0x54"
abbreviation (input) SSTORE :: OpCode where "SSTORE \<equiv> 0x55"
abbreviation (input) JUMP :: OpCode where "JUMP \<equiv> 0x56"
abbreviation (input) JUMPI :: OpCode where "JUMPI \<equiv> 0x57"
abbreviation (input) opcode_PC :: OpCode where "opcode_PC \<equiv> 0x58"
abbreviation (input) MSIZE :: OpCode where "MSIZE \<equiv> 0x59"
abbreviation (input) GAS :: OpCode where "GAS \<equiv> 0x5A"
abbreviation (input) JUMPDEST :: OpCode where "JUMPDEST \<equiv> 0x5B"
abbreviation (input) PUSH1 :: OpCode where "PUSH1 \<equiv> 0x60"
abbreviation (input) PUSH32 :: OpCode where "PUSH32 \<equiv> 0x7F"
abbreviation (input) DUP1 :: OpCode where "DUP1 \<equiv> 0x80"
abbreviation (input) DUP16 :: OpCode where "DUP16 \<equiv> 0x8F"
abbreviation (input) SWAP1 :: OpCode where "SWAP1 \<equiv> 0x90"
abbreviation (input) SWAP16 :: OpCode where "SWAP16 \<equiv> 0x9F"
abbreviation (input) LOG0 :: OpCode where "LOG0 \<equiv> 0xA0"
abbreviation (input) LOG4 :: OpCode where "LOG4 \<equiv> 0xA4"
abbreviation (input) SELFDESTRUCT :: OpCode where "SELFDESTRUCT \<equiv> 0xFF"

section \<open>The dispatch table\<close>

record 'h handler =
  h_inst :: "'h instruction"
  h_stack :: nat
  h_gas :: u64

abbreviation handler :: "'h instruction \<Rightarrow> nat \<Rightarrow> u64 \<Rightarrow> 'h handler" where
  "handler i s g \<equiv> \<lparr>h_inst = i, h_stack = s, h_gas = g\<rparr>"

definition registerRange ::
    "OpCode \<Rightarrow> OpCode \<Rightarrow> (nat \<Rightarrow> 'h instruction) \<Rightarrow> u64 \<Rightarrow> (OpCode \<times> 'h handler) list" where
  "registerRange from to factory g =
     map (\<lambda>i. (i, handler (factory (i - from + 1)) 0 g)) [from..<Suc to]"

definition dispatch_entries :: "ext \<Rightarrow> 'h host \<Rightarrow> (OpCode \<times> 'h handler) list" where
  "dispatch_entries X H =
     [(STOP, handler opStop 0 0),
      (ADD, handler opAdd 2 3),
      (SUB, handler opSub 2 3),
      (MUL, handler opMul 2 5),
      (DIV, handler opDiv 2 5),
      (SDIV, handler opSDiv 2 5),
      (MOD, handler opMod 2 5),
      (SMOD, handler opSMod 2 5),
      (EXP, handler opExp 2 10)] @
     registerRange PUSH1 PUSH32 opPush 3 @
     registerRange DUP1 DUP16 opDup 3 @
     registerRange SWAP1 SWAP16 opSwap 3 @
     registerRange LOG0 LOG4 (opLog X H) 375 @
     [(ADDMOD, handler opAddMod 3 8),
      (MULMOD, handler opMulMod 3 8),
      (opcode_AND, handler opAnd 2 3),
      (opcode_OR, handler opOr 2 3),
      (opcode_XOR, handler opXor 2 3),
      (BYTE, handler opByte 2 3),
      (opcode_NOT, handler opNot 1 3),
      (ISZERO, handler opIsZero 1 3),
      (EQ, handler opEq 2 3),
      (LT, handler opLt 2 3),
      (GT, handler opGt 2 3),
      (SLT, handler opSlt 2 3),
      (SGT, handler opSgt 2 3),
      (SIGNEXTEND, handler opSignExtension 1 5),
      (SHL, handler opShl 2 3),
      (SHR, handler opShr 2 3),
      (SAR, handler opSar 2 3),
      (CREATE, handler (opCreate X H CREATE) 3 32000),
      (CREATE2, handler (opCreate X H CREATE2) 4 32000),
      (CALL, handler (opCall X H CALL) 7 0),
      (CALLCODE, handler (opCall X H CALLCODE) 7 0),
      (DELEGATECALL, handler (opCall X H DELEGATECALL) 6 0),
      (STATICCALL, handler (opCall X H STATICCALL) 6 0),
      (REVERT, handler (opHalt X REVERT) 2 0),
      (RETURN, handler (opHalt X RETURN) 2 0),
      (MLOAD, handler (opMload X) 1 3),
      (MSTORE, handler (opMStore X) 2 3),
      (MSTORE8, handler (opMStore8 X) 2 3),
      (SLOAD, handler (opSload H) 1 0),
      (SSTORE, handler (opSStore H) 2 0),
      (SHA3, handler (opSha3 X) 2 30),
      (POP, handler opPop 1 2),
      (EXTCODEHASH, handler (opExtCodeHash H) 1 0),
      (ADDRESS, handler opAddress 0 2),
      (BALANCE, handler (opBalance H) 1 0),
      (SELFBALANCE, handler (opSelfBalance H) 0 5),
      (ORIGIN, handler (opOrigin H) 0 2),
      (CALLER, handler opCaller 0 2),
      (CALLVALUE, handler opCallValue 0 2),
      (CALLDATALOAD, handler opCallDataLoad 1 3),
      (CALLDATASIZE, handler opCallDataSize 0 2),
      (CODESIZE, handler opCodeSize 0 2),
      (EXTCODESIZE, handler (opExtCodeSize H) 1 0),
      (GASPRICE, handler (opGasPrice H) 0 2),
      (RETURNDATASIZE, handler opReturnDataSize 0 2),
      (CHAINID, handler (opChainID H) 0 2),
      (opcode_PC, handler opPC 0 2),
      (MSIZE, handler opMSize 0 2),
      (GAS, handler opGas 0 2),
      (EXTCODECOPY, handler (opExtCodeCopy X H) 4 0),
      (CALLDATACOPY, handler (opCallDataCopy X) 3 3),
      (RETURNDATACOPY, handler (opReturnDataCopy X) 3 3),
      (CODECOPY, handler (opCodeCopy X) 3 3),
      (BLOCKHASH, handler (opBlockHash H) 1 20),
      (COINBASE, handler (opCoinbase H) 0 2),
      (TIMESTAMP, handler (opTimestamp H) 0 2),
      (NUMBER, handler (opNumber H) 0 2),
      (DIFFICULTY, handler (opDifficulty H) 0 2),
      (GASLIMIT, handler (opGasLimit H) 0 2),
      (SELFDESTRUCT, handler (opSelfDestruct H) 1 0),
      (JUMP, handler opJump 1 8),
      (JUMPI, handler opJumpi 2 10),
      (JUMPDEST, handler opJumpDest 0 1)]"

definition dispatchTable :: "ext \<Rightarrow> 'h host \<Rightarrow> OpCode \<Rightarrow> 'h handler option" where
  "dispatchTable X H = map_of (dispatch_entries X H)"

section \<open>The interpreter loop\<close>

text \<open>One iteration of the loop of \<open>Run\<close>, from a state that has not stopped.\<close>

definition step :: "ext \<Rightarrow> 'h host \<Rightarrow> 'h state \<Rightarrow> 'h state go" where
  "step X H c =
     (if int (length (c_code c)) \<le> c_ip c then Ret (halt c)
      else if c_ip c < 0 then Panic
      else
        let op = unat (c_code c ! nat (c_ip c)) in
        case dispatchTable X H op of
          None \<Rightarrow> Ret (exit c errOpCodeNotFound)
        | Some inst \<Rightarrow>
            if length (c_stack c) < h_stack inst then Ret (exit c ErrStackUnderflow)
            else
              let (ok, c) = consumeGas c (h_gas inst) in
              if \<not> ok then Ret (exit c ErrOutOfGas)
              else bnd (h_inst inst c) (\<lambda>c.
                if stackSize < length (c_stack c) then Ret (exit c ErrStackOverflow)
                else Ret (c\<lparr>c_ip := c_ip c + 1\<rparr>)))"

fun run_loop :: "ext \<Rightarrow> 'h host \<Rightarrow> nat \<Rightarrow> 'h state \<Rightarrow> 'h state go" where
  "run_loop X H 0 c = (if c_stop c then Ret c else NoFuel)"
| "run_loop X H (Suc n) c = (if c_stop c then Ret c else bnd (step X H c) (run_loop X H n))"

definition state_Run :: "ext \<Rightarrow> 'h host \<Rightarrow> 'h state \<Rightarrow> (bytes \<times> vm_error option \<times> 'h state) go" where
  "state_Run X H c = bnd (run_loop X H (Suc (unat (c_gas c))) c) (\<lambda>c. Ret (c_ret c, c_err c, c))"

text \<open>A state as \<open>acquireState\<close> hands it out, with the fields that \<open>EVM.Run\<close> assigns.\<close>

definition new_state :: "contract \<Rightarrow> 'h \<Rightarrow> forks_in_time \<Rightarrow> 'h state" where
  "new_state k h config =
     \<lparr>c_ip = 0, c_code = ct_Code k, c_tmp = [], c_host = h, c_msg = k, c_config = config,
      c_memory = s_empty, c_lastGasCost = 0, c_stack = [], c_err = None, c_stop = False,
      c_gas = ct_Gas k, c_bitmap = s_empty, c_returnData = [], c_ret = []\<rparr>"

definition EVM_CanRun :: "contract \<Rightarrow> bool" where
  "EVM_CanRun k = True"

definition EVM_Run :: "ext \<Rightarrow> 'h host \<Rightarrow> contract \<Rightarrow> 'h \<Rightarrow> forks_in_time \<Rightarrow> (exec_result \<times> 'h) go" where
  "EVM_Run X H k h config =
     (let c = new_state k h config in
      bnd (bitmap_setCode X (c_bitmap c) (ct_Code k)) (\<lambda>b.
      bnd (state_Run X H (c\<lparr>c_bitmap := b\<rparr>)) (\<lambda>(returnValue, e, c).
      let gasLeft = c_gas c;
          gasLeft = (if e \<noteq> None \<and> e \<noteq> Some ErrExecutionReverted then 0 else gasLeft)
      in Ret (mk_result returnValue gasLeft e, c_host c))))"

section \<open>Stepping lemmas\<close>

lemma dispatchTable_in:
  "dispatchTable X H op = Some h \<Longrightarrow> (op, h) \<in> set (dispatch_entries X H)"
  by (simp add: dispatchTable_def map_of_SomeD)

text \<open>No opcode is registered twice, so the panic of \<open>register\<close> cannot happen.\<close>

lemma dispatch_entries_distinct: "distinct (map fst (dispatch_entries X H))"
  by (simp add: dispatch_entries_def registerRange_def upt_rec)

section \<open>Jump destinations\<close>

text \<open>
  C25: Jumps can only go to a \<open>JUMPDEST\<close> that is an instruction. With the bitmap \<open>setCode\<close> computes in one pass, a jump
  target, of any size, is accepted exactly when it is the position of a byte \<open>0x5B\<close> at which an instruction
  starts when the code is read from the beginning, so never inside the data of a \<open>PUSH\<close>.
\<close>

theorem jump_valid:
  assumes "length code < 2 ^ 62" and "0 \<le> dest"
  shows "\<exists>b. bitmap_setCode X s_empty code = Ret b \<and>
    validJumpdest (c\<lparr>c_code := code, c_bitmap := b\<rparr>) dest = Ret (valid_dest code (nat dest))"
proof -
  obtain b where b: "bitmap_setCode X s_empty code = Ret b" "\<And>k. k < length code \<Longrightarrow> bitmap_isSet b k = Ret (valid_dest code k)"
    using bitmap_setCode_spec [of s_empty X code] by (metis s_ok_empty(1,3))
  have "validJumpdest (c\<lparr>c_code := code, c_bitmap := b\<rparr>) dest = Ret (valid_dest code (nat dest))"
  proof (cases "nat dest < length code")
    case True
    have small: "dest < 2 ^ 62" using True assms by simp
    then have u: "unat (big_Uint64 dest) = nat dest" using assms(2) by (intro unat_big_Uint64) simp_all
    have l: "unat (of_nat (length code) :: u64) = length code" using assms(1) by (intro unat_u64) simp
    have "\<not> 63 \<le> big_BitLen dest" using big_BitLen_le_iff [OF assms(2), of 62] small by simp
    moreover have "\<not> of_nat (length code) \<le> big_Uint64 dest" using True u l by (simp add: word_le_nat_alt)
    ultimately show ?thesis using b(2) [OF True] u by (simp add: validJumpdest_def Let_def)
  next
    case False
    have "63 \<le> big_BitLen dest \<or> of_nat (length code) \<le> big_Uint64 dest"
    proof (cases "dest < 2 ^ 62")
      case True
      then have "unat (big_Uint64 dest) = nat dest" using assms(2) by (intro unat_big_Uint64) simp_all
      moreover have "unat (of_nat (length code) :: u64) = length code" using assms(1) by (intro unat_u64) simp
      ultimately show ?thesis using False by (simp add: word_le_nat_alt)
    next
      case False
      then show ?thesis using big_BitLen_le_iff [OF assms(2), of 62] by simp
    qed
    with False show ?thesis by (auto simp: validJumpdest_def Let_def valid_dest_def)
  qed
  with b(1) show ?thesis by blast
qed

theorem jump_valid_witness:
  "\<forall>X c. \<exists>b. bitmap_setCode X s_empty [0x60, 0x5B, 0x5B] = Ret b \<and>
     validJumpdest ((c :: unit state)\<lparr>c_code := [0x60, 0x5B, 0x5B], c_bitmap := b\<rparr>) 1 = Ret (valid_dest [0x60, 0x5B, 0x5B] 1)"
  by (intro allI) (use jump_valid [of "[0x60, 0x5B, 0x5B]" 1] in simp)

end
