(* ===== verification/Helper_Encoding.thy ===== *)
theory Helper_Encoding
  imports Types
begin

text \<open>
  Numbers and bytes from text (\<open>helper/encoding.go\<close>), with what it uses of \<open>strconv\<close>, \<open>math/big\<close> and \<open>encoding/hex\<close> for the bases
  10 and 16. A nil pointer is \<open>None\<close>. As in Go, a result comes with an optional error beside it.
\<close>

section \<open>The standard library\<close>

datatype num_error = ErrSyntax | ErrRange

definition digit_of :: "char \<Rightarrow> nat option" where
  "digit_of c =
     (let n = of_char c :: nat in
      if 48 \<le> n \<and> n \<le> 57 then Some (n - 48)
      else if 97 \<le> n \<and> n \<le> 122 then Some (n - 87)
      else if 65 \<le> n \<and> n \<le> 90 then Some (n - 55)
      else None)"

text \<open>The loop of \<open>strconv.ParseUint\<close> for 64 bits, which stops at the first digit that does not fit.\<close>

fun ParseUint_loop :: "nat \<Rightarrow> u64 \<Rightarrow> string \<Rightarrow> u64 \<times> num_error option" where
  "ParseUint_loop base n [] = (n, None)"
| "ParseUint_loop base n (c # s) =
     (case digit_of c of
        None \<Rightarrow> (0, Some ErrSyntax)
      | Some d \<Rightarrow>
          if base \<le> d then (0, Some ErrSyntax)
          else if (- 1) div of_nat base + 1 \<le> n then (- 1, Some ErrRange)
          else
            let n = n * of_nat base; n1 = n + of_nat d in
            if n1 < n then (- 1, Some ErrRange) else ParseUint_loop base n1 s)"

definition ParseUint :: "string \<Rightarrow> nat \<Rightarrow> u64 \<times> num_error option" where
  "ParseUint s base = (if s = [] then (0, Some ErrSyntax) else ParseUint_loop base 0 s)"

fun digits_value :: "nat \<Rightarrow> nat \<Rightarrow> string \<Rightarrow> nat option" where
  "digits_value base n [] = Some n"
| "digits_value base n (c # s) =
     (case digit_of c of None \<Rightarrow> None | Some d \<Rightarrow> if base \<le> d then None else digits_value base (n * base + d) s)"

text \<open>\<open>big.Int.SetString\<close>: an optional sign and at least one digit, up to the end of the string.\<close>

definition big_SetString :: "string \<Rightarrow> nat \<Rightarrow> int option" where
  "big_SetString s base =
     (let neg = (s \<noteq> [] \<and> hd s = CHR ''-''); s = (if s \<noteq> [] \<and> (hd s = CHR ''-'' \<or> hd s = CHR ''+'') then tl s else s)
      in if s = [] then None else map_option (\<lambda>n. if neg then - int n else int n) (digits_value base 0 s))"

text \<open>The verb \<open>%d\<close> for a number that is not negative.\<close>

fun decimal :: "nat \<Rightarrow> string" where
  "decimal n = (if n < 10 then [char_of (48 + n)] else decimal (n div 10) @ [char_of (48 + n mod 10)])"

declare decimal.simps [simp del]

section \<open>Parsing\<close>

definition ParseUint64orHex :: "string option \<Rightarrow> u64 \<times> num_error option" where
  "ParseUint64orHex val =
     (case val of
        None \<Rightarrow> (0, None)
      | Some str \<Rightarrow>
          let (str, base) = (if take 2 str = ''0x'' then (drop 2 str, 16) else (str, 10))
          in ParseUint str base)"

text \<open>The result is an error, nil or a number.\<close>

definition ParseUint256orHex :: "string option \<Rightarrow> unit + int option" where
  "ParseUint256orHex val =
     (case val of
        None \<Rightarrow> Inr None
      | Some str \<Rightarrow>
          let (str, base) = (if take 2 str = ''0x'' then (drop 2 str, 16) else (str, 10))
          in case big_SetString str base of None \<Rightarrow> Inl () | Some b \<Rightarrow> Inr (Some b))"

definition ParseBytes :: "string option \<Rightarrow> bytes \<times> bool" where
  "ParseBytes val = (case val of None \<Rightarrow> ([], True) | Some str \<Rightarrow> hex_DecodeString (trim_0x str))"

section \<open>Properties\<close>

lemma digits_value_ge: "digits_value base n s = Some v \<Longrightarrow> 0 < base \<Longrightarrow> n \<le> v"
proof (induction s arbitrary: n)
  case (Cons c s)
  then obtain d where "digits_value base (n * base + d) s = Some v" by (auto split: option.splits if_splits)
  with Cons.IH [of "n * base + d"] Cons.prems(2) show ?case
    by (metis add_leE le_trans mult_le_mono2 nat_mult_1_right Suc_leI One_nat_def)
qed simp

text \<open>The loop computes the value of the digits, or reports that it does not fit into 64 bits.\<close>

lemma ParseUint_loop_value:
  assumes base: "2 \<le> base" "base \<le> 36" and "digits_value base (unat n) s = Some v"
  shows "ParseUint_loop base n s = (if v < 2 ^ 64 then (of_nat v, None) else (- 1, Some ErrRange))"
  using assms(3)
proof (induction s arbitrary: n)
  case Nil
  then show ?case using unat_u64_less [of n] by auto
next
  case (Cons c s)
  obtain d where d: "digit_of c = Some d" "d < base" and v: "digits_value base (unat n * base + d) s = Some v"
    using Cons.prems by (auto split: option.splits if_splits)
  have v_ge: "unat n * base + d \<le> v" using digits_value_ge [OF v] base(1) by simp
  have b: "unat (of_nat base :: u64) = base" "unat (of_nat d :: u64) = d" using base(2) d(2) by (auto intro!: unat_u64)
  define q :: u64 where "q = (- 1) div of_nat base"
  have "unat q = (2 ^ 64 - 1) div base"
    unfolding q_def unat_div_distrib b(1) by (simp add: unsigned_minus_1_eq_mask mask_eq_exp_minus_1)
  moreover have "(2 ^ 64 - 1 :: nat) div base \<le> (2 ^ 64 - 1) div 2" using base(1) by (rule div_le_mono2 [rotated]) simp
  ultimately have "unat (q + 1) = unat q + 1" by (simp add: unat_word_ariths)
  then have "q + 1 \<le> n \<longleftrightarrow> q < n" by (simp add: word_le_nat_alt word_less_nat_alt Suc_le_eq)
  then have cut: "q + 1 \<le> n \<longleftrightarrow> 2 ^ 64 \<le> unat n * base"
    using u64_fits(1) [of "of_nat base" 0 n] b(1) base(1) by (simp add: q_def)
  have sum: "n * of_nat base + of_nat d < n * of_nat base \<longleftrightarrow> 2 ^ 64 \<le> unat n * base + d"
    and val: "unat n * base + d < 2 ^ 64 \<Longrightarrow> unat (n * of_nat base + of_nat d) = unat n * base + d" if "unat n * base < 2 ^ 64"
  proof -
    have m: "unat (n * of_nat base) = unat n * base" using that b(1) by (simp add: unat_word_ariths)
    then show "n * of_nat base + of_nat d < n * of_nat base \<longleftrightarrow> 2 ^ 64 \<le> unat n * base + d"
      using that b(2) d(2) base(2) by (auto simp: word_less_nat_alt unat_word_ariths mod_if)
    show "unat n * base + d < 2 ^ 64 \<Longrightarrow> unat (n * of_nat base + of_nat d) = unat n * base + d"
      using m b(2) by (simp add: unat_word_ariths)
  qed
  show ?case
    using d v_ge cut sum val v Cons.IH [of "n * of_nat base + of_nat d"]
    by (cases "unat n * base + d < 2 ^ 64"; cases "unat n * base < 2 ^ 64") (simp_all add: q_def Let_def)
qed

lemma digits_value_append:
  "digits_value base n (s @ t) = (case digits_value base n s of None \<Rightarrow> None | Some m \<Rightarrow> digits_value base m t)"
  by (induction s arbitrary: n) (simp_all split: option.split)

lemma digit_of_decimal: "d < 10 \<Longrightarrow> digit_of (char_of (48 + d)) = Some d"
  by (simp add: digit_of_def)

lemma decimal_value: "digits_value 10 0 (decimal n) = Some n"
proof (induction n rule: decimal.induct)
  case (1 n)
  have "n mod 10 < 10" by simp
  then show ?case
    using 1 digit_of_decimal [of n] digit_of_decimal [of "n mod 10"]
    by (cases "n < 10") (subst decimal.simps, simp add: digits_value_append)+
qed

lemma decimal_digits: "decimal n \<noteq> []" "c \<in> set (decimal n) \<Longrightarrow> \<exists>d < 10 :: nat. c = char_of (48 + d)"
proof -
  show "decimal n \<noteq> []" by (subst decimal.simps) simp
  show "c \<in> set (decimal n) \<Longrightarrow> \<exists>d < 10 :: nat. c = char_of (48 + d)"
  proof (induction n rule: decimal.induct)
    case (1 n)
    have "n mod 10 < 10" by simp
    moreover from 1(2) have "n < 10 \<and> c = char_of (48 + n) \<or> \<not> n < 10 \<and> (c \<in> set (decimal (n div 10)) \<or> c = char_of (48 + n mod 10))"
      by (subst (asm) decimal.simps) (auto split: if_splits)
    ultimately show ?case using 1(1) by blast
  qed
qed

text \<open>Reading back what was printed: decimal numbers, with the overflow of 64 bits reported, and bytes.\<close>

lemma parse_decimal:
  shows "ParseUint64orHex (Some (decimal n)) = (if n < 2 ^ 64 then (of_nat n, None) else (- 1, Some ErrRange))"
    and "ParseUint256orHex (Some (decimal n)) = Inr (Some (int n))"
proof -
  have digit: "c \<notin> {CHR ''x'', CHR ''-'', CHR ''+''}" if c: "c \<in> set (decimal n)" for c
  proof -
    obtain d :: nat where "d < 10" "c = char_of (48 + d)" using decimal_digits(2) [OF c] by blast
    then have "of_char c = (48 + d :: nat)" by simp
    then show ?thesis using \<open>d < 10\<close> by auto
  qed
  have "take 2 (decimal n) \<noteq> ''0x''"
  proof
    assume "take 2 (decimal n) = ''0x''"
    then have "CHR ''x'' \<in> set (take 2 (decimal n))" by simp
    then show False using digit by (blast dest: in_set_takeD)
  qed
  moreover have "hd (decimal n) \<noteq> CHR ''-''" "hd (decimal n) \<noteq> CHR ''+''" using digit decimal_digits(1) by fastforce+
  ultimately show "ParseUint64orHex (Some (decimal n)) = (if n < 2 ^ 64 then (of_nat n, None) else (- 1, Some ErrRange))"
    and "ParseUint256orHex (Some (decimal n)) = Inr (Some (int n))"
    using ParseUint_loop_value [of 10 0 "decimal n" n] decimal_value [of n] decimal_digits(1) [of n]
    by (simp_all add: ParseUint64orHex_def ParseUint256orHex_def ParseUint_def big_SetString_def)
qed

lemma parse_bytes: "ParseBytes (Some (''0x'' @ hex_EncodeToString bs)) = (bs, True)"
  by (simp add: ParseBytes_def trim_0x_def)

end
