(* ===== verification/Evm_Names.thy ===== *)
theory Evm_Names
  imports Evm_Run Helper_Encoding
begin

text \<open>
  The names of opcodes (the table of \<open>runtime/evm/opcodes.go\<close>) and of storage changes (\<open>runtime/runtime.go\<close>). The map is an
  association list with the latest entry first; a missing entry is the empty string.
\<close>

definition opCodeToString :: "(OpCode \<times> string) list" where
  "opCodeToString =
     [(STOP, ''STOP''), (ADD, ''ADD''), (MUL, ''MUL''), (SUB, ''SUB''), (DIV, ''DIV''),
      (SDIV, ''SDIV''), (MOD, ''MOD''), (SMOD, ''SMOD''), (EXP, ''EXP''), (opcode_NOT, ''NOT''),
      (LT, ''LT''), (GT, ''GT''), (SLT, ''SLT''), (SGT, ''SGT''), (EQ, ''EQ''),
      (ISZERO, ''ISZERO''), (SIGNEXTEND, ''SIGNEXTEND''), (opcode_AND, ''AND''), (opcode_OR, ''OR''), (opcode_XOR, ''XOR''),
      (BYTE, ''BYTE''), (SHL, ''SHL''), (SHR, ''SHR''), (SAR, ''SAR''), (ADDMOD, ''ADDMOD''),
      (MULMOD, ''MULMOD''), (SHA3, ''SHA3''), (ADDRESS, ''ADDRESS''), (BALANCE, ''BALANCE''), (ORIGIN, ''ORIGIN''),
      (CALLER, ''CALLER''), (CALLVALUE, ''CALLVALUE''), (CALLDATALOAD, ''CALLDATALOAD''), (CALLDATASIZE, ''CALLDATASIZE''), (CALLDATACOPY, ''CALLDATACOPY''),
      (CODESIZE, ''CODESIZE''), (CODECOPY, ''CODECOPY''), (GASPRICE, ''GASPRICE''), (EXTCODESIZE, ''EXTCODESIZE''), (EXTCODECOPY, ''EXTCODECOPY''),
      (RETURNDATASIZE, ''RETURNDATASIZE''), (RETURNDATACOPY, ''RETURNDATACOPY''), (EXTCODEHASH, ''EXTCODEHASH''), (BLOCKHASH, ''BLOCKHASH''), (COINBASE, ''COINBASE''),
      (TIMESTAMP, ''TIMESTAMP''), (NUMBER, ''NUMBER''), (DIFFICULTY, ''DIFFICULTY''), (GASLIMIT, ''GASLIMIT''), (POP, ''POP''),
      (MLOAD, ''MLOAD''), (MSTORE, ''MSTORE''), (MSTORE8, ''MSTORE8''), (SLOAD, ''SLOAD''), (SSTORE, ''SSTORE''),
      (JUMP, ''JUMP''), (JUMPI, ''JUMPI''), (opcode_PC, ''PC''), (MSIZE, ''MSIZE''), (GAS, ''GAS''),
      (JUMPDEST, ''JUMPDEST''), (CREATE, ''CREATE''), (CALL, ''CALL''), (RETURN, ''RETURN''), (CALLCODE, ''CALLCODE''),
      (DELEGATECALL, ''DELEGATECALL''), (CREATE2, ''CREATE2''), (STATICCALL, ''STATICCALL''), (REVERT, ''REVERT''), (SELFDESTRUCT, ''SELFDESTRUCT''),
      (CHAINID, ''CHAINID''), (SELFBALANCE, ''SELFBALANCE'')]"

definition opCodesToString :: "OpCode \<Rightarrow> OpCode \<Rightarrow> string \<Rightarrow> (OpCode \<times> string) list \<Rightarrow> (OpCode \<times> string) list" where
  "opCodesToString from to str m =
     (let c = (if from = LOG0 then 0 else 1)
      in fold (\<lambda>i m. (i, str @ decimal (c + (i - from))) # m) [from..<Suc to] m)"

definition init_opCodeToString :: "(OpCode \<times> string) list" where
  "init_opCodeToString =
     opCodesToString SWAP1 SWAP16 ''SWAP''
      (opCodesToString LOG0 LOG4 ''LOG''
        (opCodesToString DUP1 DUP16 ''DUP''
          (opCodesToString PUSH1 PUSH32 ''PUSH'' opCodeToString)))"

definition OpCode_String :: "OpCode \<Rightarrow> string" where
  "OpCode_String op = (case map_of init_opCodeToString op of None \<Rightarrow> [] | Some s \<Rightarrow> s)"

fun StorageStatus_String :: "storage_status \<Rightarrow> string" where
  "StorageStatus_String StorageUnchanged = ''StorageUnchanged''"
| "StorageStatus_String StorageModified = ''StorageModified''"
| "StorageStatus_String StorageModifiedAgain = ''StorageModifiedAgain''"
| "StorageStatus_String StorageAdded = ''StorageAdded''"
| "StorageStatus_String StorageDeleted = ''StorageDeleted''"

text \<open>No opcode is named twice, and every instruction of the dispatch table has a name.\<close>

lemmas name_tables = init_opCodeToString_def opCodesToString_def opCodeToString_def upt_rec

lemma opcode_names:
  shows "distinct (map fst init_opCodeToString)" and "[] \<notin> snd ` set init_opCodeToString"
  by (simp_all add: name_tables)

lemma instruction_named:
  assumes "dispatchTable X H op = Some h"
  shows "OpCode_String op \<noteq> []"
proof -
  have "op \<in> fst ` set (dispatch_entries X H)"
    using dispatchTable_in [OF assms] by force
  moreover have "fst ` set (dispatch_entries X H) \<subseteq> fst ` set init_opCodeToString"
    by (simp add: dispatch_entries_def registerRange_def name_tables)
  ultimately have "map_of init_opCodeToString op \<noteq> None" unfolding map_of_eq_None_iff by blast
  then obtain s where "map_of init_opCodeToString op = Some s" by blast
  moreover from this have "s \<in> snd ` set init_opCodeToString" by (force dest: map_of_SomeD)
  ultimately show ?thesis using opcode_names(2) by (metis OpCode_String_def option.simps(5))
qed

end
