(* ===== verification/Blake2f.thy ===== *)
theory Blake2f
  imports Runtime
begin

text \<open>
  The BLAKE2b compression function of \<open>runtime/precompiled/blake2f.go\<close>. The code keeps the sixteen
  working words in variables \<open>v0\<close> to \<open>v15\<close> and writes every round out as sixteen groups of seven
  assignments; the model keeps the words in a list and one definition per group. The code orders the
  groups column by column, with a permuted message schedule; the reference definition is written after
  RFC 7693, with constants, rotations, working vector and mixing function of its own.
\<close>

unbundle bit_operations_syntax

section \<open>The code\<close>

definition IV :: "u64 list" where
  "IV = [0x6a09e667f3bcc908, 0xbb67ae8584caa73b, 0x3c6ef372fe94f82b, 0xa54ff53a5f1d36f1,
         0x510e527fade682d1, 0x9b05688c2b3e6c1f, 0x1f83d9abfb41bd6b, 0x5be0cd19137e2179]"

definition precomputed :: "nat list list" where
  "precomputed =
     [[0, 2, 4, 6, 1, 3, 5, 7, 8, 10, 12, 14, 9, 11, 13, 15],
      [14, 4, 9, 13, 10, 8, 15, 6, 1, 0, 11, 5, 12, 2, 7, 3],
      [11, 12, 5, 15, 8, 0, 2, 13, 10, 3, 7, 9, 14, 6, 1, 4],
      [7, 3, 13, 11, 9, 1, 12, 14, 2, 5, 4, 15, 6, 10, 0, 8],
      [9, 5, 2, 10, 0, 7, 4, 15, 14, 11, 6, 3, 1, 12, 8, 13],
      [2, 6, 0, 8, 12, 10, 11, 3, 4, 7, 15, 1, 13, 5, 14, 9],
      [12, 1, 14, 4, 5, 15, 13, 10, 0, 6, 9, 8, 7, 3, 2, 11],
      [13, 7, 12, 3, 11, 14, 1, 9, 5, 15, 8, 2, 0, 4, 6, 10],
      [6, 14, 11, 0, 15, 9, 3, 8, 12, 13, 1, 10, 2, 7, 4, 5],
      [10, 8, 7, 1, 2, 4, 6, 5, 15, 9, 3, 13, 11, 14, 12, 0]]"

text \<open>
  One group of assignments: \<open>va += x; va += vb; vd ^= va; vd = RotateLeft64(vd, -r1); vc += vd;
  vb ^= vc; vb = RotateLeft64(vb, -r2)\<close>.
\<close>

definition mix_half :: "nat \<Rightarrow> nat \<Rightarrow> nat \<Rightarrow> nat \<Rightarrow> nat \<Rightarrow> nat \<Rightarrow> u64 \<Rightarrow> u64 list \<Rightarrow> u64 list" where
  "mix_half a b c d r1 r2 x v =
     (let v = v[a := v ! a + x];
          v = v[a := v ! a + v ! b];
          v = v[d := (v ! d) XOR (v ! a)];
          v = v[d := word_rotr r1 (v ! d)];
          v = v[c := v ! c + v ! d];
          v = v[b := (v ! b) XOR (v ! c)]
      in v[b := word_rotr r2 (v ! b)])"

definition F_round :: "u64 list \<Rightarrow> nat list \<Rightarrow> u64 list \<Rightarrow> u64 list" where
  "F_round m s v =
     (let v = mix_half 0 4 8 12 32 24 (m ! (s ! 0)) v;
          v = mix_half 1 5 9 13 32 24 (m ! (s ! 1)) v;
          v = mix_half 2 6 10 14 32 24 (m ! (s ! 2)) v;
          v = mix_half 3 7 11 15 32 24 (m ! (s ! 3)) v;
          v = mix_half 0 4 8 12 16 63 (m ! (s ! 4)) v;
          v = mix_half 1 5 9 13 16 63 (m ! (s ! 5)) v;
          v = mix_half 2 6 10 14 16 63 (m ! (s ! 6)) v;
          v = mix_half 3 7 11 15 16 63 (m ! (s ! 7)) v;
          v = mix_half 0 5 10 15 32 24 (m ! (s ! 8)) v;
          v = mix_half 1 6 11 12 32 24 (m ! (s ! 9)) v;
          v = mix_half 2 7 8 13 32 24 (m ! (s ! 10)) v;
          v = mix_half 3 4 9 14 32 24 (m ! (s ! 11)) v;
          v = mix_half 0 5 10 15 16 63 (m ! (s ! 12)) v;
          v = mix_half 1 6 11 12 16 63 (m ! (s ! 13)) v;
          v = mix_half 2 7 8 13 16 63 (m ! (s ! 14)) v
      in mix_half 3 4 9 14 16 63 (m ! (s ! 15)) v)"

text \<open>The loop over \<open>j\<close>: the first argument is the number of rounds left.\<close>

primrec F_rounds :: "nat \<Rightarrow> nat \<Rightarrow> u64 list \<Rightarrow> u64 list \<Rightarrow> u64 list" where
  "F_rounds 0 j m v = v"
| "F_rounds (Suc n) j m v = F_rounds n (Suc j) m (F_round m (precomputed ! (j mod 10)) v)"

definition F_init :: "u64 list \<Rightarrow> u64 \<Rightarrow> u64 \<Rightarrow> bool \<Rightarrow> u64 list" where
  "F_init h c0 c1 f =
     (let v = h @ IV;
          v = v[12 := (v ! 12) XOR c0];
          v = v[13 := (v ! 13) XOR c1]
      in if f then v[14 := (v ! 14) XOR 0xffffffffffffffff] else v)"

definition F :: "u64 list \<Rightarrow> u64 list \<Rightarrow> u64 \<Rightarrow> u64 \<Rightarrow> bool \<Rightarrow> u32 \<Rightarrow> u64 list" where
  "F h m c0 c1 f rounds =
     (let v = F_rounds (unat rounds) 0 m (F_init h c0 c1 f)
      in map (\<lambda>i. (h ! i) XOR (v ! i) XOR (v ! (i + 8))) [0..<8])"

section \<open>RFC 7693\<close>

definition rfc_sigma :: "nat list list" where
  "rfc_sigma =
     [[0, 1, 2, 3, 4, 5, 6, 7, 8, 9, 10, 11, 12, 13, 14, 15],
      [14, 10, 4, 8, 9, 15, 13, 6, 1, 12, 0, 2, 11, 7, 5, 3],
      [11, 8, 12, 0, 5, 2, 15, 13, 10, 14, 3, 6, 7, 1, 9, 4],
      [7, 9, 3, 1, 13, 12, 11, 14, 2, 6, 5, 10, 4, 0, 15, 8],
      [9, 0, 5, 7, 2, 4, 10, 15, 14, 1, 11, 12, 6, 8, 3, 13],
      [2, 12, 6, 10, 0, 11, 8, 3, 4, 13, 7, 5, 15, 14, 1, 9],
      [12, 5, 1, 15, 14, 13, 4, 10, 0, 7, 6, 3, 9, 2, 8, 11],
      [13, 11, 7, 14, 12, 1, 3, 9, 5, 0, 15, 4, 8, 6, 2, 10],
      [6, 15, 14, 9, 11, 3, 0, 8, 12, 2, 13, 7, 1, 4, 10, 5],
      [10, 2, 8, 4, 7, 6, 1, 5, 15, 11, 9, 14, 3, 12, 13, 0]]"

text \<open>
  The initialization vector: the first 64 bits of the fractional parts of the square roots of the first eight primes (section 2.6). The
  rotation to the right of section 2.3 is composed of shifts.
\<close>

definition rfc_IV :: "u64 list" where
  "rfc_IV = [7640891576956012808, 13503953896175478587, 4354685564936845355, 11912009170470909681,
     5840696475078001361, 11170449401992604703, 2270897969802886507, 6620516959819538809]"

definition rfc_rotr :: "nat \<Rightarrow> u64 \<Rightarrow> u64" where
  "rfc_rotr n x = drop_bit n x XOR push_bit (64 - n) x"

text \<open>The mixing function \<open>G\<close> (section 3.1) on four words and two words of input.\<close>

definition rfc_mix :: "u64 \<times> u64 \<times> u64 \<times> u64 \<Rightarrow> u64 \<Rightarrow> u64 \<Rightarrow> u64 \<times> u64 \<times> u64 \<times> u64" where
  "rfc_mix w x y =
     (case w of (a, b, c, d) \<Rightarrow>
      let a = a + b + x;
          d = rfc_rotr 32 (d XOR a);
          c = c + d;
          b = rfc_rotr 24 (b XOR c);
          a = a + b + y;
          d = rfc_rotr 16 (d XOR a);
          c = c + d;
          b = rfc_rotr 63 (b XOR c)
      in (a, b, c, d))"

definition G :: "nat \<Rightarrow> nat \<Rightarrow> nat \<Rightarrow> nat \<Rightarrow> u64 \<Rightarrow> u64 \<Rightarrow> u64 list \<Rightarrow> u64 list" where
  "G a b c d x y v =
     (case rfc_mix (v ! a, v ! b, v ! c, v ! d) x y of (a', b', c', d') \<Rightarrow> v[a := a', b := b', c := c', d := d'])"

definition rfc_round :: "u64 list \<Rightarrow> nat list \<Rightarrow> u64 list \<Rightarrow> u64 list" where
  "rfc_round m s v =
     (let v = G 0 4 8 12 (m ! (s ! 0)) (m ! (s ! 1)) v;
          v = G 1 5 9 13 (m ! (s ! 2)) (m ! (s ! 3)) v;
          v = G 2 6 10 14 (m ! (s ! 4)) (m ! (s ! 5)) v;
          v = G 3 7 11 15 (m ! (s ! 6)) (m ! (s ! 7)) v;
          v = G 0 5 10 15 (m ! (s ! 8)) (m ! (s ! 9)) v;
          v = G 1 6 11 12 (m ! (s ! 10)) (m ! (s ! 11)) v;
          v = G 2 7 8 13 (m ! (s ! 12)) (m ! (s ! 13)) v
      in G 3 4 9 14 (m ! (s ! 14)) (m ! (s ! 15)) v)"

text \<open>
  The compression function (section 3.2): \<open>t\<close> is the offset counter of 128 bits, \<open>f\<close> marks the final block. The number of rounds, fixed to
  twelve in the RFC, is an argument, and the schedule repeats after ten.
\<close>

definition rfc_work :: "u64 list \<Rightarrow> nat \<Rightarrow> bool \<Rightarrow> u64 list" where
  "rfc_work h t f =
     h @ [rfc_IV ! 0, rfc_IV ! 1, rfc_IV ! 2, rfc_IV ! 3, rfc_IV ! 4 XOR of_nat (t mod 2 ^ 64), rfc_IV ! 5 XOR of_nat (t div 2 ^ 64),
       if f then NOT (rfc_IV ! 6) else rfc_IV ! 6, rfc_IV ! 7]"

definition rfc_F :: "u64 list \<Rightarrow> u64 list \<Rightarrow> nat \<Rightarrow> bool \<Rightarrow> nat \<Rightarrow> u64 list" where
  "rfc_F h m t f rounds =
     (let v = fold (\<lambda>i v. rfc_round m (rfc_sigma ! (i mod 10)) v) [0..<rounds] (rfc_work h t f)
      in map (\<lambda>i. h ! i XOR v ! i XOR v ! (i + 8)) [0..<8])"

section \<open>The code computes the function of the RFC\<close>

lemma length_mix_half [simp]: "length (mix_half a b c d r1 r2 x v) = length v"
  by (simp add: mix_half_def Let_def)

text \<open>Groups that share no word commute: each is a sequence of single assignments.\<close>

definition assign :: "nat \<Rightarrow> nat \<Rightarrow> (u64 \<Rightarrow> u64 \<Rightarrow> u64) \<Rightarrow> u64 list \<Rightarrow> u64 list" where
  "assign i j g v = v[i := g (v ! i) (v ! j)]"

lemma assign_commute:
  assumes "i \<noteq> i'" "i \<noteq> j'" "j \<noteq> i'"
  shows "assign i j g (assign i' j' g' v) = assign i' j' g' (assign i j g v)"
  using assms by (simp add: assign_def list_update_swap)

lemma mix_half_assign:
  "mix_half a b c d r1 r2 x v =
     assign b b (\<lambda>p _. word_rotr r2 p) (assign b c (XOR) (assign c d (+)
     (assign d d (\<lambda>p _. word_rotr r1 p) (assign d a (XOR) (assign a b (+) (assign a a (\<lambda>p _. p + x) v))))))"
  by (simp only: mix_half_def assign_def Let_def)

lemma mix_half_assign_other:
  assumes "{a, b, c, d} \<inter> {i, j} = {}"
  shows "mix_half a b c d r1 r2 x (assign i j g v) = assign i j g (mix_half a b c d r1 r2 x v)"
proof -
  have n: "a \<noteq> i" "b \<noteq> i" "c \<noteq> i" "d \<noteq> i" "a \<noteq> j" "b \<noteq> j" "c \<noteq> j" "d \<noteq> j" using assms by auto
  show ?thesis
    unfolding mix_half_assign
    by (simp only: assign_commute [of _ i j] n not_False_eq_True)
qed

lemma mix_half_commute:
  assumes "{a, b, c, d} \<inter> {a', b', c', d'} = {}"
  shows "mix_half a b c d r1 r2 x (mix_half a' b' c' d' s1 s2 y v) =
    mix_half a' b' c' d' s1 s2 y (mix_half a b c d r1 r2 x v)"
proof -
  have "{a, b, c, d} \<inter> {i, j} = {}" if "i \<in> {a', b', c', d'}" "j \<in> {a', b', c', d'}" for i j
    using assms that by auto
  note other = mix_half_assign_other [OF this]
  show ?thesis
    unfolding mix_half_assign [of a' b' c' d'] by (simp add: other)
qed

text \<open>The constants: \<open>n\<close> is the integer square root of \<open>p * 2\<^sup>1\<^sup>2\<^sup>8\<close>, whose low 64 bits are the fraction.\<close>

lemma rfc_IV_roots:
  "\<forall>(k, p, w) \<in> set (zip [1, 1, 2, 2, 3, 3, 4, 4] (zip [2, 3, 5, 7, 11, 13, 17, 19] rfc_IV)).
     let n = k * 2 ^ 64 + unat w in n * n \<le> p * 2 ^ 128 \<and> p * 2 ^ 128 < (n + 1) * (n + 1)"
  by (simp add: rfc_IV_def Let_def)

lemma IV_eq: "IV = rfc_IV"
  by (simp add: IV_def rfc_IV_def)

lemma rotr_eq:
  assumes "0 < n" and "n < 64"
  shows "word_rotr n (x :: u64) = rfc_rotr n x"
proof (rule bit_word_eqI)
  fix i
  assume i: "i < LENGTH(64)"
  show "bit (word_rotr n x) i = bit (rfc_rotr n x) i"
  proof (cases "i + n < 64")
    case True
    moreover from this have "\<not> 64 - n \<le> i" using assms by linarith
    ultimately show ?thesis
      using i assms by (simp add: bit_word_rotr_iff rfc_rotr_def bit_xor_iff bit_drop_bit_eq bit_push_bit_iff add.commute)
  next
    case False
    then have "(n + i) mod 64 = n + i - 64" using i assms by (simp add: mod_if)
    moreover have "\<not> bit x (n + i)" using False by (auto dest: bit_imp_le_length)
    ultimately show ?thesis
      using False i assms by (auto simp: bit_word_rotr_iff rfc_rotr_def bit_xor_iff bit_drop_bit_eq bit_push_bit_iff add.commute [of i])
  qed
qed

text \<open>Two groups of assignments are one application of \<open>G\<close>.\<close>

lemma G_eq:
  assumes "distinct [a, b, c, d]" and "a < length v" "b < length v" "c < length v" "d < length v"
  shows "G a b c d x y v = mix_half a b c d 16 63 y (mix_half a b c d 32 24 x v)"
proof (rule nth_equalityI)
  fix i
  assume "i < length (G a b c d x y v)"
  then have "i < length v" by (simp add: G_def case_prod_beta)
  then show "G a b c d x y v ! i = mix_half a b c d 16 63 y (mix_half a b c d 32 24 x v) ! i"
    using assms
    by (simp add: G_def rfc_mix_def mix_half_def Let_def nth_list_update rotr_eq [symmetric] add.assoc add.commute add.left_commute)
qed (simp add: G_def case_prod_beta)

lemma length_G [simp]: "length (G a b c d x y v) = length v"
  by (simp add: G_def case_prod_beta)

lemma length_rfc_round [simp]: "length (rfc_round m s v) = length v"
  by (simp add: rfc_round_def Let_def)

lemma precomputed_sigma:
  assumes "j < 10"
  shows "precomputed ! j = map (\<lambda>i. rfc_sigma ! j ! i) [0, 2, 4, 6, 1, 3, 5, 7, 8, 10, 12, 14, 9, 11, 13, 15]"
proof -
  have "\<forall>j \<in> set [0..<10].
      precomputed ! j = map (\<lambda>i. rfc_sigma ! j ! i) [0, 2, 4, 6, 1, 3, 5, 7, 8, 10, 12, 14, 9, 11, 13, 15]"
    by (simp add: precomputed_def rfc_sigma_def upt_rec)
  with assms show ?thesis by simp
qed

lemma F_round_eq:
  assumes "s' = map (\<lambda>i. s ! i) [0, 2, 4, 6, 1, 3, 5, 7, 8, 10, 12, 14, 9, 11, 13, 15]" and "length v = 16"
  shows "F_round m s' v = rfc_round m s v"
proof -
  note com = mix_half_commute [of 0 4 8 12] mix_half_commute [of 1 5 9 13] mix_half_commute [of 2 6 10 14]
    mix_half_commute [of 0 5 10 15] mix_half_commute [of 1 6 11 12] mix_half_commute [of 2 7 8 13]
  have col: "mix_half 3 7 11 15 16 63 h (mix_half 2 6 10 14 16 63 g (mix_half 1 5 9 13 16 63 f
      (mix_half 0 4 8 12 16 63 e (mix_half 3 7 11 15 32 24 d (mix_half 2 6 10 14 32 24 c
      (mix_half 1 5 9 13 32 24 b (mix_half 0 4 8 12 32 24 a v))))))) =
    G 3 7 11 15 d h (G 2 6 10 14 c g (G 1 5 9 13 b f (G 0 4 8 12 a e v)))" if "length v = 16" for a b c d e f g h v
    using that by (simp add: G_eq com(1) [of 3 7 11 15] com(1) [of 2 6 10 14] com(1) [of 1 5 9 13]
        com(2) [of 3 7 11 15] com(2) [of 2 6 10 14] com(3) [of 3 7 11 15] del: One_nat_def)
  have diag: "mix_half 3 4 9 14 16 63 h (mix_half 2 7 8 13 16 63 g (mix_half 1 6 11 12 16 63 f
      (mix_half 0 5 10 15 16 63 e (mix_half 3 4 9 14 32 24 d (mix_half 2 7 8 13 32 24 c
      (mix_half 1 6 11 12 32 24 b (mix_half 0 5 10 15 32 24 a v))))))) =
    G 3 4 9 14 d h (G 2 7 8 13 c g (G 1 6 11 12 b f (G 0 5 10 15 a e v)))" if "length v = 16" for a b c d e f g h v
    using that by (simp add: G_eq com(4) [of 3 4 9 14] com(4) [of 2 7 8 13] com(4) [of 1 6 11 12]
        com(5) [of 3 4 9 14] com(5) [of 2 7 8 13] com(6) [of 3 4 9 14] del: One_nat_def)
  show ?thesis
    unfolding F_round_def rfc_round_def Let_def assms(1) using assms(2) by (simp add: col diag del: One_nat_def)
qed

lemma F_rounds_eq:
  assumes "length v = 16"
  shows "F_rounds n j m v = fold (\<lambda>i v. rfc_round m (rfc_sigma ! (i mod 10)) v) [j..<j + n] v"
  using assms
proof (induction n arbitrary: j v)
  case (Suc n)
  have "F_round m (precomputed ! (j mod 10)) v = rfc_round m (rfc_sigma ! (j mod 10)) v"
    by (rule F_round_eq [OF precomputed_sigma Suc.prems]) simp
  with Suc show ?case by (simp add: upt_conv_Cons del: upt_Suc)
qed simp

lemma F_init_eq:
  assumes "length h = 8"
  shows "F_init h c0 c1 f = rfc_work h (unat c0 + 2 ^ 64 * unat c1) f"
proof -
  obtain v0 v1 v2 v3 v4 v5 v6 v7 where h: "h = [v0, v1, v2, v3, v4, v5, v6, v7]"
    using assms by (auto simp: length_Suc_conv numeral_eq_Suc)
  have "unat c0 < 2 ^ 64" using unsigned_less [where 'a = nat, of c0] by simp
  then have "(unat c0 + 2 ^ 64 * unat c1) mod 2 ^ 64 = unat c0" "(unat c0 + 2 ^ 64 * unat c1) div 2 ^ 64 = unat c1" by simp_all
  moreover have "x XOR 0xffffffffffffffff = NOT x" for x :: u64
  proof -
    have "0xffffffffffffffff = (- 1 :: u64)" by simp
    moreover have "x XOR - 1 = NOT x" by (simp add: bit_eq_iff bit_xor_iff bit_not_iff)
    ultimately show ?thesis by metis
  qed
  ultimately show ?thesis by (simp add: F_init_def rfc_work_def IV_eq h) (simp add: rfc_IV_def)
qed

text \<open>
  C37: The unrolled compression function is the BLAKE2b compression function of RFC 7693, for any number of rounds. The reference has its own
  constants, working vector with counter and final flag, rotations, mixing function on four words and schedule \<open>SIGMA\<close>; the code has
  inlined and reordered all of it.
\<close>

theorem F_eq_rfc:
  assumes "length h = 8"
  shows "F h m c0 c1 f rounds = rfc_F h m (unat c0 + 2 ^ 64 * unat c1) f (unat rounds)"
proof -
  have "length (rfc_work h t f) = 16" for t using assms by (simp add: rfc_work_def)
  then show ?thesis by (simp add: F_def rfc_F_def F_init_eq [OF assms] F_rounds_eq)
qed

theorem F_eq_rfc_witness:
  "length IV = 8 \<and> F IV (replicate 16 1) 3 0 True 12 = rfc_F IV (replicate 16 1) 3 True 12"
proof -
  have "length IV = 8" by (simp add: IV_def)
  from F_eq_rfc [OF this, of "replicate 16 1" 3 0 True 12] this show ?thesis by simp
qed

end
