(* ===== verification/Precompiled.thy ===== *)
theory Precompiled
  imports Blake2f
begin

text \<open>
  The precompiled contracts (package \<open>runtime/precompiled\<close>) with the signature helpers they use
  (\<open>helper/crypto.go\<close>): the table of contracts, their gas and their results. Hash functions, signature
  recovery and the curve arithmetic are third-party code, fields of \<open>ext\<close>. The buffer \<open>p.buf\<close> is
  reused between calls of \<open>get\<close>; every caller consumes its contents before the next call, so \<open>get\<close> is
  a function of its input.
\<close>

section \<open>Signature helpers\<close>

fun bytes_less :: "bytes \<Rightarrow> bytes \<Rightarrow> bool" where
  "bytes_less [] ys = (ys \<noteq> [])"
| "bytes_less (x # xs) [] = False"
| "bytes_less (x # xs) (y # ys) = (x < y \<or> (x = y \<and> bytes_less xs ys))"

definition secp256k1N :: bytes where
  "secp256k1N = fst (DecodeHex ''0xfffffffffffffffffffffffffffffffebaaedce6af48a03bbfd25e8cd0364141'')"

text \<open>The loop stops at the last element when all are zero, so one zero is left.\<close>

fun trimLeftZeros :: "bytes \<Rightarrow> bytes" where
  "trimLeftZeros (b # c # bs) = (if b \<noteq> 0 then b # c # bs else trimLeftZeros (c # bs))"
| "trimLeftZeros bs = bs"

definition ValidateSignatureValues :: "byte \<Rightarrow> bytes \<Rightarrow> bytes \<Rightarrow> bool" where
  "ValidateSignatureValues v r s =
     (if 1 < v then False
      else
        let r = trimLeftZeros r in
        if \<not> bytes_less r secp256k1N \<or> bytes_less r [1] then False
        else
          let s = trimLeftZeros s in
          if \<not> bytes_less s secp256k1N \<or> bytes_less s [1] then False else True)"

definition RecoverPubkey :: "ext \<Rightarrow> bytes \<Rightarrow> bytes \<Rightarrow> pubkey option" where
  "RecoverPubkey X signature hash =
     (let term = (if last signature = 1 then 28 else 27)
      in x_RecoverCompact X (term # butlast signature) hash)"

definition Ecrecover :: "ext \<Rightarrow> bytes \<Rightarrow> bytes \<Rightarrow> bytes option" where
  "Ecrecover X hash sig = map_option (x_MarshalPublicKey X) (RecoverPubkey X sig hash)"

definition PubKeyToAddress :: "ext \<Rightarrow> pubkey \<Rightarrow> address" where
  "PubKeyToAddress X pub = BytesToAddress (drop 12 (Keccak256 X [drop 1 (x_MarshalPublicKey X pub)]))"

section \<open>Buffers\<close>

definition leftPad :: "bytes \<Rightarrow> int \<Rightarrow> bytes" where
  "leftPad buf n = (if n < int (length buf) then buf else replicate (nat n - length buf) 0 @ buf)"

text \<open>The first \<open>sz\<close> bytes of the input, padded with zeros, and what is left; a negative size panics.\<close>

definition get_padded :: "bytes \<Rightarrow> int \<Rightarrow> (bytes \<times> bytes) go" where
  "get_padded input sz =
     (if sz < 0 then Panic
      else
        let n = min (nat sz) (length input)
        in Ret (take n input @ replicate (nat sz - n) 0, drop n input))"

definition getUint64 :: "bytes \<Rightarrow> (u64 \<times> bytes) go" where
  "getUint64 input = bnd (get_padded input 32) (\<lambda>(buf, input).
     Ret (of_nat (be_nat (take 8 (drop 24 buf))), input))"

section \<open>Hashes, identity and signature recovery\<close>

definition baseGasCalc :: "bytes \<Rightarrow> u64 \<Rightarrow> u64 \<Rightarrow> u64" where
  "baseGasCalc input base word = base + of_nat (length input + 31) div 32 * word"

definition ecrecover_run :: "ext \<Rightarrow> bytes \<Rightarrow> bytes go" where
  "ecrecover_run X input = bnd (get_padded input 128) (\<lambda>(input, _).
     if \<exists>b \<in> set (take 31 (drop 32 input)). b \<noteq> 0 then Ret []
     else
       let v = input ! 63 - 27 in
       if \<not> ValidateSignatureValues v (take 32 (drop 64 input)) (take 32 (drop 96 input)) then Ret []
       else
         case Ecrecover X (take 32 input) (take 64 (drop 64 input) @ [v]) of
           None \<Rightarrow> Ret []
         | Some pubKey \<Rightarrow> Ret (leftPad (drop 12 (Keccak256To X [] (drop 1 pubKey))) 32))"

text \<open>The precompiled contract returns the address of the recovered key in 32 bytes.\<close>

lemma ecrecover_address:
  assumes "length (x_keccak256 X (drop 1 (x_MarshalPublicKey X pub))) = 32"
  shows "leftPad (drop 12 (Keccak256To X [] (drop 1 (x_MarshalPublicKey X pub)))) 32 =
    replicate 12 0 @ Address_Bytes (PubKeyToAddress X pub)"
proof -
  let ?a = "drop 12 (x_keccak256 X (drop 1 (x_MarshalPublicKey X pub)))"
  have "length ?a = 20" using assms by simp
  then have "Address_Bytes (BytesToAddress ?a) = ?a" by (rule Address_Bytes_BytesToAddress)
  with assms show ?thesis by (simp add: leftPad_def Keccak256To_def Keccak256_def PubKeyToAddress_def)
qed

definition ripemd160_run :: "ext \<Rightarrow> bytes \<Rightarrow> bytes" where
  "ripemd160_run X input = leftPad (x_ripemd160 X input) 32"

section \<open>Modular exponentiation\<close>

definition adjustedExponentLength :: "int \<Rightarrow> int \<Rightarrow> int" where
  "adjustedExponentLength len head =
     (let bitlength = (if head \<noteq> 0 then int (big_BitLen head) - 1 else 0) in
      if len \<le> 32 then bitlength else (len - 32) * 8 + bitlength)"

definition subMul :: "int \<Rightarrow> int \<Rightarrow> int \<Rightarrow> int \<Rightarrow> int" where
  "subMul x a b c = (x * b - c) + big_Div (x * x) a"

definition multComplexity :: "int \<Rightarrow> int" where
  "multComplexity x =
     (if x \<le> 64 then x * x
      else if x \<le> 1024 then subMul x 4 96 3072
      else subMul x 16 480 199680)"

definition modExp_gas :: "bytes \<Rightarrow> u64 go" where
  "modExp_gas input =
     bnd (get_padded input 32) (\<lambda>(val, tail). let baseLen = big_SetBytes val in
     bnd (get_padded tail 32) (\<lambda>(val, tail). let expLen = big_SetBytes val in
     bnd (get_padded tail 32) (\<lambda>(val, _). let modLen = big_SetBytes val in
     let input = (if 96 < length input then drop 96 input else []);
         expHeadLen = (if expLen < 32 then big_Uint64 expLen else 32);
         bLen = big_Uint64 baseLen
     in bnd (if bLen < of_nat (length input)
             then bnd (get_padded (drop (unat bLen) input) (sint expHeadLen)) (\<lambda>(val, _). Ret (big_SetBytes val))
             else Ret 0) (\<lambda>expHead.
     let gasCost = multComplexity (if baseLen \<le> modLen then modLen else baseLen);
         adjExpLen = adjustedExponentLength expLen expHead;
         gasCost = (if 1 \<le> adjExpLen then gasCost * adjExpLen else gasCost * 1);
         gasCost = big_Div gasCost 20
     in Ret (if \<not> big_IsUint64 gasCost then - 1 else big_Uint64 gasCost)))))"

text \<open>\<open>big.Int.Exp\<close> with a positive modulus.\<close>

definition big_Exp :: "int \<Rightarrow> int \<Rightarrow> int \<Rightarrow> int" where
  "big_Exp x y m = x ^ nat y mod m"

definition modExp_run :: "bytes \<Rightarrow> bytes go" where
  "modExp_run input =
     bnd (getUint64 input) (\<lambda>(baseLen, input).
     bnd (getUint64 input) (\<lambda>(exponentLen, input).
     bnd (getUint64 input) (\<lambda>(modulusLen, input).
     if baseLen = 0 \<and> modulusLen = 0 then Ret []
     else
     bnd (get_padded input (sint baseLen)) (\<lambda>(val, input). let base = big_SetBytes val in
     bnd (get_padded input (sint exponentLen)) (\<lambda>(val, input). let exponent = big_SetBytes val in
     bnd (get_padded input (sint modulusLen)) (\<lambda>(val, _). let modulus = big_SetBytes val;
       res = (if modulus \<noteq> 0 then big_Bytes (big_Exp base exponent modulus) else [])
     in Ret (leftPad res (sint modulusLen))))))))"

section \<open>The curve bn256\<close>

type_synonym run_result = "vm_error + bytes"

definition bn256Add_run :: "ext \<Rightarrow> bytes \<Rightarrow> run_result go" where
  "bn256Add_run X input =
     bnd (get_padded input 64) (\<lambda>(val, input).
     case x_G1_Unmarshal X val of
       None \<Rightarrow> Ret (Inl ErrPrecompiled)
     | Some b1 \<Rightarrow>
         bnd (get_padded input 64) (\<lambda>(val, _).
         case x_G1_Unmarshal X val of
           None \<Rightarrow> Ret (Inl ErrPrecompiled)
         | Some b2 \<Rightarrow> Ret (Inr (x_G1_Marshal X (x_G1_Add X b1 b2)))))"

definition bn256Mul_run :: "ext \<Rightarrow> bytes \<Rightarrow> run_result go" where
  "bn256Mul_run X input =
     bnd (get_padded input 64) (\<lambda>(v, input).
     case x_G1_Unmarshal X v of
       None \<Rightarrow> Ret (Inl ErrPrecompiled)
     | Some b0 \<Rightarrow>
         bnd (get_padded input 32) (\<lambda>(v, _).
         Ret (Inr (x_G1_Marshal X (x_G1_ScalarMult X b0 (big_SetBytes v))))))"

definition falseBytes :: bytes where
  "falseBytes = replicate 32 0"

definition trueBytes :: bytes where
  "trueBytes = (replicate 32 0)[31 := 1]"

text \<open>The loop over the pairs of points: the number of pairs left, and the points read so far.\<close>

fun pairing_points ::
    "ext \<Rightarrow> nat \<Rightarrow> bytes \<Rightarrow> bn256_G1 list \<Rightarrow> bn256_G2 list \<Rightarrow> (bn256_G1 list \<times> bn256_G2 list) option go" where
  "pairing_points X 0 input ar br = Ret (Some (ar, br))"
| "pairing_points X (Suc n) input ar br =
     bnd (get_padded input 64) (\<lambda>(buf, input).
     case x_G1_Unmarshal X buf of
       None \<Rightarrow> Ret None
     | Some a0 \<Rightarrow>
         bnd (get_padded input 128) (\<lambda>(buf, input).
         case x_G2_Unmarshal X buf of
           None \<Rightarrow> Ret None
         | Some b0 \<Rightarrow> pairing_points X n input (ar @ [a0]) (br @ [b0])))"

definition bn256Pairing_gas :: "bytes \<Rightarrow> forks_in_time \<Rightarrow> u64" where
  "bn256Pairing_gas input config =
     (let (baseGas, pointGas) = (if Istanbul config then (45000, 34000) else (100000, 80000))
      in baseGas + pointGas * of_nat (length input div 192))"

definition bn256Pairing_run :: "ext \<Rightarrow> bytes \<Rightarrow> run_result go" where
  "bn256Pairing_run X input =
     (if length input = 0 then Ret (Inr trueBytes)
      else if length input mod 192 \<noteq> 0 then Ret (Inl ErrPrecompiled)
      else bnd (pairing_points X (length input div 192) input [] []) (\<lambda>pts.
        case pts of
          None \<Rightarrow> Ret (Inl ErrPrecompiled)
        | Some (ar, br) \<Rightarrow> Ret (Inr (if x_PairingCheck X ar br then trueBytes else falseBytes))))"

section \<open>BLAKE2 compression\<close>

definition le_u64 :: "bytes \<Rightarrow> u64" where
  "le_u64 bs = of_nat (be_nat (rev (take 8 bs)))"

definition le_bytes :: "u64 \<Rightarrow> bytes" where
  "le_bytes w = rev (be_bytes 8 (unat w))"

definition blake2f_gas :: "bytes \<Rightarrow> u64" where
  "blake2f_gas input = (if length input \<noteq> 213 then 0 else of_nat (be_nat (take 4 input)))"

definition blake2f_run :: "bytes \<Rightarrow> run_result" where
  "blake2f_run input =
     (if length input \<noteq> 213 then Inl ErrPrecompiled
      else
        let lastByte = input ! 212 in
        if lastByte \<noteq> 0 \<and> lastByte \<noteq> 1 then Inl ErrPrecompiled
        else
          let rounds = of_nat (be_nat (take 4 input)) :: u32;
              input = drop 4 input;
              h = map (\<lambda>i. le_u64 (drop (8 * i) input)) [0..<8];
              input = drop 64 input;
              m = map (\<lambda>i. le_u64 (drop (8 * i) input)) [0..<16];
              input = drop 128 input;
              c0 = le_u64 input;
              c1 = le_u64 (drop 8 input);
              flag = input ! 16
          in Inr (concat (map le_bytes (F h m c0 c1 (flag = 1) rounds))))"

section \<open>The runtime\<close>

datatype precompile =
    ecrecover | sha256h | ripemd160h | identity | modExp | bn256Add | bn256Mul | bn256Pairing | blake2f

text \<open>\<open>NewPrecompiled\<close> with \<open>setupContracts\<close>: the map of the registered contracts.\<close>

definition setupContracts :: "(address \<times> precompile) list" where
  "setupContracts =
     [(StringToAddress ''1'', ecrecover), (StringToAddress ''2'', sha256h),
      (StringToAddress ''3'', ripemd160h), (StringToAddress ''4'', identity),
      (StringToAddress ''5'', modExp), (StringToAddress ''6'', bn256Add),
      (StringToAddress ''7'', bn256Mul), (StringToAddress ''8'', bn256Pairing),
      (StringToAddress ''9'', blake2f)]"

definition contracts :: "address \<Rightarrow> precompile option" where
  "contracts = map_of setupContracts"

definition precompile_gas :: "precompile \<Rightarrow> bytes \<Rightarrow> forks_in_time \<Rightarrow> u64 go" where
  "precompile_gas p input config =
     (case p of
        ecrecover \<Rightarrow> Ret 3000
      | identity \<Rightarrow> Ret (baseGasCalc input 15 3)
      | sha256h \<Rightarrow> Ret (baseGasCalc input 60 12)
      | ripemd160h \<Rightarrow> Ret (baseGasCalc input 600 120)
      | modExp \<Rightarrow> modExp_gas input
      | bn256Add \<Rightarrow> Ret (if Istanbul config then 150 else 500)
      | bn256Mul \<Rightarrow> Ret (if Istanbul config then 6000 else 40000)
      | bn256Pairing \<Rightarrow> Ret (bn256Pairing_gas input config)
      | blake2f \<Rightarrow> Ret (blake2f_gas input))"

definition precompile_run :: "ext \<Rightarrow> precompile \<Rightarrow> bytes \<Rightarrow> run_result go" where
  "precompile_run X p input =
     (case p of
        ecrecover \<Rightarrow> bnd (ecrecover_run X input) (\<lambda>r. Ret (Inr r))
      | identity \<Rightarrow> Ret (Inr input)
      | sha256h \<Rightarrow> Ret (Inr (x_sha256 X input))
      | ripemd160h \<Rightarrow> Ret (Inr (ripemd160_run X input))
      | modExp \<Rightarrow> bnd (modExp_run input) (\<lambda>r. Ret (Inr r))
      | bn256Add \<Rightarrow> bn256Add_run X input
      | bn256Mul \<Rightarrow> bn256Mul_run X input
      | bn256Pairing \<Rightarrow> bn256Pairing_run X input
      | blake2f \<Rightarrow> Ret (blake2f_run input))"

definition Precompiled_CanRun :: "contract \<Rightarrow> forks_in_time \<Rightarrow> bool" where
  "Precompiled_CanRun c config =
     (if contracts (ct_CodeAddress c) = None then False
      else if ct_CodeAddress c \<in> {StringToAddress ''5'', StringToAddress ''6'', StringToAddress ''7'', StringToAddress ''8''}
      then Byzantium config
      else if ct_CodeAddress c = StringToAddress ''9'' then Istanbul config
      else True)"

text \<open>
  A missing entry is a nil interface, on which the call of \<open>gas\<close> panics. The code also writes the
  remaining gas back to the contract, which its callers do not read.
\<close>

definition Precompiled_Run :: "ext \<Rightarrow> contract \<Rightarrow> forks_in_time \<Rightarrow> exec_result go" where
  "Precompiled_Run X c config =
     bnd (deref (contracts (ct_CodeAddress c))) (\<lambda>p.
     bnd (precompile_gas p (ct_Input c) config) (\<lambda>gasCost.
     if ct_Gas c < gasCost then Ret (mk_result [] 0 (Some ErrOutOfGas))
     else
       let g = ct_Gas c - gasCost in
       bnd (precompile_run X p (ct_Input c)) (\<lambda>r.
       Ret (case r of Inl e \<Rightarrow> mk_result [] 0 (Some e) | Inr returnValue \<Rightarrow> mk_result returnValue g None))))"

section \<open>Properties\<close>

text \<open>A precompiled contract returns no more gas than it got, and nothing runs out of model fuel.\<close>

lemma Precompiled_Run_gas: "post (Precompiled_Run X c config) (\<lambda>r. res_GasLeft r \<le> ct_Gas c)"
  by (auto simp: Precompiled_Run_def Let_def post_def [of "precompile_gas _ _ _"] post_def [of "precompile_run _ _ _"]
      post_def [of "deref _"] not_less word_sub_le_iff split: sum.split)

lemma nofuel_get_padded [simp]: "\<not> nofuel (get_padded input n)" "\<not> nofuel (getUint64 input)"
  by (auto simp: get_padded_def getUint64_def Let_def)

lemma nofuel_pairing_points [simp]: "\<not> nofuel (pairing_points X n input ar br)"
  by (induction X n input ar br rule: pairing_points.induct) (auto split: option.split)

lemma nofuel_precompile_gas [simp]: "\<not> nofuel (precompile_gas p input config)"
  by (cases p) (simp_all add: precompile_gas_def modExp_gas_def case_prod_beta Let_def)

lemma nofuel_precompile_run [simp]: "\<not> nofuel (precompile_run X p input)"
  by (cases p) (auto simp: precompile_run_def ecrecover_run_def modExp_run_def bn256Add_run_def
      bn256Mul_run_def bn256Pairing_run_def Let_def split: option.split)

lemma nofuel_Precompiled_Run [simp]: "\<not> nofuel (Precompiled_Run X c config)"
  by (auto simp: Precompiled_Run_def Let_def nofuel_def [of "deref _"])

text \<open>
  The modular exponentiation on a well-formed input: lengths, then base, exponent and modulus in big
  endian. The result has the length of the modulus.
\<close>

lemma get_padded_take:
  assumes "length xs = n"
  shows "get_padded (xs @ ys) (int n) = Ret (xs, ys)"
  using assms by (simp add: get_padded_def Let_def)

lemma getUint64_be:
  assumes "n < 2 ^ 64"
  shows "getUint64 (be_bytes 32 n @ ys) = Ret (of_nat n, ys)"
proof -
  have "be_bytes 32 n = be_bytes 24 (n div 256 ^ 8) @ be_bytes 8 n"
    using be_bytes_add [of 24 8 n] by simp
  moreover have "be_nat (be_bytes 8 n) = n" using assms by (simp add: be_nat_be_bytes)
  ultimately show ?thesis
    using get_padded_take [of "be_bytes 32 n" 32 ys] by (simp add: getUint64_def)
qed

lemma leftPad_big_Bytes:
  assumes "x < 256 ^ n"
  shows "leftPad (big_Bytes (int x)) (int n) = be_bytes n x"
proof -
  let ?l = "(bitlen x + 7) div 8"
  have "x < 2 ^ (8 * n)" using assms by (simp add: power_mult)
  then have "bitlen x \<le> 8 * n" using bitlen_le_iff by simp
  then have l: "?l \<le> n" by simp
  then obtain m where n: "n = m + ?l" using le_iff_add add.commute by metis
  have "be_bytes (m + ?l) x = replicate m 0 @ be_bytes ?l x"
    using be_bytes_pad [OF less_256_pow_bytes] .
  with n show ?thesis by (simp add: leftPad_def big_Bytes_def big_BitLen_def)
qed

text \<open>
  C38: The modular exponentiation contract is correct: on the encoding of base, exponent and a nonzero modulus, with
  their lengths in 32-byte words, it returns \<open>base ^ exponent mod modulus\<close> as big-endian bytes of the length of
  the modulus.
\<close>

theorem modExp_run_correct:
  assumes "length bs < 2 ^ 63" and "length es < 2 ^ 63" and "length ms < 2 ^ 63"
    and "0 < be_nat ms"
  shows "modExp_run (be_bytes 32 (length bs) @ be_bytes 32 (length es) @ be_bytes 32 (length ms) @ bs @ es @ ms) =
    Ret (be_bytes (length ms) (be_nat bs ^ be_nat es mod be_nat ms))"
proof -
  have len: "sint (of_nat (length xs) :: u64) = int (length xs)" if "length xs < 2 ^ 63" for xs :: bytes
    using that by (simp add: signed_of_nat signed_take_bit_int_eq_self)
  have ms: "ms \<noteq> []" using assms(4) by auto
  have nz: "(of_nat (length ms) :: u64) \<noteq> 0"
    using ms assms(3) by (simp add: word_of_nat_eq_0_iff nat_dvd_not_less)
  let ?e = "be_nat bs ^ be_nat es mod be_nat ms"
  have e: "?e < 256 ^ length ms" using assms(4) be_nat_less [of ms] by (meson mod_less_divisor order.strict_trans)
  have pad: "leftPad (big_Bytes (int ?e)) (int (length ms)) = be_bytes (length ms) ?e"
    using leftPad_big_Bytes [OF e] .
  have g: "get_padded ms (int (length ms)) = Ret (ms, [])" using get_padded_take [of ms "length ms" "[]"] by simp
  show ?thesis
    using assms nz len pad
    by (simp add: modExp_run_def getUint64_be get_padded_take g big_SetBytes_def big_Exp_def nat_power_eq
        of_nat_mod [symmetric] of_nat_power [symmetric] del: of_nat_mod of_nat_power)
qed

theorem modExp_run_correct_witness:
  "modExp_run (be_bytes 32 (length [3]) @ be_bytes 32 (length [5]) @ be_bytes 32 (length [7]) @ [3] @ [5] @ [7]) =
    Ret (be_bytes 1 (3 ^ 5 mod 7))"
  using modExp_run_correct [of "[3]" "[5]" "[7]"] by (simp add: be_nat_def)

end
