(* ===== verification/Transition.thy ===== *)
theory Transition
  imports Txn Precompiled Evm_Run
begin

text \<open>
  The state transition (\<open>transition.go\<close>, messages of \<open>types.go\<close>, \<open>BlockResult\<close> apart): a transaction is
  checked, charged, executed and settled. The transition is its own host: the virtual machine calls
  back into it for nested calls. The recursion between the two is bounded by the call depth: contracts
  deeper than 1025 are refused by the code, so \<open>call_fuel\<close> levels of \<open>callx_n\<close> are enough, which
  \<open>Transition_Host\<close> proves.
\<close>

section \<open>Data\<close>

record Transaction =
  msg_Nonce :: u64
  msg_GasPrice :: int
  msg_Gas :: u64
  msg_To :: "address option"
  msg_Value :: int
  msg_Input :: bytes
  msg_Hash :: hash
  msg_From :: address

definition IsContractCreation :: "Transaction \<Rightarrow> bool" where
  "IsContractCreation t \<longleftrightarrow> msg_To t = None"

datatype tx_error =
    ErrNonceIncorrect | ErrNotEnoughFundsForGas | ErrBlockLimitReached | ErrIntrinsicGasOverflow
  | ErrNotEnoughIntrinsicGas | ErrTxNotEnoughFunds | ErrVM vm_error

record Result =
  rc_Logs :: "log list"
  rc_Success :: bool
  rc_GasUsed :: u64
  rc_ContractAddress :: address
  rc_ReturnValue :: bytes

text \<open>The two implementations of the interface \<open>runtime.Runtime\<close> that a transition registers.\<close>

datatype runtime = RuntimeEVM | RuntimePrecompiled

record ('t, 's) transition =
  tn_runtimes :: "runtime list"
  tn_forks :: forks_in_time
  tn_txn :: "('t, 's) txn"
  tn_ctx :: tx_context
  tn_gasPool :: u64
  tn_getHash :: "u64 \<Rightarrow> hash"
  tn_totalGas :: u64

definition spuriousDragonMaxCodeSize :: nat where
  "spuriousDragonMaxCodeSize = 24576"

definition TxGas :: u64 where
  "TxGas = 21000"

definition TxGasContractCreation :: u64 where
  "TxGasContractCreation = 53000"

definition emptyCodeHashTwo :: "ext \<Rightarrow> hash" where
  "emptyCodeHashTwo X = BytesToHash (Keccak256 X [])"

definition SetRuntime :: "runtime \<Rightarrow> ('t, 's) transition \<Rightarrow> ('t, 's) transition" where
  "SetRuntime r e = e\<lparr>tn_runtimes := r # tn_runtimes e\<rparr>"

text \<open>\<open>big.NewInt(n).String()\<close> as bytes.\<close>

fun dec_digits :: "nat \<Rightarrow> bytes" where
  "dec_digits n = (if n < 10 then [of_nat (48 + n)] else dec_digits (n div 10) @ [of_nat (48 + n mod 10)])"

declare dec_digits.simps [simp del]

definition dec_string :: "int \<Rightarrow> bytes" where
  "dec_string n = (if n < 0 then 45 # dec_digits (nat (- n)) else dec_digits (nat n))"

definition defaultGetHash :: "ext \<Rightarrow> u64 \<Rightarrow> hash" where
  "defaultGetHash X n = BytesToHash (Keccak256 X [dec_string (sint n)])"

definition NewTransition ::
    "ext \<Rightarrow> ('t, 's) trees \<Rightarrow> forks_in_time \<Rightarrow> tx_context \<Rightarrow> snapshot \<Rightarrow> ('t, 's) transition" where
  "NewTransition X T forks ctx snap =
     (let transition = \<lparr>tn_runtimes = [], tn_forks = forks, tn_txn = newTxn T snap, tn_ctx = ctx,
            tn_gasPool = tx_GasLimit ctx, tn_getHash = (\<lambda>_. 0), tn_totalGas = 0\<rparr>;
          transition = SetRuntime RuntimeEVM transition;
          transition = SetRuntime RuntimePrecompiled transition
      in transition\<lparr>tn_getHash := defaultGetHash X\<rparr>)"

definition SetGetHash :: "(u64 \<Rightarrow> hash \<Rightarrow> u64 \<Rightarrow> hash) \<Rightarrow> ('t, 's) transition \<Rightarrow> ('t, 's) transition" where
  "SetGetHash helper t = t\<lparr>tn_getHash := helper (tx_Number (tn_ctx t)) (tx_Hash (tn_ctx t))\<rparr>"

definition Transition_Commit :: "('t, 's) trees \<Rightarrow> ('t, 's) transition \<Rightarrow> Object list" where
  "Transition_Commit T e = Txn_Commit T (tn_txn e)"

section \<open>Intrinsic gas\<close>

definition TransactionGasCost :: "Transaction \<Rightarrow> bool \<Rightarrow> bool \<Rightarrow> tx_error + u64" where
  "TransactionGasCost msg isHomestead isIstanbul =
     (let cost = (if IsContractCreation msg \<and> isHomestead then TxGasContractCreation else TxGas);
          payload = msg_Input msg
      in if 0 < length payload then
           let zeros = of_nat (length (filter (\<lambda>b. b = 0) payload)) :: u64;
               nonZeros = of_nat (length payload) - zeros;
               nonZeroCost = (if isIstanbul then 16 else 68)
           in if (- 1 - cost) div nonZeroCost < nonZeros then Inl ErrIntrinsicGasOverflow
              else
                let cost = cost + nonZeros * nonZeroCost in
                if (- 1 - cost) div 4 < zeros then Inl ErrIntrinsicGasOverflow
                else Inr (cost + zeros * 4)
         else Inr cost)"

section \<open>Gas pool and prechecks\<close>

definition subGasPool :: "u64 \<Rightarrow> ('t, 's) transition \<Rightarrow> tx_error option \<times> ('t, 's) transition" where
  "subGasPool amount t =
     (if tn_gasPool t < amount then (Some ErrBlockLimitReached, t)
      else (None, t\<lparr>tn_gasPool := tn_gasPool t - amount\<rparr>))"

definition addGasPool :: "u64 \<Rightarrow> ('t, 's) transition \<Rightarrow> ('t, 's) transition" where
  "addGasPool amount t = t\<lparr>tn_gasPool := tn_gasPool t + amount\<rparr>"

definition subGasLimitPrice ::
    "ext \<Rightarrow> ('t, 's) trees \<Rightarrow> Transaction \<Rightarrow> ('t, 's) transition \<Rightarrow> tx_error option \<times> ('t, 's) transition" where
  "subGasLimitPrice X T msg t =
     (let upfrontGasCost = msg_GasPrice msg * uint (msg_Gas msg);
          (err, txn) = Txn_SubBalance X T (msg_From msg) upfrontGasCost (tn_txn t);
          t = t\<lparr>tn_txn := txn\<rparr>
      in case err of
           None \<Rightarrow> (None, t)
         | Some e \<Rightarrow> (Some (if e = ErrNotEnoughFunds then ErrNotEnoughFundsForGas else ErrVM e), t))"

definition nonceCheck :: "('t, 's) trees \<Rightarrow> Transaction \<Rightarrow> ('t, 's) transition \<Rightarrow> tx_error option" where
  "nonceCheck T msg t =
     (if Txn_GetNonce T (tn_txn t) (msg_From msg) \<noteq> msg_Nonce msg then Some ErrNonceIncorrect else None)"

text \<open>The closure of \<open>apply\<close>: an error, or the gas left for the execution.\<close>

definition preCheck ::
    "ext \<Rightarrow> ('t, 's) trees \<Rightarrow> Transaction \<Rightarrow> ('t, 's) transition \<Rightarrow> (tx_error + u64) \<times> ('t, 's) transition" where
  "preCheck X T msg t =
     (case nonceCheck T msg t of
        Some err \<Rightarrow> (Inl err, t)
      | None \<Rightarrow>
          (case subGasLimitPrice X T msg t of
             (Some err, t) \<Rightarrow> (Inl err, t)
           | (None, t) \<Rightarrow>
               (case subGasPool (msg_Gas msg) t of
                  (Some err, t) \<Rightarrow> (Inl err, t)
                | (None, t) \<Rightarrow>
                    (case TransactionGasCost msg (Homestead (tn_forks t)) (Istanbul (tn_forks t)) of
                       Inl err \<Rightarrow> (Inl err, t)
                     | Inr intrinsicGasCost \<Rightarrow>
                         (let gasLeft = msg_Gas msg - intrinsicGasCost in
                          if msg_Gas msg < gasLeft then (Inl ErrNotEnoughIntrinsicGas, t)
                          else if Txn_GetBalance T (tn_txn t) (msg_From msg) < msg_Value msg
                          then (Inl ErrTxNotEnoughFunds, t)
                          else (Inr gasLeft, t))))))"

section \<open>Calls and creations\<close>

definition transfer ::
    "ext \<Rightarrow> ('t, 's) trees \<Rightarrow> address \<Rightarrow> address \<Rightarrow> int option \<Rightarrow> ('t, 's) transition \<Rightarrow> vm_error option \<times> ('t, 's) transition" where
  "transfer X T from to amount t =
     (case amount of
        None \<Rightarrow> (None, t)
      | Some v \<Rightarrow>
          (case Txn_SubBalance X T from v (tn_txn t) of
             (Some err, txn) \<Rightarrow>
               (Some (if err = ErrNotEnoughFunds then ErrInsufficientBalance else err), t\<lparr>tn_txn := txn\<rparr>)
           | (None, txn) \<Rightarrow> (None, t\<lparr>tn_txn := Txn_AddBalance X T to v txn\<rparr>)))"

definition revert :: "nat \<Rightarrow> ('t, 's) transition \<Rightarrow> ('t, 's) transition go" where
  "revert s t = bnd (Txn_RevertToSnapshot s (tn_txn t)) (\<lambda>txn. Ret (t\<lparr>tn_txn := txn\<rparr>))"

text \<open>The loop of \<open>run\<close> over the registered runtimes.\<close>

fun run_runtimes ::
    "ext \<Rightarrow> ('t, 's) transition host \<Rightarrow> runtime list \<Rightarrow> contract \<Rightarrow> ('t, 's) transition \<Rightarrow>
      (exec_result \<times> ('t, 's) transition) go" where
  "run_runtimes X H [] c t = Ret (mk_result [] 0 (Some ErrRuntimeNotFound), t)"
| "run_runtimes X H (RuntimePrecompiled # rs) c t =
     (if Precompiled_CanRun c (tn_forks t)
      then bnd (Precompiled_Run X c (tn_forks t)) (\<lambda>r. Ret (r, t))
      else run_runtimes X H rs c t)"
| "run_runtimes X H (RuntimeEVM # rs) c t =
     (if EVM_CanRun c then EVM_Run X H c t (tn_forks t) else run_runtimes X H rs c t)"

definition Transition_run ::
    "ext \<Rightarrow> ('t, 's) transition host \<Rightarrow> contract \<Rightarrow> ('t, 's) transition \<Rightarrow> (exec_result \<times> ('t, 's) transition) go" where
  "Transition_run X H c t = run_runtimes X H (tn_runtimes t) c t"

definition applyCall ::
    "ext \<Rightarrow> ('t, 's) trees \<Rightarrow> ('t, 's) transition host \<Rightarrow> contract \<Rightarrow> call_type \<Rightarrow> ('t, 's) transition \<Rightarrow>
      (exec_result \<times> ('t, 's) transition) go" where
  "applyCall X T H c callType t =
     (if 1024 + 1 < ct_Depth c then Ret (mk_result [] (ct_Gas c) (Some ErrDepth), t)
      else
        let (snapshot, txn) = Txn_Snapshot (tn_txn t);
            txn = Txn_TouchAccount X T (ct_Address c) txn;
            t = t\<lparr>tn_txn := txn\<rparr>;
            (err, t) = (if callType = Call then transfer X T (ct_Caller c) (ct_Address c) (ct_Value c) t else (None, t))
        in case err of
             Some e \<Rightarrow> Ret (mk_result [] (ct_Gas c) (Some e), t)
           | None \<Rightarrow>
               bnd (Transition_run X H c t) (\<lambda>(result, t).
               if Failed result then bnd (revert snapshot t) (\<lambda>t. Ret (result, t)) else Ret (result, t)))"

definition hasCodeOrNonce :: "ext \<Rightarrow> ('t, 's) trees \<Rightarrow> address \<Rightarrow> ('t, 's) transition \<Rightarrow> bool" where
  "hasCodeOrNonce X T addr t =
     (if Txn_GetNonce T (tn_txn t) addr \<noteq> 0 then True
      else
        let codeHash = Txn_GetCodeHash T (tn_txn t) addr
        in codeHash \<noteq> emptyCodeHashTwo X \<and> codeHash \<noteq> 0)"

text \<open>
  The parts of \<open>applyCreate\<close>: the new account, when EIP-158 forces one, and what follows the run of
  the initialisation code.
\<close>

definition create_account ::
    "ext \<Rightarrow> ('t, 's) trees \<Rightarrow> address \<Rightarrow> ('t, 's) transition \<Rightarrow> ('t, 's) transition" where
  "create_account X T addr t =
     (if EIP158 (tn_forks t)
      then let t = t\<lparr>tn_txn := Txn_CreateAccount X T addr (tn_txn t)\<rparr>
           in t\<lparr>tn_txn := Txn_IncrNonce X T addr (tn_txn t)\<rparr>
      else t)"

definition finish_create ::
    "ext \<Rightarrow> ('t, 's) trees \<Rightarrow> contract \<Rightarrow> nat \<Rightarrow> exec_result \<Rightarrow> ('t, 's) transition \<Rightarrow>
      (exec_result \<times> ('t, 's) transition) go" where
  "finish_create X T c snapshot result t =
     (if Failed result then bnd (revert snapshot t) (\<lambda>t. Ret (result, t))
      else if EIP158 (tn_forks t) \<and> spuriousDragonMaxCodeSize < length (res_ReturnValue result)
      then bnd (revert snapshot t) (\<lambda>t. Ret (mk_result [] 0 (Some ErrMaxCodeSizeExceeded), t))
      else
        let gasCost = of_nat (length (res_ReturnValue result)) * 200 in
        if res_GasLeft result < gasCost then
          let result = result\<lparr>res_Err := Some ErrCodeStoreOutOfGas, res_ReturnValue := []\<rparr> in
          if Homestead (tn_forks t)
          then bnd (revert snapshot t) (\<lambda>t. Ret (result\<lparr>res_GasLeft := 0\<rparr>, t))
          else Ret (result, t)
        else
          let result = result\<lparr>res_GasLeft := res_GasLeft result - gasCost\<rparr>
          in Ret (result, t\<lparr>tn_txn := Txn_SetCode X T (ct_Address c) (res_ReturnValue result) (tn_txn t)\<rparr>))"

definition applyCreate ::
    "ext \<Rightarrow> ('t, 's) trees \<Rightarrow> ('t, 's) transition host \<Rightarrow> contract \<Rightarrow> ('t, 's) transition \<Rightarrow>
      (exec_result \<times> ('t, 's) transition) go" where
  "applyCreate X T H c t =
     (let gasLimit = ct_Gas c in
      if 1024 + 1 < ct_Depth c then Ret (mk_result [] gasLimit (Some ErrDepth), t)
      else
        let t = t\<lparr>tn_txn := Txn_IncrNonce X T (ct_Caller c) (tn_txn t)\<rparr> in
        if hasCodeOrNonce X T (ct_Address c) t then Ret (mk_result [] 0 (Some ErrContractAddressCollision), t)
        else
          let (snapshot, txn) = Txn_Snapshot (tn_txn t);
              t = create_account X T (ct_Address c) (t\<lparr>tn_txn := txn\<rparr>);
              (err, t) = transfer X T (ct_Caller c) (ct_Address c) (ct_Value c) t
          in case err of
               Some e \<Rightarrow> Ret (mk_result [] gasLimit (Some e), t)
             | None \<Rightarrow> bnd (Transition_run X H c t) (\<lambda>(result, t). finish_create X T c snapshot result t))"

definition Transition_Callx ::
    "ext \<Rightarrow> ('t, 's) trees \<Rightarrow> ('t, 's) transition host \<Rightarrow> ('t, 's) transition \<Rightarrow> contract \<Rightarrow>
      (exec_result \<times> ('t, 's) transition) go" where
  "Transition_Callx X T H t c =
     (if ct_Type c = Create then applyCreate X T H c t else applyCall X T H c (ct_Type c) t)"

section \<open>The transition as host\<close>

definition Transition_Selfdestruct ::
    "ext \<Rightarrow> ('t, 's) trees \<Rightarrow> ('t, 's) transition \<Rightarrow> address \<Rightarrow> address \<Rightarrow> ('t, 's) transition" where
  "Transition_Selfdestruct X T t addr beneficiary =
     (let txn = tn_txn t;
          txn = (if \<not> Txn_HasSuicided T txn addr then Txn_AddRefund T 24000 txn else txn);
          txn = Txn_AddBalance X T beneficiary (Txn_GetBalance T txn addr) txn;
          txn = Txn_Suicide X T addr txn
      in t\<lparr>tn_txn := txn\<rparr>)"

definition Transition_SetStorage ::
    "ext \<Rightarrow> ('t, 's) trees \<Rightarrow> ('t, 's) transition \<Rightarrow> address \<Rightarrow> hash \<Rightarrow> hash \<Rightarrow> forks_in_time \<Rightarrow>
      storage_status \<times> ('t, 's) transition" where
  "Transition_SetStorage X T t addr key value config =
     (let (status, txn) = Txn_SetStorage X T (tn_txn t) addr key value config in (status, t\<lparr>tn_txn := txn\<rparr>))"

text \<open>The methods of \<open>Transition\<close> that implement \<open>runtime.Host\<close>, given the one that runs nested calls.\<close>

definition host_of ::
    "ext \<Rightarrow> ('t, 's) trees \<Rightarrow> (('t, 's) transition \<Rightarrow> contract \<Rightarrow> (exec_result \<times> ('t, 's) transition) go) \<Rightarrow>
      ('t, 's) transition host" where
  "host_of X T callx =
     \<lparr>AccountExists = (\<lambda>t a. Txn_Exist T (tn_txn t) a),
      GetStorage = (\<lambda>t a k. Txn_GetState T (tn_txn t) a k),
      SetStorage = Transition_SetStorage X T,
      GetBalance = (\<lambda>t a. Txn_GetBalance T (tn_txn t) a),
      GetCodeSize = (\<lambda>t a. Txn_GetCodeSize T (tn_txn t) a),
      GetCodeHash = (\<lambda>t a. Txn_GetCodeHash T (tn_txn t) a),
      GetCode = (\<lambda>t a. Txn_GetCode T (tn_txn t) a),
      Selfdestruct = Transition_Selfdestruct X T,
      GetTxContext = tn_ctx,
      GetBlockHash = (\<lambda>t n. tn_getHash t n),
      EmitLog = (\<lambda>t a ts d. t\<lparr>tn_txn := Txn_EmitLog T a ts d (tn_txn t)\<rparr>),
      Callx = callx,
      Empty = (\<lambda>t a. Txn_Empty X T (tn_txn t) a),
      GetNonce = (\<lambda>t a. Txn_GetNonce T (tn_txn t) a)\<rparr>"

primrec callx_n ::
    "ext \<Rightarrow> ('t, 's) trees \<Rightarrow> nat \<Rightarrow> ('t, 's) transition \<Rightarrow> contract \<Rightarrow> (exec_result \<times> ('t, 's) transition) go" where
  "callx_n X T 0 = (\<lambda>t c. NoFuel)"
| "callx_n X T (Suc d) = Transition_Callx X T (host_of X T (callx_n X T d))"

definition call_fuel :: nat where
  "call_fuel = 1025"

definition Transition_host :: "ext \<Rightarrow> ('t, 's) trees \<Rightarrow> ('t, 's) transition host" where
  "Transition_host X T = host_of X T (callx_n X T call_fuel)"

section \<open>Transactions\<close>

definition Transition_Create ::
    "ext \<Rightarrow> ('t, 's) trees \<Rightarrow> address \<Rightarrow> bytes \<Rightarrow> int \<Rightarrow> u64 \<Rightarrow> ('t, 's) transition \<Rightarrow> (exec_result \<times> ('t, 's) transition) go" where
  "Transition_Create X T caller cd value g t =
     (let address = CreateAddress X caller (Txn_GetNonce T (tn_txn t) caller);
          contract = NewContractCreation 1 caller caller address (Some value) g cd
      in bnd (applyCreate X T (Transition_host X T) contract t) (\<lambda>(res, t).
         Ret (res\<lparr>res_CreateAddress := address\<rparr>, t)))"

definition Transition_Call ::
    "ext \<Rightarrow> ('t, 's) trees \<Rightarrow> address \<Rightarrow> address \<Rightarrow> bytes \<Rightarrow> int \<Rightarrow> u64 \<Rightarrow> ('t, 's) transition \<Rightarrow>
      (exec_result \<times> ('t, 's) transition) go" where
  "Transition_Call X T caller to input value g t =
     (let c = NewContractCall 1 caller caller to (Some value) g (Txn_GetCode T (tn_txn t) to) input
      in applyCall X T (Transition_host X T) c Call t)"

text \<open>Refund, fees and gas pool, once the execution is over.\<close>

definition settle ::
    "ext \<Rightarrow> ('t, 's) trees \<Rightarrow> Transaction \<Rightarrow> exec_result \<Rightarrow> ('t, 's) transition \<Rightarrow> exec_result \<times> ('t, 's) transition" where
  "settle X T msg result t =
     (let refund = Txn_GetRefund T (tn_txn t);
          result = result\<lparr>res_GasUsed := msg_Gas msg - res_GasLeft result\<rparr>;
          maxRefund = res_GasUsed result div 2;
          refund = (if maxRefund < refund then maxRefund else refund);
          result = result\<lparr>res_GasLeft := res_GasLeft result + refund, res_GasUsed := res_GasUsed result - refund\<rparr>;
          remaining = uint (res_GasLeft result) * msg_GasPrice msg;
          txn = Txn_AddBalance X T (msg_From msg) remaining (tn_txn t);
          coinbaseFee = uint (res_GasUsed result) * msg_GasPrice msg;
          txn = Txn_AddBalance X T (tx_Coinbase (tn_ctx t)) coinbaseFee txn
      in (result, addGasPool (res_GasLeft result) (t\<lparr>tn_txn := txn\<rparr>)))"

definition apply_msg ::
    "ext \<Rightarrow> ('t, 's) trees \<Rightarrow> Transaction \<Rightarrow> ('t, 's) transition \<Rightarrow> ((tx_error + exec_result) \<times> ('t, 's) transition) go" where
  "apply_msg X T msg t =
     (case preCheck X T msg t of
        (Inl err, t) \<Rightarrow> Ret (Inl err, t)
      | (Inr gasLeft, t) \<Rightarrow>
          let t = t\<lparr>tn_ctx := (tn_ctx t)\<lparr>tx_GasPrice := BytesToHash (big_Bytes (msg_GasPrice msg)), tx_Origin := msg_From msg\<rparr>\<rparr>
          in bnd (case msg_To msg of
                    None \<Rightarrow> Transition_Create X T (msg_From msg) (msg_Input msg) (msg_Value msg) gasLeft t
                  | Some to \<Rightarrow>
                      Transition_Call X T (msg_From msg) to (msg_Input msg) (msg_Value msg) gasLeft
                        (t\<lparr>tn_txn := Txn_IncrNonce X T (msg_From msg) (tn_txn t)\<rparr>))
               (\<lambda>(result, t). let (result, t) = settle X T msg result t in Ret (Inr result, t)))"

definition applyImpl ::
    "ext \<Rightarrow> ('t, 's) trees \<Rightarrow> Transaction \<Rightarrow> ('t, 's) transition \<Rightarrow> ((tx_error + exec_result) \<times> ('t, 's) transition) go" where
  "applyImpl X T msg t =
     (let (s, txn) = Txn_Snapshot (tn_txn t) in
      bnd (apply_msg X T msg (t\<lparr>tn_txn := txn\<rparr>)) (\<lambda>(r, t).
      case r of
        Inl err \<Rightarrow> bnd (revert s t) (\<lambda>t. Ret (Inl err, t))
      | Inr result \<Rightarrow> Ret (Inr result, t)))"

definition Write ::
    "ext \<Rightarrow> ('t, 's) trees \<Rightarrow> Transaction \<Rightarrow> ('t, 's) transition \<Rightarrow> ((tx_error + Result) \<times> ('t, 's) transition) go" where
  "Write X T msg t =
     bnd (applyImpl X T msg t) (\<lambda>(r, t).
     case r of
       Inl err \<Rightarrow> Ret (Inl err, t)
     | Inr result \<Rightarrow>
         let t = t\<lparr>tn_totalGas := tn_totalGas t + res_GasUsed result\<rparr>;
             (logs, txn) = Txn_Logs T (tn_txn t)
         in bnd (CleanDeleteObjects X T (if Byzantium (tn_forks t) then True else EIP158 (tn_forks t)) txn) (\<lambda>txn.
            Ret (Inr \<lparr>rc_Logs = logs, rc_Success = Byzantium (tn_forks t) \<and> \<not> Failed result,
                      rc_GasUsed = res_GasUsed result,
                      rc_ContractAddress = (if msg_To msg = None then CreateAddress X (msg_From msg) (msg_Nonce msg) else 0),
                      rc_ReturnValue = res_ReturnValue result\<rparr>,
                 t\<lparr>tn_txn := txn\<rparr>)))"

end
