(* ===== verification/Evm_Frame.thy ===== *)
theory Evm_Frame
  imports Evm_Run
begin

text \<open>
  What an instruction leaves alone. \<open>frame R c c'\<close> says that message, configuration, code and jump
  destinations are unchanged, the memory stays well formed and the host has moved along the relation
  \<open>R\<close>. Instructions that only work on the machine satisfy it with equality and never add gas; the
  locale \<open>host_frame\<close> lifts a preorder respected by the host operations to whole runs of the machine.
\<close>

section \<open>Frames\<close>

definition frame :: "('h \<Rightarrow> 'h \<Rightarrow> bool) \<Rightarrow> 'h state \<Rightarrow> 'h state \<Rightarrow> bool" where
  "frame R c c' \<longleftrightarrow> c_msg c' = c_msg c \<and> c_config c' = c_config c \<and> c_code c' = c_code c \<and>
     c_bitmap c' = c_bitmap c \<and> R (c_host c) (c_host c') \<and> mem_ok c'"

definition loc :: "'h state \<Rightarrow> 'h state \<Rightarrow> bool" where
  "loc c c' \<longleftrightarrow> frame (=) c c' \<and> unat (c_gas c') \<le> unat (c_gas c)"

lemmas loc_defs = loc_def frame_def

lemma mem_ok_simps [simp]:
  "mem_ok (c\<lparr>c_ip := i\<rparr>) = mem_ok c" "mem_ok (c\<lparr>c_tmp := t\<rparr>) = mem_ok c"
  "mem_ok (c\<lparr>c_host := h\<rparr>) = mem_ok c" "mem_ok (c\<lparr>c_lastGasCost := g\<rparr>) = mem_ok c"
  "mem_ok (c\<lparr>c_stack := s\<rparr>) = mem_ok c" "mem_ok (c\<lparr>c_err := e\<rparr>) = mem_ok c"
  "mem_ok (c\<lparr>c_stop := b\<rparr>) = mem_ok c" "mem_ok (c\<lparr>c_gas := g\<rparr>) = mem_ok c"
  "mem_ok (c\<lparr>c_returnData := r\<rparr>) = mem_ok c" "mem_ok (c\<lparr>c_ret := r\<rparr>) = mem_ok c"
  "mem_ok (exit c x) = mem_ok c" "mem_ok (halt c) = mem_ok c" "mem_ok (push c v) = mem_ok c"
  "mem_ok (set_top c v) = mem_ok c" "mem_ok (resetReturnData c) = mem_ok c"
  by (simp_all add: mem_ok_def exit_def halt_def push_def set_top_def resetReturnData_def)

lemma loc_refl: "mem_ok c \<Longrightarrow> loc c c"
  by (simp add: loc_defs)

lemma loc_trans: "loc a b \<Longrightarrow> loc b c \<Longrightarrow> loc a c"
  by (simp add: loc_defs)

lemma loc_mem_ok: "loc c c' \<Longrightarrow> mem_ok c'"
  by (simp add: loc_defs)

text \<open>Updates of the other fields do not matter for \<open>loc\<close>.\<close>

lemma loc_upd [simp]:
  "loc c (c'\<lparr>c_ip := i\<rparr>) = loc c c'" "loc c (c'\<lparr>c_tmp := t\<rparr>) = loc c c'"
  "loc c (c'\<lparr>c_lastGasCost := g\<rparr>) = loc c c'" "loc c (c'\<lparr>c_stack := s\<rparr>) = loc c c'"
  "loc c (c'\<lparr>c_err := e\<rparr>) = loc c c'" "loc c (c'\<lparr>c_stop := b\<rparr>) = loc c c'"
  "loc c (c'\<lparr>c_returnData := r\<rparr>) = loc c c'" "loc c (c'\<lparr>c_ret := r\<rparr>) = loc c c'"
  "loc c (exit c' x) = loc c c'" "loc c (halt c') = loc c c'" "loc c (push c' v) = loc c c'"
  "loc c (set_top c' v) = loc c c'" "loc c (resetReturnData c') = loc c c'"
  by (simp_all add: loc_defs exit_def halt_def push_def set_top_def resetReturnData_def)

lemma loc_upd_left [simp]:
  "loc (c\<lparr>c_stack := s\<rparr>) c' = loc c c'" "loc (c\<lparr>c_tmp := t\<rparr>) c' = loc c c'"
  "loc (resetReturnData c) c' = loc c c'"
  by (simp_all add: loc_defs resetReturnData_def)

section \<open>Primitives\<close>

lemma post_popv:
  "(\<And>v s. c_stack c = v # s \<Longrightarrow> Q (v, c\<lparr>c_stack := s\<rparr>)) \<Longrightarrow> post (popv c) Q"
  by (cases "c_stack c") (simp_all add: popv_def pop_def)

lemma post_topv: "(\<And>v s. c_stack c = v # s \<Longrightarrow> Q v) \<Longrightarrow> post (topv c) Q"
  by (cases "c_stack c") (simp_all add: topv_def state_top_def)

lemma post_peekAt: "(\<And>v. Q v) \<Longrightarrow> post (peekAt c n) Q"
  by (simp add: peekAt_def)

lemma popAddr_eq: "popAddr c = (a, c') \<Longrightarrow> c' = c\<lparr>c_stack := tl (c_stack c)\<rparr>"
  by (cases "c_stack c") (auto simp: popAddr_def pop_def)

lemma consumeGas_loc:
  assumes "consumeGas c g = (ok, c')" and "mem_ok c"
  shows "loc c c'" and "c_stack c' = c_stack c"
    and "ok \<Longrightarrow> unat (c_gas c') + unat g = unat (c_gas c)" and "\<not> ok \<Longrightarrow> c_stop c'"
  using assms
  by (auto simp: consumeGas_def exit_def loc_defs word_less_nat_alt unat_u64_sub not_less
      word_le_nat_alt split: if_splits)

lemma checkMemory_loc:
  assumes "checkMemory X c off sz = (ok, c')" and "mem_ok c"
  shows "loc c c'" and "c_stack c' = c_stack c" and "\<not> ok \<Longrightarrow> c_stop c'"
proof -
  have "loc c c' \<and> c_stack c' = c_stack c \<and> (\<not> ok \<longrightarrow> c_stop c')"
  proof (cases ok)
    case True
    with assms(1) have eq: "checkMemory X c off sz = (True, c')" by simp
    note t = checkMemory_True [OF eq assms(2)]
    have u: "unat (c_gas c') \<le> unat (c_gas c)" using t(5) by (simp add: word_le_nat_alt)
    have "c_stack c' = c_stack c" "c_msg c' = c_msg c" "c_config c' = c_config c"
      "c_code c' = c_code c" "c_bitmap c' = c_bitmap c" "c_host c' = c_host c"
      by (subst t(6), simp)+
    with True t(1) u show ?thesis by (simp add: loc_defs)
  next
    case False
    with assms(1) have "checkMemory X c off sz = (False, c')" by simp
    from checkMemory_False [OF this] assms(2) show ?thesis
      by (auto simp: loc_defs exit_def mem_ok_def)
  qed
  then show "loc c c'" and "c_stack c' = c_stack c" and "\<not> ok \<Longrightarrow> c_stop c'" by simp_all
qed

lemma loc_memory: "loc c c' \<Longrightarrow> mem_ok (c'\<lparr>c_memory := m\<rparr>) \<Longrightarrow> loc c (c'\<lparr>c_memory := m\<rparr>)"
  by (simp add: loc_defs)

text \<open>Chained forms, for sequences of checks.\<close>

lemma loc_consumeGas: "consumeGas c g = (ok, c') \<Longrightarrow> loc a c \<Longrightarrow> loc a c'"
  using consumeGas_loc(1) loc_mem_ok loc_trans by blast

lemma loc_checkMemory: "checkMemory X c off sz = (ok, c') \<Longrightarrow> loc a c \<Longrightarrow> loc a c'"
  using checkMemory_loc(1) loc_mem_ok loc_trans by blast

lemma loc_popAddr: "popAddr c = (v, c') \<Longrightarrow> loc a c \<Longrightarrow> loc a c'"
  by (auto dest!: popAddr_eq)

lemma loc_refl_stack: "mem_ok c \<Longrightarrow> loc c (c\<lparr>c_stack := s\<rparr>)"
  by (simp add: loc_refl)

lemmas loc_chain = loc_consumeGas loc_checkMemory loc_popAddr loc_refl loc_refl_stack loc_memory

lemma post_consumeGas:
  assumes "mem_ok c"
    and "\<And>ok c'. loc c c' \<Longrightarrow> c_stack c' = c_stack c \<Longrightarrow>
      (ok \<Longrightarrow> unat (c_gas c') + unat g = unat (c_gas c)) \<Longrightarrow> (\<not> ok \<Longrightarrow> c_stop c') \<Longrightarrow> post (f ok c') Q"
  shows "post (case consumeGas c g of (ok, c') \<Rightarrow> f ok c') Q"
  using consumeGas_loc [of c g] assms by (auto simp: post_prod)

lemma post_checkMemory:
  assumes "mem_ok c"
    and "\<And>ok c'. checkMemory X c off sz = (ok, c') \<Longrightarrow> loc c c' \<Longrightarrow> c_stack c' = c_stack c \<Longrightarrow>
      (\<not> ok \<Longrightarrow> c_stop c') \<Longrightarrow> post (f ok c') Q"
  shows "post (case checkMemory X c off sz of (ok, c') \<Rightarrow> f ok c') Q"
  using checkMemory_loc [of X c off sz] assms by (auto simp: post_prod)

lemma post_popAddr:
  "(\<And>a. post (f a (c\<lparr>c_stack := tl (c_stack c)\<rparr>)) Q) \<Longrightarrow>
     post (case popAddr c of (a, c') \<Rightarrow> f a c') Q"
  by (auto simp: post_prod dest!: popAddr_eq)

lemma post_get2:
  assumes "mem_ok c"
    and "\<And>r ok c'. loc c c' \<Longrightarrow> c_stack c' = c_stack c \<Longrightarrow> (\<not> ok \<Longrightarrow> c_stop c') \<Longrightarrow> Q (r, ok, c')"
  shows "post (get2 X c dst off len) Q"
  using refl [of "get2 X c dst off len"] assms(1)
proof (cases rule: get2_cases)
  case none
  show ?thesis
    unfolding none(2) using assms(2) [where ok = True and c' = c] loc_refl [OF assms(1)] by simp
next
  case (fail c')
  note cm = checkMemory_loc [OF fail(2) assms(1)]
  show ?thesis unfolding fail(3) using assms(2) [where ok = False and c' = c'] cm by simp
next
  case (ok c')
  note cm = checkMemory_loc [OF ok(2) assms(1)]
  show ?thesis unfolding ok(3) using assms(2) [where ok = True and c' = c'] cm by simp
qed

lemma s_copy_within:
  assumes "mem_ok c" and "s_copy (c_memory c) lo hi src = Ret m" and "hi \<le> s_len (c_memory c)"
  shows "mem_ok (c\<lparr>c_memory := m\<rparr>)"
proof -
  have "lo \<le> hi" using assms(2) by (simp add: s_copy_def split: if_splits)
  from s_copy_bytes [OF _ assms(3) this, of src] assms show ?thesis
    by (auto simp: mem_ok_def)
qed

lemma post_s_copy:
  assumes "mem_ok c" and "hi \<le> s_len (c_memory c)" and "\<And>m. mem_ok (c\<lparr>c_memory := m\<rparr>) \<Longrightarrow> Q m"
  shows "post (s_copy (c_memory c) lo hi src) Q"
  using s_copy_within [OF assms(1) _ assms(2)] assms(3) by (auto simp: post_def)

lemma post_mem_setBytes:
  assumes "mem_ok c"
  shows "post (mem_setBytes c mo input sz d) (loc c)"
  unfolding mem_setBytes_def Let_def
  using assms by (auto intro!: post_s_copy intro: loc_memory loc_refl)

section \<open>Instructions that only work on the machine\<close>

lemmas post_intros = post_popv post_topv post_peekAt post_get2 post_consumeGas post_checkMemory
  post_popAddr

lemma loc_arith:
  assumes "mem_ok c"
  shows "post (opAdd c) (loc c)" "post (opMul c) (loc c)" "post (opSub c) (loc c)"
    "post (opDiv c) (loc c)" "post (opSDiv c) (loc c)" "post (opMod c) (loc c)"
    "post (opSMod c) (loc c)" "post (opAddMod c) (loc c)" "post (opMulMod c) (loc c)"
  using assms
  by (auto simp: opAdd_def opMul_def opSub_def opDiv_def opSDiv_def opMod_def opSMod_def
      opAddMod_def opMulMod_def Let_def loc_refl intro!: post_intros)

lemma loc_logic:
  assumes "mem_ok c"
  shows "post (opAnd c) (loc c)" "post (opOr c) (loc c)" "post (opXor c) (loc c)"
    "post (opByte c) (loc c)" "post (opNot c) (loc c)" "post (opIsZero c) (loc c)"
    "post (opEq c) (loc c)" "post (opLt c) (loc c)" "post (opGt c) (loc c)"
    "post (opSlt c) (loc c)" "post (opSgt c) (loc c)" "post (opSignExtension c) (loc c)"
    "post (opShl c) (loc c)" "post (opShr c) (loc c)" "post (opSar c) (loc c)"
  using assms
  by (auto simp: opAnd_def opOr_def opXor_def opByte_def opNot_def opIsZero_def opEq_def opLt_def
      opGt_def opSlt_def opSgt_def opSignExtension_def opShl_def opShr_def opSar_def Let_def
      loc_refl intro!: post_intros split: option.split)

lemma loc_exp: "mem_ok c \<Longrightarrow> post (opExp c) (loc c)"
  by (auto simp: opExp_def Let_def intro!: post_intros)

lemma loc_context:
  assumes "mem_ok c"
  shows "post (opAddress c) (loc c)" "post (opCaller c) (loc c)" "post (opCallValue c) (loc c)"
    "post (opCallDataLoad c) (loc c)" "post (opCallDataSize c) (loc c)" "post (opCodeSize c) (loc c)"
    "post (opReturnDataSize c) (loc c)" "post (opPC c) (loc c)" "post (opMSize c) (loc c)"
    "post (opGas c) (loc c)" "post (opSelfBalance H c) (loc c)" "post (opChainID H c) (loc c)"
    "post (opOrigin H c) (loc c)" "post (opGasPrice H c) (loc c)" "post (opBlockHash H c) (loc c)"
    "post (opCoinbase H c) (loc c)" "post (opTimestamp H c) (loc c)" "post (opNumber H c) (loc c)"
    "post (opDifficulty H c) (loc c)" "post (opGasLimit H c) (loc c)"
  using assms
  by (auto simp: opAddress_def opCaller_def opCallValue_def opCallDataLoad_def opCallDataSize_def
      opCodeSize_def opReturnDataSize_def opPC_def opMSize_def opGas_def opSelfBalance_def
      opChainID_def opOrigin_def opGasPrice_def opBlockHash_def opCoinbase_def opTimestamp_def
      opNumber_def opDifficulty_def opGasLimit_def Let_def loc_refl intro!: post_intros)

lemma loc_stack:
  assumes "mem_ok c"
  shows "post (opPop c) (loc c)" "post (opPush n c) (loc c)" "post (opDup n c) (loc c)"
    "post (opSwap n c) (loc c)" "post (opJump c) (loc c)" "post (opJumpi c) (loc c)"
    "post (opJumpDest c) (loc c)" "post (opStop c) (loc c)"
  using assms
  by (auto simp: opPop_def opPush_def opDup_def opSwap_def opJump_def opJumpi_def opJumpDest_def
      opStop_def pop_def state_swap_def Let_def loc_refl post_def [of "validJumpdest _ _"]
      intro!: post_intros split: list.split)

text \<open>
  The instructions without gas in the dispatch table consume some themselves, unless they stop the
  machine.
\<close>

definition loc_less :: "'h state \<Rightarrow> 'h state \<Rightarrow> bool" where
  "loc_less c c' \<longleftrightarrow> loc c c' \<and> (c_stop c' \<or> unat (c_gas c') < unat (c_gas c))"

lemma consumeGas_less:
  assumes "consumeGas c g = (ok, c')" and "mem_ok c" and "0 < g"
  shows "loc c c'" and "c_stack c' = c_stack c" and "\<not> ok \<Longrightarrow> c_stop c'"
    and "ok \<Longrightarrow> unat (c_gas c') < unat (c_gas c)"
proof -
  have "0 < unat g" using assms(3) by (simp add: word_less_nat_alt)
  with consumeGas_loc [OF assms(1,2)]
  show "loc c c'" "c_stack c' = c_stack c" "\<not> ok \<Longrightarrow> c_stop c'"
    "ok \<Longrightarrow> unat (c_gas c') < unat (c_gas c)" by auto
qed

lemma loc_memory_ops:
  assumes "mem_ok c"
  shows "post (opMload X c) (loc c)" "post (opSha3 X c) (loc c)" "post (opHalt X op c) (loc c)"
  using assms
  by (auto simp: opMload_def opSha3_def opHalt_def Let_def loc_refl loc_mem_ok intro!: post_intros)
    (blast intro: loc_trans)+

lemma opHalt_stops: "mem_ok c \<Longrightarrow> post (opHalt X op c) c_stop"
  by (auto simp: opHalt_def Let_def exit_def halt_def intro!: post_intros)

lemma checkMemory_off:
  assumes "checkMemory X c off sz = (True, c')" and "mem_ok c" and "sz \<noteq> 0"
  shows "unat (big_Uint64 off) = nat off" and "unat (big_Uint64 sz) = nat sz"
    and "unat (big_Uint64 off) + unat (big_Uint64 sz) \<le> s_len (c_memory c')"
    and "big_Uint64 sz \<noteq> 0"
proof -
  note t = checkMemory_True [OF assms(1,2)]
  from t(2) [OF assms(3)] t(1) have "off < 2 ^ 64" "sz < 2 ^ 64" "0 \<le> off" "0 < sz"
    by (auto simp: mem_ok_def)
  then show "unat (big_Uint64 off) = nat off" "unat (big_Uint64 sz) = nat sz"
    by (simp_all add: unat_big_Uint64)
  then show "unat (big_Uint64 off) + unat (big_Uint64 sz) \<le> s_len (c_memory c')"
    using t(2) [OF assms(3)] by simp
  show "big_Uint64 sz \<noteq> 0"
    using \<open>unat (big_Uint64 sz) = nat sz\<close> \<open>0 < sz\<close> by auto
qed

lemma loc_MStore: "mem_ok c \<Longrightarrow> post (opMStore X c) (loc c)"
proof -
  assume ok: "mem_ok c"
  have "post (s_copy (c_memory c2) o' (o' + 32) bs) (\<lambda>m. loc c (c2\<lparr>c_memory := m\<rparr>))"
    if "checkMemory X (c\<lparr>c_stack := s\<rparr>) off 32 = (True, c2)" "o' = unat (big_Uint64 off)"
    for s off c2 o' bs
  proof -
    have m: "mem_ok (c\<lparr>c_stack := s\<rparr>)" using ok by simp
    note l = checkMemory_loc [OF that(1) m] and b = checkMemory_off [OF that(1) m]
    show ?thesis
      using l b that(2) by (auto intro!: post_s_copy loc_memory simp: loc_mem_ok big_Uint64_def)
  qed
  with ok show ?thesis
    by (auto simp: opMStore_def Let_def post_def [of "s_sub _ _ _"] post_def [of "put_limbs _ _ _"]
        post_prod loc_refl intro!: post_intros elim: loc_checkMemory)
qed

lemma loc_MStore8: "mem_ok c \<Longrightarrow> post (opMStore8 X c) (loc c)"
proof -
  assume ok: "mem_ok c"
  have "post (s_copy (c_memory c2) o' (o' + 1) bs) (\<lambda>m. loc c (c2\<lparr>c_memory := m\<rparr>))"
    if "checkMemory X (c\<lparr>c_stack := s\<rparr>) off 1 = (True, c2)" "o' = unat (big_Uint64 off)"
    for s off c2 o' bs
  proof -
    have m: "mem_ok (c\<lparr>c_stack := s\<rparr>)" using ok by simp
    note l = checkMemory_loc [OF that(1) m] and b = checkMemory_off [OF that(1) m]
    show ?thesis
      using l b that(2) by (auto intro!: post_s_copy loc_memory simp: loc_mem_ok big_Uint64_def)
  qed
  with ok show ?thesis
    by (auto simp: opMStore8_def Let_def post_prod loc_refl intro!: post_intros elim: loc_checkMemory)
qed

text \<open>The copy instructions: memory check, then gas, then the copy.\<close>

lemma loc_mem_setBytes: "loc c c' \<Longrightarrow> post (mem_setBytes c' mo input sz d) (loc c)"
  by (rule post_mono [OF post_mem_setBytes [OF loc_mem_ok]]) (auto intro: loc_trans)

lemma loc_copy:
  assumes "mem_ok c"
  shows "post (opCallDataCopy X c) (loc c)" "post (opCodeCopy X c) (loc c)"
    "post (opExtCodeCopy X H c) (loc c)"
  using assms
  by (auto simp: opCallDataCopy_def opCodeCopy_def opExtCodeCopy_def Let_def loc_mem_ok
      intro!: post_intros loc_mem_setBytes) (blast intro: loc_trans)+

lemma loc_ReturnDataCopy: "mem_ok c \<Longrightarrow> post (opReturnDataCopy X c) (loc c)"
proof -
  assume ok: "mem_ok c"
  have "post (s_copy (c_memory c') lo (s_len (c_memory c')) d) (\<lambda>m. loc c (c'\<lparr>c_memory := m\<rparr>))"
    if "loc c c'" for c' lo d
    using that by (auto intro!: post_s_copy loc_memory simp: loc_mem_ok)
  then show ?thesis
    using ok by (auto simp: opReturnDataCopy_def Let_def loc_refl loc_mem_ok intro!: post_intros)
      (blast intro: loc_trans)+
qed

text \<open>The instructions that read the host, and charge for it themselves.\<close>

lemma loc_less_consumeGas:
  assumes "loc c c'" and "0 < g"
    and "\<And>c2. loc c c2 \<Longrightarrow> unat (c_gas c2) < unat (c_gas c) \<Longrightarrow> c_stack c2 = c_stack c' \<Longrightarrow>
      post (f True c2) (loc_less c)"
    and "\<And>c2. loc c c2 \<Longrightarrow> c_stop c2 \<Longrightarrow> post (f False c2) (loc_less c)"
  shows "post (case consumeGas c' g of (ok, c2) \<Rightarrow> f ok c2) (loc_less c)"
proof -
  obtain ok c2 where eq: "consumeGas c' g = (ok, c2)" by (cases "consumeGas c' g")
  note k = consumeGas_less [OF eq loc_mem_ok [OF assms(1)] assms(2)]
  have "loc c c2" using loc_trans [OF assms(1) k(1)] .
  with k assms(1,3,4) eq show ?thesis by (cases ok) (auto simp: loc_def)
qed

lemma loc_less_upd [simp]:
  "loc_less c (c'\<lparr>c_stack := s\<rparr>) = loc_less c c'" "loc_less c (push c' v) = loc_less c c'"
  "loc_less c (set_top c' v) = loc_less c c'"
  by (simp_all add: loc_less_def push_def set_top_def)

lemma loc_lessI:
  "loc c c' \<Longrightarrow> unat (c_gas c') < unat (c_gas c) \<Longrightarrow> loc_less c c'"
  "loc c c' \<Longrightarrow> c_stop c' \<Longrightarrow> loc_less c c'"
  by (simp_all add: loc_less_def)

lemma loc_less_exit: "loc c c' \<Longrightarrow> loc_less c (exit c' e)"
  by (simp add: loc_less_def exit_def)

lemma loc_less_trans: "loc c c' \<Longrightarrow> loc_less c' c'' \<Longrightarrow> loc_less c c''"
  by (auto simp: loc_less_def loc_defs)

lemma loc_less_reads:
  assumes "mem_ok c"
  shows "post (opSload H c) (loc_less c)" "post (opBalance H c) (loc_less c)"
    "post (opExtCodeSize H c) (loc_less c)" "post (opExtCodeHash H c) (loc_less c)"
  using assms
  by (auto simp: opSload_def opBalance_def opExtCodeSize_def opExtCodeHash_def Let_def loc_refl
      loc_less_exit intro!: post_topv post_popAddr loc_less_consumeGas intro: loc_lessI)

lemma loc_less_mem_setBytes:
  "loc c c' \<Longrightarrow> unat (c_gas c') < unat (c_gas c) \<Longrightarrow> post (mem_setBytes c' mo input sz d) (loc_less c)"
  by (rule post_mono [OF post_mem_setBytes [OF loc_mem_ok]])
    (auto simp: loc_less_def loc_defs)

lemma loc_less_ExtCodeCopy: "mem_ok c \<Longrightarrow> post (opExtCodeCopy X H c) (loc_less c)"
proof -
  assume ok: "mem_ok c"
  have tail: "post (case consumeGas c' g of (ok, c') \<Rightarrow> if \<not> ok then Ret c'
      else let cd = GetCode H (c_host c') addr
           in if sz \<noteq> 0 then mem_setBytes c' mo cd sz d else Ret c') (loc_less c)"
    if "loc c c'" "0 < g" for c' g mo addr sz d
    using that by (intro loc_less_consumeGas) (auto simp: Let_def intro: loc_less_mem_setBytes loc_lessI)
  have mid: "post (case consumeGas c' (g * copyGas) of (ok, c') \<Rightarrow> if \<not> ok then Ret c' else f c') (loc_less c)"
    if "loc c c'" "\<And>c'. loc c c' \<Longrightarrow> post (f c') (loc_less c)" for c' g f
    using that by (intro post_consumeGas) (auto simp: loc_mem_ok intro: loc_lessI loc_trans)
  have head: "post (case checkMemory X (c\<lparr>c_stack := s\<rparr>) off sz of (ok, c') \<Rightarrow>
      if \<not> ok then Ret c' else f c') (loc_less c)"
    if "\<And>c'. loc c c' \<Longrightarrow> post (f c') (loc_less c)" for s off sz f
    using that ok by (intro post_checkMemory) (auto intro: loc_lessI)
  show ?thesis
    by (auto simp: opExtCodeCopy_def Let_def intro!: post_popAddr post_popv head mid tail)
qed

lemma loc_less_stops:
  assumes "mem_ok c"
  shows "post (opHalt X op c) (loc_less c)" "post (opStop c) (loc_less c)"
proof -
  show "post (opHalt X op c) (loc_less c)"
    using loc_memory_ops(3) [OF assms, of X op] opHalt_stops [OF assms, of X op]
    by (auto simp: post_def loc_less_def)
  show "post (opStop c) (loc_less c)"
    using assms by (simp add: opStop_def loc_less_def halt_def loc_refl)
qed

section \<open>Numbers on the stack\<close>

text \<open>
  No instruction leaves a negative number on the stack. The block fields are signed in the code and
  pushed as they are, so this needs a context without negative fields.
\<close>

definition nonneg :: "'h state \<Rightarrow> bool" where
  "nonneg c \<longleftrightarrow> (\<forall>v \<in> set (c_stack c). 0 \<le> v)"

definition ctx_ok :: "tx_context \<Rightarrow> bool" where
  "ctx_ok t \<longleftrightarrow> 0 \<le> sint (tx_Number t) \<and> 0 \<le> sint (tx_Timestamp t) \<and> 0 \<le> sint (tx_GasLimit t)"

lemma nonneg_upd [simp]:
  "nonneg (c\<lparr>c_stack := s\<rparr>) \<longleftrightarrow> (\<forall>v \<in> set s. 0 \<le> v)"
  "nonneg (push c v) \<longleftrightarrow> 0 \<le> v \<and> nonneg c" "nonneg (exit c e) = nonneg c" "nonneg (halt c) = nonneg c"
  "nonneg (c\<lparr>c_ip := i\<rparr>) = nonneg c" "nonneg (c\<lparr>c_tmp := t\<rparr>) = nonneg c"
  "nonneg (c\<lparr>c_memory := m\<rparr>) = nonneg c" "nonneg (c\<lparr>c_host := h\<rparr>) = nonneg c"
  "nonneg (c\<lparr>c_gas := g\<rparr>) = nonneg c" "nonneg (c\<lparr>c_ret := r\<rparr>) = nonneg c"
  "nonneg (c\<lparr>c_returnData := r\<rparr>) = nonneg c" "nonneg (resetReturnData c) = nonneg c"
  "nonneg (c\<lparr>c_lastGasCost := g\<rparr>) = nonneg c"
  by (auto simp: nonneg_def push_def exit_def halt_def resetReturnData_def)

lemma nonneg_set_top [simp]: "nonneg c \<Longrightarrow> nonneg (set_top c v) \<longleftrightarrow> 0 \<le> v"
  by (cases "c_stack c") (auto simp: nonneg_def set_top_def)

lemma nonneg_same: "c_stack c' = c_stack c \<Longrightarrow> nonneg c' = nonneg c"
  by (simp add: nonneg_def)

lemma nonneg_Cons: "nonneg c \<Longrightarrow> c_stack c = v # s \<Longrightarrow> 0 \<le> v \<and> (\<forall>x \<in> set s. 0 \<le> x)"
  by (simp add: nonneg_def)

lemma toU256_nonneg [simp]: "0 \<le> toU256 x"
  by (simp add: toU256_def)

lemma big_SetBytes_nonneg [simp]: "0 \<le> big_SetBytes bs"
  by (simp add: big_SetBytes_def)

lemma exp_nonneg: "0 \<le> z \<Longrightarrow> 0 \<le> fst (exp_limbs ds z x)"
proof (induction ds arbitrary: z x)
  case (Cons d ds)
  have "0 \<le> fst (exp_bits n d z x)" if "0 \<le> z" for n d z x
    using that by (induction n d z x rule: exp_bits.induct) simp_all
  with Cons show ?case by (simp add: case_prod_beta)
qed simp

lemma nonneg_alu:
  assumes "nonneg c"
  shows "post (opAdd c) nonneg" "post (opMul c) nonneg" "post (opSub c) nonneg"
    "post (opDiv c) nonneg" "post (opSDiv c) nonneg" "post (opMod c) nonneg"
    "post (opSMod c) nonneg" "post (opAddMod c) nonneg" "post (opMulMod c) nonneg"
    "post (opAnd c) nonneg" "post (opOr c) nonneg" "post (opXor c) nonneg"
    "post (opByte c) nonneg" "post (opNot c) nonneg" "post (opIsZero c) nonneg"
    "post (opEq c) nonneg" "post (opLt c) nonneg" "post (opGt c) nonneg"
    "post (opSlt c) nonneg" "post (opSgt c) nonneg" "post (opSignExtension c) nonneg"
    "post (opShl c) nonneg" "post (opShr c) nonneg" "post (opSar c) nonneg"
  using assms
  by (auto simp: opAdd_def opMul_def opSub_def opDiv_def opSDiv_def opMod_def opSMod_def
      opAddMod_def opMulMod_def opAnd_def opOr_def opXor_def opByte_def opNot_def opIsZero_def
      opEq_def opLt_def opGt_def opSlt_def opSgt_def opSignExtension_def opShl_def opShr_def
      opSar_def Let_def nonneg_def [of c] intro!: post_popv post_topv split: option.split)

text \<open>Rules that only follow the stack and the host, for the proofs about \<open>nonneg\<close>.\<close>

lemma stack_consumeGas:
  "(\<And>ok c'. c_stack c' = c_stack c \<Longrightarrow> c_host c' = c_host c \<Longrightarrow> post (f ok c') Q) \<Longrightarrow>
     post (case consumeGas c g of (ok, c') \<Rightarrow> f ok c') Q"
  by (auto simp: consumeGas_def exit_def)

lemma stack_checkMemory:
  assumes "\<And>ok c'. c_stack c' = c_stack c \<Longrightarrow> c_host c' = c_host c \<Longrightarrow> post (f ok c') Q"
  shows "post (case checkMemory X c off sz of (ok, c') \<Rightarrow> f ok c') Q"
proof -
  obtain ok c' where eq: "checkMemory X c off sz = (ok, c')" by (cases "checkMemory X c off sz")
  then have "c_stack c' = c_stack c \<and> c_host c' = c_host c"
    by (cases rule: checkMemory_cases) (simp_all add: exit_def)
  with assms eq show ?thesis by simp
qed

lemma stack_get2:
  "(\<And>r ok c'. c_stack c' = c_stack c \<Longrightarrow> c_host c' = c_host c \<Longrightarrow> Q (r, ok, c')) \<Longrightarrow>
     post (get2 X c dst off len) Q"
  by (auto simp: get2_def Let_def post_def [of "s_sub _ _ _"] intro!: stack_checkMemory)

lemma stack_s_copy: "(\<And>m. Q m) \<Longrightarrow> post (s_copy s lo hi src) Q"
  by (simp add: post_def)

lemmas stack_intros = post_popv post_topv post_popAddr stack_consumeGas stack_checkMemory stack_get2
  stack_s_copy

lemma nonneg_exp: "nonneg c \<Longrightarrow> post (opExp c) nonneg"
  by (auto simp: opExp_def Let_def nonneg_def exp_nonneg set_top_def intro!: stack_intros)

lemma nonneg_context:
  assumes "nonneg c" and "ctx_ok (GetTxContext H (c_host c))"
    and "0 \<le> GetBalance H (c_host c) (ct_Address (c_msg c))"
    and "\<And>v. ct_Value (c_msg c) = Some v \<Longrightarrow> 0 \<le> v"
  shows "post (opAddress c) nonneg" "post (opCaller c) nonneg" "post (opCallValue c) nonneg"
    "post (opCallDataLoad c) nonneg" "post (opCallDataSize c) nonneg" "post (opCodeSize c) nonneg"
    "post (opReturnDataSize c) nonneg" "post (opPC c) nonneg" "post (opMSize c) nonneg"
    "post (opGas c) nonneg" "post (opSelfBalance H c) nonneg" "post (opChainID H c) nonneg"
    "post (opOrigin H c) nonneg" "post (opGasPrice H c) nonneg" "post (opBlockHash H c) nonneg"
    "post (opCoinbase H c) nonneg" "post (opTimestamp H c) nonneg" "post (opNumber H c) nonneg"
    "post (opDifficulty H c) nonneg" "post (opGasLimit H c) nonneg"
  using assms
  by (auto simp: opAddress_def opCaller_def opCallValue_def opCallDataLoad_def opCallDataSize_def
      opCodeSize_def opReturnDataSize_def opPC_def opMSize_def opGas_def opSelfBalance_def
      opChainID_def opOrigin_def opGasPrice_def opBlockHash_def opCoinbase_def opTimestamp_def
      opNumber_def opDifficulty_def opGasLimit_def Let_def ctx_ok_def intro!: post_topv
      split: option.split)

lemma nonneg_stack:
  assumes "nonneg c"
  shows "post (opPop c) nonneg" "post (opPush n c) nonneg" "post (opJump c) nonneg"
    "post (opJumpi c) nonneg" "post (opJumpDest c) nonneg" "post (opStop c) nonneg"
  using assms
  by (auto simp: opPop_def opPush_def opJump_def opJumpi_def opJumpDest_def
      opStop_def pop_def Let_def post_def [of "validJumpdest _ _"] nonneg_def [of c]
      intro!: post_popv split: list.split)

lemma nonneg_nth: "nonneg c \<Longrightarrow> i < length (c_stack c) \<Longrightarrow> 0 \<le> c_stack c ! i"
  by (simp add: nonneg_def)

lemma nonneg_dup_swap:
  assumes "nonneg c"
  shows "post (opDup n c) nonneg" "post (opSwap n c) nonneg"
proof -
  show "post (opDup n c) nonneg"
    using assms by (auto simp: opDup_def peekAt_def intro: nonneg_nth)
  let ?s = "c_stack c"
  have "set (?s[0 := ?s ! n, n := ?s ! 0]) \<subseteq> set ?s" if "n < length ?s"
    using that by (intro set_update_subsetI) (auto intro!: nth_mem)
  with assms show "post (opSwap n c) nonneg"
    by (auto simp: opSwap_def state_swap_def Let_def nonneg_def [of c])
qed

lemma nonneg_memory_ops:
  assumes "nonneg c"
  shows "post (opMload X c) nonneg" "post (opSha3 X c) nonneg" "post (opHalt X op c) nonneg"
    "post (opMStore X c) nonneg" "post (opMStore8 X c) nonneg"
  using assms
  by (auto simp: opMload_def opSha3_def opHalt_def opMStore_def opMStore8_def Let_def
      nonneg_def push_def exit_def halt_def post_def [of "s_sub _ _ _"] post_def [of "put_limbs _ _ _"]
      intro!: stack_intros)

lemma nonneg_tl: "\<forall>v \<in> set xs. 0 \<le> v \<Longrightarrow> v \<in> set (tl xs) \<Longrightarrow> 0 \<le> v" for xs :: "int list"
  by (cases xs) auto

lemma nonneg_copy:
  assumes "nonneg c"
  shows "post (opCallDataCopy X c) nonneg" "post (opCodeCopy X c) nonneg"
    "post (opExtCodeCopy X H c) nonneg" "post (opReturnDataCopy X c) nonneg"
proof -
  have *: "post (mem_setBytes c2 mo input sz d) nonneg" if "nonneg c2"
    for c2 :: "'a state" and mo input sz d
    using that by (auto simp: mem_setBytes_def Let_def intro!: stack_s_copy)
  show "post (opCallDataCopy X c) nonneg" "post (opCodeCopy X c) nonneg" "post (opReturnDataCopy X c) nonneg"
    using assms
    by (auto simp: opCallDataCopy_def opCodeCopy_def opReturnDataCopy_def Let_def nonneg_def exit_def
        intro!: stack_intros *)
  have "\<forall>v \<in> set (tl (c_stack c)). 0 \<le> v" using assms nonneg_tl by (auto simp: nonneg_def)
  then show "post (opExtCodeCopy X H c) nonneg"
    by (auto simp: opExtCodeCopy_def Let_def nonneg_def intro!: stack_intros *)
qed

lemma nonneg_reads:
  assumes "nonneg c" and "\<And>a. 0 \<le> GetBalance H (c_host c) a"
  shows "post (opSload H c) nonneg" "post (opBalance H c) nonneg"
    "post (opExtCodeSize H c) nonneg" "post (opExtCodeHash H c) nonneg"
  using assms
  by (auto simp: opSload_def opBalance_def opExtCodeSize_def opExtCodeHash_def Let_def nonneg_def
      push_def set_top_def exit_def dest: nonneg_tl intro!: stack_intros)

end
