(* ===== verification/Evm_Host.thy ===== *)
theory Evm_Host
  imports Evm_Frame
begin

text \<open>
  The interface between the virtual machine and its host, as two locales. \<open>host_frame\<close> asks that the
  host operations a contract may reach keep an invariant \<open>I\<close> and move the host along a preorder \<open>R\<close>;
  a whole run of the machine then does the same. With \<open>static\<close> the operations that write are not
  needed: the machine refuses them in a static call. \<open>host_gas\<close> adds that calls return no more gas
  than they got and do not run out of model fuel; then a run ends and returns no more gas than it got
  (\<open>Evm_Gas\<close>). Both are interpreted on the state transition in \<open>Transition_Host\<close>.
\<close>

section \<open>Calls a machine makes\<close>

definition value_ok :: "contract \<Rightarrow> bool" where
  "value_ok k \<longleftrightarrow> (\<forall>v. ct_Value k = Some v \<longrightarrow> 0 \<le> v)"

text \<open>
  Contracts the machine hands to \<open>Callx\<close>: one level deeper, and in a static frame static again, not a
  creation, and without value unless the value is not transferred.
\<close>

definition call_ok :: "bool \<Rightarrow> nat \<Rightarrow> contract \<Rightarrow> bool" where
  "call_ok static d k \<longleftrightarrow> value_ok k \<and> ct_Depth k = Suc d \<and>
     (static \<longrightarrow> ct_Static k \<and> ct_Type k \<noteq> Create \<and> (ct_Type k = Call \<longrightarrow> ct_Value k = Some 0))"

lemma frame_trans:
  "transp R \<Longrightarrow> frame R a b \<Longrightarrow> frame R b c \<Longrightarrow> frame R a c"
  by (auto simp: frame_def dest: transpD)

lemma loc_frame: "reflp R \<Longrightarrow> loc c c' \<Longrightarrow> frame R c c'"
  by (auto simp: loc_defs reflpD)

lemma frame_upd [simp]:
  "frame R c (c'\<lparr>c_ip := i\<rparr>) = frame R c c'" "frame R c (c'\<lparr>c_tmp := t\<rparr>) = frame R c c'"
  "frame R c (c'\<lparr>c_stack := s\<rparr>) = frame R c c'" "frame R c (c'\<lparr>c_gas := g\<rparr>) = frame R c c'"
  "frame R c (c'\<lparr>c_returnData := r\<rparr>) = frame R c c'" "frame R c (push c' v) = frame R c c'"
  "frame R c (exit c' e) = frame R c c'" "frame R c (halt c') = frame R c c'"
  by (simp_all add: frame_def push_def exit_def halt_def)

lemma frame_host: "loc c c' \<Longrightarrow> R (c_host c) h \<Longrightarrow> frame R c (c'\<lparr>c_host := h\<rparr>)"
  by (simp add: loc_defs)

section \<open>Gas passed to a call\<close>

text \<open>
  With EIP-150 the gas passed on and the cost of the call do not wrap around together, although the
  difference \<open>gasLeft - gasCost\<close> may: if the cost exceeds the gas, the charge fails.
\<close>

lemma call_gas_no_wrap:
  assumes "EIP150 config" and "unat cost \<le> 40000" and "cost + call_gas config G cost i \<le> G"
  shows "unat cost + unat (call_gas config G cost i) \<le> unat G"
proof -
  let ?g = "call_gas config G cost i" and ?A = "G - cost"
  have "?g \<le> ?A - ?A div 64"
    using assms(1) by (auto simp: call_gas_def Let_def not_less)
  moreover have "?A div 64 \<le> ?A" by (simp add: word_le_nat_alt unat_div)
  ultimately have g: "unat ?g \<le> unat ?A - unat ?A div 64"
    by (simp add: word_le_nat_alt unat_sub unat_div)
  show ?thesis
  proof (cases "cost \<le> G")
    case True
    with g show ?thesis by (simp add: unat_sub word_le_nat_alt)
  next
    case False
    have less: "unat G < unat cost" using False by (simp add: word_le_nat_alt not_le)
    have A: "unat ?A = 2 ^ 64 + unat G - unat cost"
      using less unat_sub_if' [of G cost] by (simp add: not_le)
    have "64 * 40000 \<le> unat ?A" using A less assms(2) by simp
    then have "64 * 40000 div 64 \<le> unat ?A div 64" by (rule div_le_mono)
    then have "unat cost + unat ?g < 2 ^ 64" using g A less assms(2) by simp
    then have "unat (cost + ?g) = unat cost + unat ?g" by (simp add: unat_word_ariths)
    with assms(3) show ?thesis by (simp add: word_le_nat_alt)
  qed
qed

lemma call_cost_bounds:
  "unat (call_cost H h config op addr value) \<le> 40000"
  "EIP150 config \<Longrightarrow> 700 \<le> unat (call_cost H h config op addr value)"
  "call_transfers op value \<Longrightarrow> 9000 < unat (call_cost H h config op addr value)"
  by (auto simp: call_cost_def Let_def)

lemma call_contract_fields [simp]:
  "ct_Depth (call_contract op p addr value g cd args) = Suc (ct_Depth p)"
  "ct_Static (call_contract op p addr value g cd args) \<longleftrightarrow> op = STATICCALL \<or> ct_Static p"
  "ct_Value (call_contract op p addr value g cd args) = (if op = DELEGATECALL then ct_Value p else value)"
  "ct_Gas (call_contract op p addr value g cd args) = (if call_transfers op value then g + 2300 else g)"
  by (simp_all add: call_contract_def Let_def NewContractCall_def NewContract_def)

text \<open>Charging for a call and passing the gas on loses at least one unit.\<close>

lemma call_charge:
  assumes "consumeGas c (cost + g) = (True, c')" and "EIP150 (c_config c)"
    and "cost = call_cost H h (c_config c) op addr value"
    and "g = call_gas (c_config c) (c_gas c) cost i"
  shows "unat (c_gas c') + unat (ct_Gas (call_contract op p addr value g cd args)) < unat (c_gas c)"
proof -
  from assms(1) have le: "cost + g \<le> c_gas c" and c': "c_gas c' = c_gas c - (cost + g)"
    by (auto simp: consumeGas_def split: if_splits)
  note b = call_cost_bounds(1) [of H h "c_config c" op addr "value"]
    call_cost_bounds(2) [of "c_config c" H h op addr "value"]
    call_cost_bounds(3) [of op "value" H h "c_config c" addr]
  have s: "unat cost + unat g \<le> unat (c_gas c)"
    using call_gas_no_wrap [of "c_config c" cost "c_gas c" i] assms(2-4) b(1) le by simp
  have lt: "unat (c_gas c) < 2 ^ 64" by (rule unat_u64_less)
  have "unat (cost + g) = unat cost + unat g" using s lt by (simp add: unat_word_ariths)
  then have c: "unat (c_gas c') = unat (c_gas c) - unat cost - unat g"
    using c' le by (simp add: unat_u64_sub)
  show ?thesis
  proof (cases "call_transfers op value")
    case True
    have "unat (g + 2300) \<le> unat g + 2300" by (simp add: unat_word_ariths)
    with True b(3) c s assms(3) show ?thesis by simp
  next
    case False
    with b(2) c s assms(2,3) show ?thesis by simp
  qed
qed

text \<open>What the builders promise; \<open>charged\<close> is the gas side, \<open>slack\<close> what the call has cost at least.\<close>

definition charged :: "nat \<Rightarrow> 'h state \<Rightarrow> 'h state \<Rightarrow> contract \<Rightarrow> bool" where
  "charged slack c c' k \<longleftrightarrow>
     (EIP150 (c_config c) \<longrightarrow> unat (c_gas c') + unat (ct_Gas k) + slack \<le> unat (c_gas c))"

text \<open>The range for the return data: inside the memory, or empty.\<close>

definition range_ok :: "u64 \<Rightarrow> u64 \<Rightarrow> 'h state \<Rightarrow> bool" where
  "range_ok off sz c \<longleftrightarrow> sz = 0 \<or> unat (off + sz) \<le> s_len (c_memory c)"

lemma checkMemory_range:
  assumes "checkMemory X c off sz = (True, c')" and "mem_ok c"
  shows "range_ok (big_Uint64 off) (big_Uint64 sz) c'"
proof (cases "sz = 0")
  case False
  note o = checkMemory_off [OF assms False]
  have "s_len (c_memory c') \<le> 2 ^ 41" using checkMemory_True(1) [OF assms] by (simp add: mem_ok_def)
  with o(3) show ?thesis by (simp add: range_ok_def unat_word_ariths)
qed (simp add: range_ok_def big_Uint64_def)

lemma post_range_copy:
  assumes "mem_ok c" and "range_ok off sz c" and "\<And>m. mem_ok (c\<lparr>c_memory := m\<rparr>) \<Longrightarrow> Q m"
  shows "post (s_copy (c_memory c) (unat off) (unat (off + sz)) src) Q"
proof (cases "sz = 0")
  case True
  with assms(1,3) show ?thesis by (auto simp: s_copy_def)
next
  case False
  with assms show ?thesis by (intro post_s_copy) (auto simp: range_ok_def)
qed

definition call_built :: "OpCode \<Rightarrow> 'h state \<Rightarrow> build \<times> 'h state \<Rightarrow> bool" where
  "call_built op c p \<longleftrightarrow> loc c (snd p) \<and> nonneg (snd p) \<and>
     (case fst p of
        BuildNil \<Rightarrow> c_stop (snd p)
      | BuildErr k \<Rightarrow> (case k of None \<Rightarrow> False | Some k \<Rightarrow> charged 1 c (snd p) k)
      | BuildOk k off sz \<Rightarrow> value_ok k \<and> ct_Depth k = Suc (ct_Depth (c_msg c)) \<and>
          (ct_Static (c_msg c) \<longrightarrow> ct_Static k) \<and> (op = CALL \<longrightarrow> ct_Value k = Some (c_stack c ! 2)) \<and>
          range_ok off sz (snd p) \<and> charged 1 c (snd p) k)"

lemma stops [simp]: "c_stop (exit c e)" "c_stop (halt c)"
  by (simp_all add: exit_def halt_def)

lemma resetReturnData_fields [simp]:
  "c_msg (resetReturnData c) = c_msg c" "c_gas (resetReturnData c) = c_gas c"
  "c_config (resetReturnData c) = c_config c" "c_stack (resetReturnData c) = c_stack c"
  by (simp_all add: resetReturnData_def)

lemma call_built_nil: "loc c c' \<Longrightarrow> nonneg c' \<Longrightarrow> c_stop c' \<Longrightarrow> call_built op c (BuildNil, c')"
  by (simp add: call_built_def)

lemma loc_config: "loc c c' \<Longrightarrow> c_config c' = c_config c \<and> c_msg c' = c_msg c \<and> c_host c' = c_host c"
  by (simp add: loc_defs)

lemma post_call_charge:
  assumes l: "loc c c1" and nn: "nonneg c1" and v: "\<And>v. val = Some v \<Longrightarrow> 0 \<le> v" "value_ok (c_msg c)"
    and op: "op = CALL \<Longrightarrow> val = Some (c_stack c ! 2)"
    and cost: "cost = call_cost H (c_host c1) (c_config c1) op addr val"
    and g: "g = call_gas (c_config c1) (c_gas c1) cost i" and rng: "range_ok off sz c1"
  shows "post (case consumeGas c1 (cost + g) of (ok, c2) \<Rightarrow>
    if \<not> ok then Ret (BuildNil, c2)
    else
      let contract = call_contract op (c_msg c2) addr val g (GetCode H (c_host c2) addr) args
      in if call_transfers op val \<and> GetBalance H (c_host c2) (ct_Address (c_msg c2)) < the val
         then Ret (BuildErr (Some contract), c2) else Ret (BuildOk contract off sz, c2)) (call_built op c)"
proof -
  obtain ok c2 where eq: "consumeGas c1 (cost + g) = (ok, c2)" by (cases "consumeGas c1 (cost + g)")
  note k = consumeGas_loc [OF eq loc_mem_ok [OF l]]
  have l2: "loc c c2" and nn2: "nonneg c2"
    using loc_trans [OF l k(1)] nn k(2) by (simp_all add: nonneg_def)
  show ?thesis
  proof (cases ok)
    case False
    with eq l2 nn2 k(4) show ?thesis by (simp add: call_built_nil)
  next
    case True
    have ch: "charged 1 c c2 (call_contract op (c_msg c2) addr val g cd args)" for cd
      using call_charge [OF eq [unfolded True [THEN eq_True [THEN iffD2]]] _ cost g, of "c_msg c2" cd args] l
      by (auto simp: charged_def loc_defs)
    have "value_ok (call_contract op (c_msg c2) addr val g cd args)" for cd
      using v loc_config [OF l2] by (auto simp: value_ok_def)
    moreover have "range_ok off sz c2"
      using rng eq by (auto simp: range_ok_def consumeGas_def exit_def split: if_splits)
    ultimately show ?thesis using eq True l2 nn2 ch op loc_config [OF l2]
      by (auto simp: call_built_def Let_def)
  qed
qed

lemma post_checkMemory_built:
  assumes "loc c c1" and "nonneg c1"
    and "\<And>c2. loc c c2 \<Longrightarrow> nonneg c2 \<Longrightarrow> range_ok (big_Uint64 off) (big_Uint64 sz) c2 \<Longrightarrow>
      post (f c2) (call_built op c)"
  shows "post (case checkMemory X c1 off sz of (ok, c2) \<Rightarrow> if \<not> ok then Ret (BuildNil, c2) else f c2)
    (call_built op c)"
proof -
  have "post (if \<not> ok then Ret (BuildNil, c2) else f c2) (call_built op c)"
    if "loc c1 c2" "c_stack c2 = c_stack c1" "\<not> ok \<Longrightarrow> c_stop c2" "checkMemory X c1 off sz = (ok, c2)" for ok c2
  proof -
    have "loc c c2" "nonneg c2" using that assms(1,2) loc_trans by (auto simp: nonneg_def)
    with that(3) assms(3) checkMemory_range [of X c1 off sz c2] that(4) loc_mem_ok [OF assms(1)]
    show ?thesis by (cases ok) (auto intro: call_built_nil)
  qed
  with assms(1) show ?thesis by (intro post_checkMemory) (auto simp: loc_mem_ok)
qed

lemma tl_second: "\<exists>r. tl s = v # r \<Longrightarrow> v = s ! Suc 0"
  by (cases s) auto

lemma buildCall_post:
  assumes "mem_ok c" and "nonneg c" and "value_ok (c_msg c)"
  shows "post (buildCallContract X H op c) (call_built op c)"
proof -
  have mid: "post (get2 X (c\<lparr>c_stack := s\<rparr>) [] a b) (\<lambda>x. post
      (case x of (r, ok, c2) \<Rightarrow> if \<not> ok then Ret (BuildNil, c2) else f r c2) (call_built opc c))"
    if "\<forall>v \<in> set s. 0 \<le> v" "\<And>r c2. loc c c2 \<Longrightarrow> nonneg c2 \<Longrightarrow> post (f r c2) (call_built opc c)" for s a b f opc
    using that assms(1) by (intro post_get2) (auto simp: nonneg_def intro!: call_built_nil)
  show ?thesis
    using assms(2) unfolding buildCallContract_def nonneg_def [of c]
    by (auto simp: Let_def [of "call_cost _ _ _ _ _ _"] Let_def [of "checkMemory _ _ _ _"]
        Let_def [of "call_gas _ _ _ _"] Let_def [of "consumeGas _ _"] nonneg_tl assms(3)
        intro!: post_popv post_popAddr mid post_checkMemory_built
          post_call_charge [OF _ _ _ _ _ refl refl] call_built_nil tl_second)
qed

definition create_built :: "'h state \<Rightarrow> build \<times> 'h state \<Rightarrow> bool" where
  "create_built c p \<longleftrightarrow> loc c (snd p) \<and> nonneg (snd p) \<and>
     (case fst p of
        BuildNil \<Rightarrow> c_stop (snd p)
      | BuildErr k \<Rightarrow> k = None
      | BuildOk k off sz \<Rightarrow> value_ok k \<and> ct_Depth k = Suc (ct_Depth (c_msg c)) \<and>
          unat (c_gas (snd p)) + unat (ct_Gas k) \<le> unat (c_gas c))"

lemma create_built_nil: "loc c c' \<Longrightarrow> nonneg c' \<Longrightarrow> c_stop c' \<Longrightarrow> create_built c (BuildNil, c')"
  by (simp add: create_built_def)

lemma post_consumeGas_create:
  assumes "loc c c1" and "nonneg c1"
    and "\<And>c2. loc c c2 \<Longrightarrow> nonneg c2 \<Longrightarrow> unat (c_gas c2) + unat g = unat (c_gas c1) \<Longrightarrow>
      c_host c2 = c_host c1 \<Longrightarrow> post (f c2) (create_built c)"
  shows "post (case consumeGas c1 g of (ok, c2) \<Rightarrow> if \<not> ok then Ret (BuildNil, c2) else f c2) (create_built c)"
proof -
  have "post (if \<not> ok then Ret (BuildNil, c2) else f c2) (create_built c)"
    if "loc c1 c2" "c_stack c2 = c_stack c1" "\<not> ok \<Longrightarrow> c_stop c2"
      "ok \<Longrightarrow> unat (c_gas c2) + unat g = unat (c_gas c1)" for ok c2
  proof -
    have "loc c c2" "nonneg c2" "c_host c2 = c_host c1"
      using that(1,2) assms(1,2) loc_trans by (auto simp: nonneg_def loc_defs)
    with that(3,4) assms(3) show ?thesis by (auto intro: create_built_nil)
  qed
  with assms(1) show ?thesis by (intro post_consumeGas) (auto simp: loc_mem_ok)
qed

lemma buildCreate_post:
  assumes "mem_ok c" and "nonneg c"
  shows "post (buildCreateContract X H op c) (create_built c)"
proof -
  have tail: "post (case consumeGas c1 g of (ok, c2) \<Rightarrow> if \<not> ok then Ret (BuildNil, c2)
      else let me = ct_Address (c_msg c2); addr = A me c2
        in Ret (BuildOk (NewContractCreation (ct_Depth (c_msg c2) + 1) (ct_Origin (c_msg c2)) me addr
             (Some val) g input) 0 0, c2)) (create_built c)"
    if "loc c c1" "nonneg c1" "0 \<le> val" for c1 g A val input
    using that by (intro post_consumeGas_create)
      (auto simp: create_built_def Let_def NewContractCreation_def NewContract_def value_ok_def loc_defs)
  have fixed: "post (case consumeGas c1 g of (ok, c2) \<Rightarrow>
      if \<not> ok then Ret (BuildNil, c2) else f c2) (create_built c)"
    if "g = 0 \<or> g = w * sha3WordGas" "loc c c1" "nonneg c1"
      "\<And>c2. loc c c2 \<Longrightarrow> nonneg c2 \<Longrightarrow> post (f c2) (create_built c)" for c1 g f w
    using that(4) post_consumeGas_create [OF that(2,3)] by simp
  have mid: "post (get2 X (c\<lparr>c_stack := s\<rparr>) [] a b) (\<lambda>x. post
      (case x of (r, ok, c2) \<Rightarrow> if \<not> ok then Ret (BuildNil, c2) else f r c2) (create_built c))"
    if "\<forall>v \<in> set s. 0 \<le> v" "\<And>r c2. loc c c2 \<Longrightarrow> nonneg c2 \<Longrightarrow> post (f r c2) (create_built c)" for s a b f
    using that assms(1) by (intro post_get2) (auto simp: nonneg_def intro!: create_built_nil)
  have err: "create_built c (BuildErr None, c2)" if "loc c c2" "nonneg c2" for c2
    using that by (simp add: create_built_def)
  show ?thesis
    using assms(2) unfolding buildCreateContract_def nonneg_def [of c]
    by (auto simp: Let_def [of "consumeGas _ _"] Let_def [of "if _ then consumeGas _ _ else _"]
        Let_def [of "c_gas _"] Let_def [of "if _ then _ - _ else (_ :: u64)"] Let_def [of "_ \<noteq> (_ :: int)"]
        Let_def [of "_ - (_ :: u64)"] intro!: post_popv mid fixed [OF disjI1 [OF refl]] fixed [OF disjI2 [OF refl]] tail err)
qed

section \<open>The instructions that stay on the machine\<close>

lemma post_conj: "post m (\<lambda>x. P x \<and> Q x) \<longleftrightarrow> post m P \<and> post m Q"
  by (auto simp: post_def)

text \<open>
  Entries of the dispatch table without a charge of their own must consume gas or stop the machine;
  \<open>local_ok\<close> says that an entry does, and touches only the machine.
\<close>

definition local_ok :: "'h state \<Rightarrow> 'h handler \<Rightarrow> bool" where
  "local_ok c i \<longleftrightarrow> post (h_inst i c) (\<lambda>c'. (if h_gas i = 0 then loc_less c c' else loc c c') \<and> nonneg c')"

definition reaches_host :: "ext \<Rightarrow> 'h host \<Rightarrow> 'h handler \<Rightarrow> bool" where
  "reaches_host X H i \<longleftrightarrow> h_inst i = opSStore H \<or> h_inst i = opSelfDestruct H \<or> (\<exists>n. h_inst i = opLog X H n \<and> h_gas i = 375) \<or>
     (\<exists>op. h_inst i = opCreate X H op \<and> h_gas i = 32000) \<or> (\<exists>op. h_inst i = opCall X H op)"

lemma entries_local:
  assumes "mem_ok c" and "nonneg c" and "ctx_ok (GetTxContext H (c_host c))" and "value_ok (c_msg c)"
    and "\<And>a. 0 \<le> GetBalance H (c_host c) a"
  shows "\<forall>(op, i) \<in> set (dispatch_entries X H). local_ok c i \<or> reaches_host X H i"
proof -
  have v: "\<And>v. ct_Value (c_msg c) = Some v \<Longrightarrow> 0 \<le> v" using assms(4) by (simp add: value_ok_def)
  note l = loc_arith loc_logic loc_exp loc_context loc_stack loc_memory_ops loc_MStore loc_MStore8
    loc_copy loc_ReturnDataCopy loc_less_reads loc_less_ExtCodeCopy loc_less_stops
  note l = l [OF assms(1)]
  note n = nonneg_alu [OF assms(2)] nonneg_exp [OF assms(2)] nonneg_context [OF assms(2,3,5) v]
    nonneg_stack [OF assms(2)] nonneg_dup_swap [OF assms(2)] nonneg_memory_ops [OF assms(2)]
    nonneg_copy [OF assms(2)] nonneg_reads [OF assms(2,5)]
  show ?thesis
    by (simp add: dispatch_entries_def registerRange_def local_ok_def post_conj l n)
      (auto simp: reaches_host_def)
qed

section \<open>Hosts that respect a relation\<close>

definition running :: "bool \<Rightarrow> nat \<Rightarrow> ('h \<Rightarrow> bool) \<Rightarrow> 'h state \<Rightarrow> bool" where
  "running static depth I c \<longleftrightarrow> mem_ok c \<and> nonneg c \<and> value_ok (c_msg c) \<and> I (c_host c) \<and>
     (static \<longrightarrow> ct_Static (c_msg c)) \<and> ct_Depth (c_msg c) = depth"

definition moved :: "('h \<Rightarrow> 'h \<Rightarrow> bool) \<Rightarrow> 'h state \<Rightarrow> 'h state \<Rightarrow> bool" where
  "moved R c c' \<longleftrightarrow> frame R c c' \<and> nonneg c'"

lemma moved_upd [simp]:
  "moved R c (c'\<lparr>c_gas := g\<rparr>) = moved R c c'" "moved R c (c'\<lparr>c_returnData := r\<rparr>) = moved R c c'"
  "moved R c (exit c' e) = moved R c c'" "moved R c (halt c') = moved R c c'"
  "moved R c (c'\<lparr>c_ip := i\<rparr>) = moved R c c'" "moved R c (c'\<lparr>c_tmp := t\<rparr>) = moved R c c'"
  by (simp_all add: moved_def)

lemma push_moved: "moved R c c' \<Longrightarrow> 0 \<le> v \<Longrightarrow> moved R c (push c' v)"
  by (simp add: moved_def)

lemma moved_host: "loc c c' \<Longrightarrow> nonneg c' \<Longrightarrow> R (c_host c) h \<Longrightarrow> moved R c (c'\<lparr>c_host := h\<rparr>)"
  by (simp add: moved_def frame_host)

lemma moved_consumeGas: "moved R c c' \<Longrightarrow> moved R c (snd (consumeGas c' g))"
  by (simp add: consumeGas_def)

locale host_frame =
  fixes H :: "'h host" and static :: bool and depth :: nat
    and I :: "'h \<Rightarrow> bool" and R :: "'h \<Rightarrow> 'h \<Rightarrow> bool"
  assumes R_refl: "R h h"
    and R_trans: "R h h' \<Longrightarrow> R h' h'' \<Longrightarrow> R h h''"
    and R_keeps: "I h \<Longrightarrow> R h h' \<Longrightarrow> I h'"
    and balance_nonneg: "I h \<Longrightarrow> 0 \<le> GetBalance H h a"
    and context_ok: "I h \<Longrightarrow> ctx_ok (GetTxContext H h)"
    and SetStorage_R: "\<not> static \<Longrightarrow> I h \<Longrightarrow> R h (snd (SetStorage H h a key v f))"
    and Selfdestruct_R: "\<not> static \<Longrightarrow> I h \<Longrightarrow> R h (Selfdestruct H h a b)"
    and EmitLog_R: "\<not> static \<Longrightarrow> I h \<Longrightarrow> R h (EmitLog H h a ts bs)"
    and Callx_R: "I h \<Longrightarrow> call_ok static depth k \<Longrightarrow> Callx H h k = Ret (r, h') \<Longrightarrow> R h h'"
begin

lemma moved_running: "running static depth I c \<Longrightarrow> moved R c c' \<Longrightarrow> running static depth I c'"
  using R_keeps by (auto simp: running_def moved_def frame_def)

lemma moved_trans: "moved R a b \<Longrightarrow> moved R b c \<Longrightarrow> moved R a c"
  using R_trans by (auto simp: moved_def frame_def)

lemma loc_moved: "loc c c' \<Longrightarrow> nonneg c' \<Longrightarrow> moved R c c'"
  using R_refl by (auto simp: moved_def loc_defs)

lemma sstore_moved:
  assumes "running static depth I c"
  shows "post (opSStore H c) (moved R c)"
proof -
  have "loc c c" using assms by (simp add: running_def loc_refl)
  then have "moved R c (c\<lparr>c_stack := s, c_host := snd (SetStorage H (c_host c) a k v f)\<rparr>)"
    if "\<forall>v \<in> set s. 0 \<le> v" "\<not> static" for s a k v f
    using SetStorage_R [of "c_host c" a k v f] assms that by (intro moved_host) (auto simp: running_def)
  then show ?thesis
    using assms loc_moved [OF \<open>loc c c\<close>]
    by (auto simp: opSStore_def popHash_def inStaticCall_def Let_def running_def nonneg_def case_prod_beta
        intro!: post_popv moved_consumeGas)
qed

lemma selfdestruct_moved:
  assumes "running static depth I c"
  shows "post (opSelfDestruct H c) (moved R c)"
proof -
  have l: "loc c c" and nn: "nonneg c" using assms by (simp_all add: running_def loc_refl)
  have nt: "nonneg (c\<lparr>c_stack := tl (c_stack c)\<rparr>)" using nn nonneg_tl by (auto simp: nonneg_def)
  have "moved R c (halt (c'\<lparr>c_host := Selfdestruct H (c_host c') a b\<rparr>))"
    if "loc c c'" "c_stack c' = tl (c_stack c)" "\<not> static" for c' a b
    using that assms nt Selfdestruct_R [of "c_host c" a b] loc_config [OF that(1)]
    by (simp add: moved_host nonneg_def running_def)
  then show ?thesis
    using assms loc_moved [OF l nn] nt
    by (auto simp: opSelfDestruct_def Let_def inStaticCall_def running_def nonneg_def
        intro!: post_popAddr post_consumeGas loc_moved)
qed

lemma log_moved:
  assumes "running static depth I c"
  shows "post (opLog X H n c) (moved R c)"
proof -
  have l: "loc c c" and nn: "nonneg c" using assms by (simp_all add: running_def loc_refl)
  have "post (popTopics k c') Q" if "nonneg c'" "\<And>ts s. \<forall>v \<in> set s. 0 \<le> v \<Longrightarrow> Q (ts, c'\<lparr>c_stack := s\<rparr>)"
    for k and c' :: "'h state" and Q
    using that
  proof (induction k arbitrary: c' Q)
    case 0
    then show ?case using 0(2) [of "c_stack c'"] by (simp add: nonneg_def)
  next
    case (Suc k)
    then show ?case by (auto simp: nonneg_def [of c'] intro!: post_popv Suc.IH)
  qed
  note topics = this
  have got: "post (get2 X (c\<lparr>c_stack := s\<rparr>) [] a b) Q"
    if "\<forall>v \<in> set s. 0 \<le> v" "\<And>r ok c'. loc c c' \<Longrightarrow> nonneg c' \<Longrightarrow> Q (r, ok, c')" for s a b Q
    using that loc_mem_ok [OF l] by (intro post_get2) (auto simp: nonneg_def)
  have em: "moved R c (c'\<lparr>c_tmp := t, c_host := EmitLog H (c_host c') a ts bs\<rparr>)"
    if "loc c c'" "nonneg c'" "\<not> static" for c' t a ts bs
    using that assms EmitLog_R [of "c_host c" a ts bs] loc_config [OF that(1)]
    by (simp add: moved_host running_def)
  have charge: "post (case consumeGas c1 g of (ok, c2) \<Rightarrow> if \<not> ok then Ret c2 else Ret (snd (consumeGas c2 g'))) (moved R c)"
    if "moved R c c1" for c1 g g'
    using that by (auto simp: consumeGas_def)
  show ?thesis
    using assms loc_moved [OF l nn]
    by (auto simp: opLog_def Let_def inStaticCall_def running_def nonneg_def [of c] loc_moved
        intro!: post_popv topics got charge em)
qed

lemma create_moved:
  assumes "running static depth I c"
  shows "post (opCreate X H op c) (moved R c)"
proof -
  have l: "loc c c" and nn: "nonneg c" and m: "mem_ok c" using assms by (simp_all add: running_def loc_refl)
  have r: "mem_ok (resetReturnData c)" "nonneg (resetReturnData c)" using m nn by simp_all
  have call: "post (Callx H (c_host c') (k\<lparr>ct_Type := Create\<rparr>)) Q"
    if "loc c c'" "nonneg c'" "\<not> static" "value_ok k" "ct_Depth k = Suc depth"
      "\<And>res h. R (c_host c) h \<Longrightarrow> Q (res, h)" for c' k Q
    using that assms Callx_R [of "c_host c" "k\<lparr>ct_Type := Create\<rparr>"] loc_config [OF that(1)]
    by (auto simp: post_def call_ok_def value_ok_def running_def)
  have bc: "post (buildCreateContract X H op (resetReturnData c)) (create_built c)"
    by (rule post_mono [OF buildCreate_post [OF r]]) (auto simp: create_built_def split: build.splits)
  have d: "ct_Depth (c_msg c) = depth" using assms by (simp add: running_def)
  show ?thesis
    unfolding opCreate_def Let_def [of "resetReturnData c"] inStaticCall_def
    using assms loc_moved [OF l nn]
    by (auto simp: running_def d Let_def create_built_def loc_moved intro!: post_mono [OF bc]
        call push_moved moved_host split: build.split)
qed

text \<open>What the machine knows when it calls, for both kinds of frames.\<close>

lemma create_ready:
  assumes "running static depth I c" and "\<not> ct_Static (c_msg c)"
    and "buildCreateContract X H op (resetReturnData c) = Ret (BuildOk k off sz, c')"
  shows "loc c c'" and "nonneg c'" and "call_ok static depth (k\<lparr>ct_Type := Create\<rparr>)"
    and "unat (c_gas c') + unat (ct_Gas k) \<le> unat (c_gas c)" and "I (c_host c')"
proof -
  have m: "mem_ok (resetReturnData c)" "nonneg (resetReturnData c)" "ct_Depth (c_msg c) = depth" "\<not> static" "I (c_host c)"
    using assms(1,2) by (auto simp: running_def)
  from postD [OF buildCreate_post [OF m(1,2)] assms(3)] m(3,4)
  show r: "loc c c'" and "nonneg c'" and "call_ok static depth (k\<lparr>ct_Type := Create\<rparr>)"
    and "unat (c_gas c') + unat (ct_Gas k) \<le> unat (c_gas c)"
    by (auto simp: create_built_def call_ok_def value_ok_def)
  show "I (c_host c')" using loc_config [OF r] m(5) by simp
qed

definition call_value_ok :: "'h state \<Rightarrow> OpCode \<Rightarrow> bool" where
  "call_value_ok c op \<longleftrightarrow> (op = CALL \<longrightarrow> static \<longrightarrow> c_stack c ! 2 = 0)"

lemma call_ready:
  assumes "running static depth I c" and "call_value_ok c op" and "callTypeOf op = Ret t"
    and "buildCallContract X H op (resetReturnData c) = Ret (b, c')"
  shows "loc c c'" and "nonneg c'" and "I (c_host c')" and "b = BuildNil \<Longrightarrow> c_stop c'"
    and "b = BuildErr e \<Longrightarrow> \<exists>k. e = Some k \<and> charged 1 c c' k"
    and "b = BuildOk k off sz \<Longrightarrow> charged 1 c c' k \<and> range_ok off sz c' \<and> call_ok static depth (k\<lparr>ct_Type := t\<rparr>)"
proof -
  have m: "mem_ok (resetReturnData c)" "nonneg (resetReturnData c)" "value_ok (c_msg (resetReturnData c))"
    and d: "ct_Depth (c_msg c) = depth" "static \<Longrightarrow> ct_Static (c_msg c)" "I (c_host c)"
    using assms(1) by (auto simp: running_def)
  have built: "call_built op c (b, c')"
    using postD [OF buildCall_post [OF m] assms(4)]
    by (auto simp: call_built_def charged_def split: build.splits option.splits)
  show r: "loc c c'" "nonneg c'" using built by (auto simp: call_built_def)
  show "I (c_host c')" using loc_config [OF r(1)] d(3) by simp
  show "b = BuildNil \<Longrightarrow> c_stop c'" using built by (simp add: call_built_def)
  show "b = BuildErr e \<Longrightarrow> \<exists>k. e = Some k \<and> charged 1 c c' k"
    using built by (auto simp: call_built_def split: option.splits)
  show "b = BuildOk k off sz \<Longrightarrow> charged 1 c c' k \<and> range_ok off sz c' \<and> call_ok static depth (k\<lparr>ct_Type := t\<rparr>)"
    using built assms(2,3) d
    by (auto simp: call_built_def call_ok_def value_ok_def call_value_ok_def callTypeOf_def split: if_splits)
qed

lemma peek_ok:
  assumes "running static depth I c" and "c_stack c ! 2 = v" and "big_BitLen v = 0" and "3 \<le> length (c_stack c)"
  shows "v = 0"
  using assms nonneg_nth [of c 2] big_BitLen_le_iff [of v 0] by (simp add: running_def)

lemma call_value_okI:
  assumes "running static depth I c"
    and "op = CALL \<Longrightarrow> ct_Static (c_msg c) \<Longrightarrow> 3 \<le> length (c_stack c) \<and> big_BitLen (c_stack c ! 2) = 0"
  shows "call_value_ok c op"
  using assms peek_ok [OF assms(1) refl] by (auto simp: call_value_ok_def running_def)

text \<open>The rule for call instructions: one premise per way through the code.\<close>

lemma opCall_post:
  assumes run: "running static depth I c"
    and ex: "\<And>e. Q (exit (resetReturnData c) e)"
    and nil: "\<And>c'. loc c c' \<Longrightarrow> nonneg c' \<Longrightarrow> c_stop c' \<Longrightarrow> Q c'"
    and err: "\<And>c' k. loc c c' \<Longrightarrow> nonneg c' \<Longrightarrow> charged 1 c c' k \<Longrightarrow> Q (push c' 0\<lparr>c_gas := c_gas c' + ct_Gas k\<rparr>)"
    and ok: "\<And>c' k off sz r h x. loc c c' \<Longrightarrow> nonneg c' \<Longrightarrow> charged 1 c c' k \<Longrightarrow> range_ok off sz c' \<Longrightarrow> I (c_host c') \<Longrightarrow>
      call_ok static depth k \<Longrightarrow> Callx H (c_host c') k = Ret (r, h) \<Longrightarrow> 0 \<le> x \<Longrightarrow>
      Q (push (c'\<lparr>c_host := h\<rparr>) x\<lparr>c_gas := c_gas c' + res_GasLeft r, c_returnData := res_ReturnValue r\<rparr>) \<and>
      post (s_copy (c_memory c') (unat off) (unat (off + sz)) (res_ReturnValue r)) (\<lambda>m.
        Q (push (c'\<lparr>c_host := h\<rparr>) x\<lparr>c_memory := m, c_gas := c_gas c' + res_GasLeft r,
          c_returnData := res_ReturnValue r\<rparr>))"
  shows "post (opCall X H op c) Q"
proof -
  let ?c = "resetReturnData c"
  have push [simp]: "c_gas (push c' x) = c_gas c'" "c_memory (push c' x) = c_memory c'" for c' :: "'h state" and x
    by (simp_all add: push_def)
  have rest: "post (case b of
        BuildNil \<Rightarrow> Ret c'
      | BuildErr k \<Rightarrow>
          (let c' = push c' 0
           in Ret (case k of None \<Rightarrow> c' | Some contract \<Rightarrow> c'\<lparr>c_gas := c_gas c' + ct_Gas contract\<rparr>))
      | BuildOk contract offset sz \<Rightarrow>
          let contract = contract\<lparr>ct_Type := t\<rparr> in
          bnd (Callx H (c_host c') contract) (\<lambda>(result, h).
          let c' = push (c'\<lparr>c_host := h\<rparr>) (if Succeeded result then 1 else 0) in
          bnd (if (Succeeded result \<or> Reverted result) \<and> res_ReturnValue result \<noteq> []
               then bnd (s_copy (c_memory c') (unat offset) (unat (offset + sz)) (res_ReturnValue result))
                      (\<lambda>m. Ret (c'\<lparr>c_memory := m\<rparr>))
               else Ret c') (\<lambda>c'.
          Ret (c'\<lparr>c_gas := c_gas c' + res_GasLeft result, c_returnData := res_ReturnValue result\<rparr>)))) Q"
    if "call_value_ok c op" "callTypeOf op = Ret t" "buildCallContract X H op ?c = Ret (b, c')" for t b c'
  proof -
    note rdy = call_ready [OF run that]
    show ?thesis
    proof (cases b)
      case (BuildOk k off sz)
      have "post (Callx H (c_host c') (k\<lparr>ct_Type := t\<rparr>)) P"
        if "\<And>r h. Callx H (c_host c') (k\<lparr>ct_Type := t\<rparr>) = Ret (r, h) \<Longrightarrow> P (r, h)" for P
        using that by (auto simp: post_def)
      moreover have "charged 1 c c' (k\<lparr>ct_Type := t\<rparr>)" using rdy(6) [OF BuildOk] by (simp add: charged_def)
      note ok = ok [OF rdy(1,2) this _ rdy(3)]
      ultimately show ?thesis
        using rdy(6) [OF BuildOk] ok [of off sz, where x = 1] ok [of off sz, where x = 0]
        unfolding BuildOk by (auto simp: Let_def)
    qed (use rdy nil err in \<open>auto simp: Let_def\<close>)
  qed
  note z = call_value_okI [OF run]
  show ?thesis
  proof (cases "op = CALL \<and> ct_Static (c_msg c)")
    case True
    show ?thesis
      using ex z rest True
      by (auto simp: opCall_def inStaticCall_def Let_def [of ?c] peekAt_def callTypeOf_def post_def [of "buildCallContract _ _ _ _"])
  next
    case False
    have "post (bnd (callTypeOf op) (\<lambda>t. bnd (buildCallContract X H op ?c) (f t))) Q"
      if "\<And>t b c'. callTypeOf op = Ret t \<Longrightarrow> buildCallContract X H op ?c = Ret (b, c') \<Longrightarrow> post (f t (b, c')) Q" for f
      using that by (auto simp: post_def [of "callTypeOf op"] post_def [of "buildCallContract _ _ _ _"])
    note t = this
    show ?thesis
      using False ex z
      by (auto simp: opCall_def inStaticCall_def Let_def [of ?c] simp del: post_bnd intro!: t rest)
  qed
qed

lemma call_moved:
  assumes "running static depth I c"
  shows "post (opCall X H op c) (moved R c)"
proof (rule opCall_post [OF assms])
  have nn: "nonneg c" and i: "I (c_host c)" and l: "loc c c" using assms by (simp_all add: running_def loc_refl)
  show "moved R c (exit (resetReturnData c) e)" for e
    using loc_moved [of c "resetReturnData c"] l nn by simp
  show "moved R c c'" if "loc c c'" "nonneg c'" for c' using that by (rule loc_moved)
  show "moved R c (push c' 0\<lparr>c_gas := c_gas c' + ct_Gas k\<rparr>)" if "loc c c'" "nonneg c'" for c' k
    using that by (simp add: push_moved loc_moved)
  fix c' k off sz r h and x :: int
  assume a: "loc c c'" "nonneg c'" "range_ok off sz c'" "I (c_host c')" "call_ok static depth k"
    "Callx H (c_host c') k = Ret (r, h)" "0 \<le> x"
  have R: "R (c_host c) h" using Callx_R [OF a(4-6)] loc_config [OF a(1)] by simp
  show "moved R c (push (c'\<lparr>c_host := h\<rparr>) x\<lparr>c_gas := c_gas c' + res_GasLeft r, c_returnData := res_ReturnValue r\<rparr>) \<and>
      post (s_copy (c_memory c') (unat off) (unat (off + sz)) (res_ReturnValue r)) (\<lambda>m.
        moved R c (push (c'\<lparr>c_host := h\<rparr>) x\<lparr>c_memory := m, c_gas := c_gas c' + res_GasLeft r,
          c_returnData := res_ReturnValue r\<rparr>))"
    using a(1-3,7) R loc_mem_ok [OF a(1)]
    by (auto intro!: push_moved moved_host post_range_copy)
      (auto simp: push_def moved_def frame_def mem_ok_def loc_defs nonneg_def)
qed

lemma inst_moved:
  assumes "running static depth I c" and "(op, i) \<in> set (dispatch_entries X H)"
  shows "post (h_inst i c) (moved R c)"
proof -
  have "local_ok c i \<or> reaches_host X H i"
    using entries_local [of c H X] assms balance_nonneg context_ok by (auto simp: running_def)
  then show ?thesis
  proof
    assume "local_ok c i"
    then show ?thesis
      unfolding local_ok_def by (rule post_mono) (auto simp: loc_less_def loc_moved split: if_splits)
  next
    assume "reaches_host X H i"
    with assms(1) show ?thesis
      unfolding reaches_host_def
      using sstore_moved selfdestruct_moved log_moved create_moved call_moved by metis
  qed
qed

lemma step_moved:
  assumes "running static depth I c"
  shows "post (step X H c) (moved R c)"
proof -
  have l: "loc c c" and nn: "nonneg c" and m: "mem_ok c" using assms by (simp_all add: running_def loc_refl)
  have self: "moved R c c" using loc_moved [OF l nn] .
  have go: "post (case consumeGas c g of (ok, c') \<Rightarrow> if \<not> ok then Ret (exit c' ErrOutOfGas)
      else bnd (h_inst i c') f) (moved R c)"
    if i: "(op, i) \<in> set (dispatch_entries X H)" and f: "\<And>c'. moved R c c' \<Longrightarrow> post (f c') (moved R c)"
    for op i g f
  proof -
    have "post (bnd (h_inst i c') f) (moved R c)" if "loc c c'" "c_stack c' = c_stack c" for c'
    proof -
      have "running static depth I c'" "moved R c c'"
        using assms that loc_moved [of c c'] by (auto simp: running_def loc_defs nonneg_def)
      from post_mono [OF inst_moved [OF this(1) i]] moved_trans [OF this(2)] f show ?thesis by simp
    qed
    moreover have "moved R c c'" if "loc c c'" "c_stack c' = c_stack c" for c'
      using that nn loc_moved by (auto simp: nonneg_def)
    ultimately show ?thesis
      by (intro post_consumeGas) (auto simp: m)
  qed
  have fin: "post (if stackSize < length (c_stack c') then Ret (exit c' ErrStackOverflow)
      else Ret (c'\<lparr>c_ip := c_ip c' + 1\<rparr>)) (moved R c)" if "moved R c c'" for c'
    using that by simp
  show ?thesis
    using self unfolding step_def Let_def
    by (auto split: option.split intro!: go [OF dispatchTable_in] fin)
qed

theorem run_moved:
  assumes "running static depth I c"
  shows "post (run_loop X H n c) (moved R c)"
  using assms
proof (induction n arbitrary: c)
  case 0
  then show ?case by (auto simp: running_def intro!: loc_moved loc_refl)
next
  case (Suc n)
  have "moved R c c" using Suc.prems by (auto simp: running_def intro!: loc_moved loc_refl)
  moreover have "post (run_loop X H n c') (moved R c)" if "moved R c c'" for c'
    using post_mono [OF Suc.IH [OF moved_running [OF Suc.prems that]]] moved_trans [OF that] by blast
  ultimately show ?case
    using post_mono [OF step_moved [OF Suc.prems]] by auto
qed

theorem EVM_Run_moved:
  assumes "I h" and "value_ok k" and "static \<longrightarrow> ct_Static k" and "ct_Depth k = depth"
  shows "post (EVM_Run X H k h config) (\<lambda>(r, h'). R h h')"
proof -
  have "running static depth I (new_state k h config\<lparr>c_bitmap := b\<rparr>)" for b
    using assms by (simp add: running_def new_state_def mem_ok_def nonneg_def)
  from post_mono [OF run_moved [OF this, of X]]
  have "post (run_loop X H n (new_state k h config\<lparr>c_bitmap := b\<rparr>)) (\<lambda>c'. R h (c_host c'))" for n b
    by (auto simp: moved_def frame_def new_state_def)
  then show ?thesis
    by (auto simp: EVM_Run_def state_Run_def Let_def post_def [of "bitmap_setCode _ _ _"]
        simp del: run_loop.simps)
qed

end

end
