(* ===== verification/Evm_Gas.thy ===== *)
theory Evm_Gas
  imports Evm_Host
begin

text \<open>
  Gas and termination of the virtual machine. \<open>host_gas\<close> extends the host interface by what calls
  promise: they return no more gas than they were given and do not run out of model fuel. Then, with
  EIP-150 active, every iteration of the interpreter loop stops the machine or consumes gas, so the
  fuel of \<open>state_Run\<close> is enough and a run returns no more gas than it got.
\<close>

section \<open>No instruction runs out of fuel\<close>

lemma nofuel_prims [simp]:
  "\<not> nofuel (s_sub m lo hi)" "\<not> nofuel (s_copy m lo hi src)" "\<not> nofuel (peekAt c n)"
  "\<not> nofuel (state_swap c n)" "\<not> nofuel (callTypeOf op)" "\<not> nofuel (bitmap_isSet s j)"
  "\<not> nofuel (popv c)" "\<not> nofuel (topv c)"
  by (auto simp: nofuel_def s_sub_def s_copy_def peekAt_def state_swap_def Let_def callTypeOf_def
      bitmap_isSet_def)

lemma nofuel_more [simp]:
  "\<not> nofuel (validJumpdest c v)" "\<not> nofuel (popHash c)" "\<not> nofuel (mem_setBytes c mo input sz d)"
  "\<not> nofuel (get2 X c dst off len)"
  by (auto simp: popHash_def validJumpdest_def mem_setBytes_def get2_def Let_def split: prod.splits)

lemma nofuel_put_limbs [simp]: "\<not> nofuel (put_limb j d i buf)" "\<not> nofuel (put_limbs ds i buf)"
proof -
  have *: "\<not> nofuel (put_limb j d i buf)" for j d i buf
    by (induction j d i buf rule: put_limb.induct) auto
  then show "\<not> nofuel (put_limb j d i buf)" .
  show "\<not> nofuel (put_limbs ds i buf)"
    by (induction ds i buf rule: put_limbs.induct) (auto simp: *)
qed

lemma nofuel_popTopics [simp]: "\<not> nofuel (popTopics n c)"
  by (induction n c rule: popTopics.induct) auto

lemma nofuel_build [simp]:
  "\<not> nofuel (buildCallContract X H op c)" "\<not> nofuel (buildCreateContract X H op c)"
  by (auto simp: buildCallContract_def buildCreateContract_def Let_def split: prod.splits)

lemma nofuel_alu [simp]:
  "\<not> nofuel (opAdd c)" "\<not> nofuel (opMul c)" "\<not> nofuel (opSub c)" "\<not> nofuel (opDiv c)" "\<not> nofuel (opSDiv c)"
  "\<not> nofuel (opMod c)" "\<not> nofuel (opSMod c)" "\<not> nofuel (opAddMod c)" "\<not> nofuel (opMulMod c)" "\<not> nofuel (opExp c)"
  "\<not> nofuel (opAnd c)" "\<not> nofuel (opOr c)" "\<not> nofuel (opXor c)" "\<not> nofuel (opByte c)" "\<not> nofuel (opNot c)"
  "\<not> nofuel (opIsZero c)" "\<not> nofuel (opEq c)" "\<not> nofuel (opLt c)" "\<not> nofuel (opGt c)" "\<not> nofuel (opSlt c)"
  "\<not> nofuel (opSgt c)" "\<not> nofuel (opSignExtension c)" "\<not> nofuel (opShl c)" "\<not> nofuel (opShr c)"
  "\<not> nofuel (opSar c)"
  by (auto simp: opAdd_def opMul_def opSub_def opDiv_def opSDiv_def opMod_def opSMod_def
      opAddMod_def opMulMod_def opExp_def opAnd_def opOr_def opXor_def opByte_def opNot_def opIsZero_def
      opEq_def opLt_def opGt_def opSlt_def opSgt_def opSignExtension_def opShl_def opShr_def
      opSar_def Let_def split: option.splits prod.splits)

lemma nofuel_machine [simp]:
  "\<not> nofuel (opAddress c)" "\<not> nofuel (opCaller c)" "\<not> nofuel (opCallValue c)" "\<not> nofuel (opCallDataLoad c)"
  "\<not> nofuel (opCallDataSize c)" "\<not> nofuel (opCodeSize c)" "\<not> nofuel (opReturnDataSize c)" "\<not> nofuel (opPC c)"
  "\<not> nofuel (opMSize c)" "\<not> nofuel (opGas c)" "\<not> nofuel (opSelfBalance H c)" "\<not> nofuel (opChainID H c)"
  "\<not> nofuel (opOrigin H c)" "\<not> nofuel (opGasPrice H c)" "\<not> nofuel (opBlockHash H c)" "\<not> nofuel (opCoinbase H c)"
  "\<not> nofuel (opTimestamp H c)" "\<not> nofuel (opNumber H c)" "\<not> nofuel (opDifficulty H c)" "\<not> nofuel (opGasLimit H c)"
  "\<not> nofuel (opPop c)" "\<not> nofuel (opPush n c)" "\<not> nofuel (opDup n c)" "\<not> nofuel (opSwap n c)" "\<not> nofuel (opJump c)"
  "\<not> nofuel (opJumpi c)" "\<not> nofuel (opJumpDest c)" "\<not> nofuel (opStop c)"
  by (auto simp: opAddress_def opCaller_def opCallValue_def opCallDataLoad_def opCallDataSize_def
      opCodeSize_def opReturnDataSize_def opPC_def opMSize_def opGas_def opSelfBalance_def
      opChainID_def opOrigin_def opGasPrice_def opBlockHash_def opCoinbase_def opTimestamp_def
      opNumber_def opDifficulty_def opGasLimit_def opPop_def opPush_def opDup_def opSwap_def opJump_def
      opJumpi_def opJumpDest_def opStop_def Let_def split: option.splits prod.splits)

lemma nofuel_memory [simp]:
  "\<not> nofuel (opMload X c)" "\<not> nofuel (opSha3 X c)" "\<not> nofuel (opHalt X op c)" "\<not> nofuel (opMStore X c)"
  "\<not> nofuel (opMStore8 X c)" "\<not> nofuel (opCallDataCopy X c)" "\<not> nofuel (opCodeCopy X c)"
  "\<not> nofuel (opExtCodeCopy X H c)" "\<not> nofuel (opReturnDataCopy X c)" "\<not> nofuel (opSload H c)"
  "\<not> nofuel (opBalance H c)" "\<not> nofuel (opExtCodeSize H c)" "\<not> nofuel (opExtCodeHash H c)"
  "\<not> nofuel (opSStore H c)" "\<not> nofuel (opSelfDestruct H c)" "\<not> nofuel (opLog X H n c)"
  by (auto simp: opMload_def opSha3_def opHalt_def opMStore_def opMStore8_def opCallDataCopy_def
      opCodeCopy_def opExtCodeCopy_def opReturnDataCopy_def opSload_def opBalance_def opExtCodeSize_def
      opExtCodeHash_def opSStore_def opSelfDestruct_def opLog_def Let_def split: prod.splits)

lemma entries_nofuel:
  "\<forall>(op, i) \<in> set (dispatch_entries X H).
     (\<not> nofuel (h_inst i c)) \<or> (\<exists>op. h_inst i = opCreate X H op \<or> h_inst i = opCall X H op)"
  by (simp add: dispatch_entries_def registerRange_def) auto

section \<open>Every iteration costs gas\<close>

definition spent :: "nat \<Rightarrow> 'h state \<Rightarrow> 'h state \<Rightarrow> bool" where
  "spent n c c' \<longleftrightarrow> unat (c_gas c') \<le> unat (c_gas c) \<and> (c_stop c' \<or> unat (c_gas c') + n \<le> unat (c_gas c))"

lemma spent_mono: "spent m c c' \<Longrightarrow> n \<le> m \<Longrightarrow> spent n c c'"
  by (auto simp: spent_def)

lemma spent_exit [simp]: "spent n c (exit c' e) \<longleftrightarrow> unat (c_gas c') \<le> unat (c_gas c)"
  by (simp add: spent_def exit_def)

lemma spent_halt [simp]: "spent n c (halt c)"
  by (simp add: spent_def halt_def)

lemma loc_spent: "loc c c' \<Longrightarrow> spent 0 c c'"
  by (simp add: spent_def loc_defs)

lemma loc_less_spent: "loc_less c c' \<Longrightarrow> spent 1 c c'"
  by (auto simp: spent_def loc_less_def loc_defs)

lemma sstore_cost_pos: "0 < unat (sstore_cost f s)"
  by (auto simp: sstore_cost_def Let_def split: storage_status.split)

lemma sstore_spent: "post (opSStore H c) (spent 1 c)"
proof -
  have "spent 1 c (snd (consumeGas c' (sstore_cost f s)))" if "c_gas c' = c_gas c" for c' f s
    using that sstore_cost_pos [of f s]
    by (auto simp: consumeGas_def spent_def exit_def word_less_nat_alt unat_u64_sub not_less word_le_nat_alt)
  then show ?thesis
    by (auto simp: opSStore_def popHash_def Let_def case_prod_beta
        intro!: post_popv)
qed

lemma selfdestruct_spent: "mem_ok c \<Longrightarrow> post (opSelfDestruct H c) (spent 1 c)"
  by (auto simp: opSelfDestruct_def Let_def spent_def exit_def halt_def loc_defs
      intro!: post_popAddr post_consumeGas)

lemma log_spent: "mem_ok c \<Longrightarrow> post (opLog X H n c) (spent 0 c)"
proof -
  assume m: "mem_ok c"
  have topics: "post (popTopics k c') Q" if "\<And>ts s. Q (ts, c'\<lparr>c_stack := s\<rparr>)" for k and c' :: "'a state" and Q
    using that
  proof (induction k arbitrary: c' Q)
    case 0
    then show ?case using 0 [of _ "c_stack c'"] by simp
  next
    case (Suc k)
    then show ?case by (auto intro!: post_popv Suc.IH)
  qed
  have charge: "post (case consumeGas c1 g of (ok, c2) \<Rightarrow> if \<not> ok then Ret c2 else Ret (snd (consumeGas c2 g'))) (spent 0 c)"
    if "unat (c_gas c1) \<le> unat (c_gas c)" for c1 g g' and c :: "'a state"
    using that
    by (auto simp: consumeGas_def spent_def exit_def word_less_nat_alt unat_u64_sub not_less word_le_nat_alt)
  show ?thesis
    using m by (auto simp: opLog_def Let_def loc_spent
        intro!: post_popv topics post_get2 charge) (auto simp: loc_defs spent_def)
qed

locale host_gas = host_frame +
  assumes Callx_gas: "I h \<Longrightarrow> call_ok static depth k \<Longrightarrow> Callx H h k = Ret (r, h') \<Longrightarrow> res_GasLeft r \<le> ct_Gas k"
    and Callx_fuel: "I h \<Longrightarrow> call_ok static depth k \<Longrightarrow> Callx H h k \<noteq> NoFuel"
begin

lemma gas_returned:
  assumes "unat (c_gas c') + unat g + n \<le> unat (c_gas c)" and "r \<le> g"
  shows "unat (c_gas c' + r) + n \<le> unat (c_gas c)"
proof -
  have "unat (c_gas c' + r) \<le> unat (c_gas c') + unat r" by (simp add: unat_word_ariths)
  with assms show ?thesis by (simp add: word_le_nat_alt)
qed

lemma create_spent:
  assumes run: "running static depth I c"
  shows "post (opCreate X H op c) (spent 0 c)"
proof (cases "ct_Static (c_msg c)")
  case True
  then show ?thesis by (simp add: opCreate_def inStaticCall_def)
next
  case False
  let ?c = "resetReturnData c"
  have m: "mem_ok ?c" "nonneg ?c" using run by (simp_all add: running_def)
  note built = postD [OF buildCreate_post [OF m]]
  have push [simp]: "c_gas (push c' x) = c_gas c'" "c_stop (push c' x) = c_stop c'" "c_gas (exit c' e) = c_gas c'"
    for c' :: "'a state" and x e
    by (simp_all add: push_def exit_def)
  have "unat (c_gas c') \<le> unat (c_gas c)" if "buildCreateContract X H op ?c = Ret (b, c')" for b c'
    using built [OF that] by (simp add: create_built_def loc_defs)
  moreover have "buildCreateContract X H op ?c \<noteq> Ret (BuildErr (Some k), c')" for c' k
    using built [of X H op "(BuildErr (Some k), c')"] by (auto simp: create_built_def)
  moreover have "unat (c_gas c' + res_GasLeft r) \<le> unat (c_gas c)"
    if "buildCreateContract X H op ?c = Ret (BuildOk k off sz, c')" "Callx H (c_host c') (k\<lparr>ct_Type := Create\<rparr>) = Ret (r, h)"
    for k off sz c' r h
    using create_ready [OF run False that(1)] Callx_gas [OF _ _ that(2)] gas_returned [of c' "ct_Gas k" 0 c "res_GasLeft r"]
    by simp
  ultimately show ?thesis
    by (auto simp: opCreate_def inStaticCall_def Let_def post_def [of "buildCreateContract _ _ _ _"]
        post_def [of "Callx _ _ _"] spent_def split: build.split option.split)
qed

lemma call_spent:
  assumes run: "running static depth I c" and eip: "EIP150 (c_config c)"
  shows "post (opCall X H op c) (spent 1 c)"
proof (rule opCall_post [OF run])
  show "spent 1 c (exit (resetReturnData c) e)" for e by simp
  show "spent 1 c c'" if "loc c c'" "c_stop c'" for c' using that by (simp add: spent_def loc_defs)
  show "spent 1 c (push c' 0\<lparr>c_gas := c_gas c' + ct_Gas k\<rparr>)" if "charged 1 c c' k" for c' k
    using that eip gas_returned [of c' "ct_Gas k" 1 c "ct_Gas k"] by (simp add: spent_def charged_def)
  fix c' k off sz r h and x :: int
  assume a: "loc c c'" "charged 1 c c' k" "I (c_host c')" "call_ok static depth k" "Callx H (c_host c') k = Ret (r, h)"
  have "unat (c_gas c' + res_GasLeft r) + 1 \<le> unat (c_gas c)"
    using a(2) eip gas_returned [of c' "ct_Gas k" 1 c, OF _ Callx_gas [OF a(3-5)]] by (simp add: charged_def)
  then show "spent 1 c (push (c'\<lparr>c_host := h\<rparr>) x\<lparr>c_gas := c_gas c' + res_GasLeft r, c_returnData := res_ReturnValue r\<rparr>) \<and>
      post (s_copy (c_memory c') (unat off) (unat (off + sz)) (res_ReturnValue r)) (\<lambda>m.
        spent 1 c (push (c'\<lparr>c_host := h\<rparr>) x\<lparr>c_memory := m, c_gas := c_gas c' + res_GasLeft r,
          c_returnData := res_ReturnValue r\<rparr>))"
    by (simp add: spent_def post_def)
qed

lemma inst_spent:
  assumes run: "running static depth I c" and "EIP150 (c_config c)" and "(op, i) \<in> set (dispatch_entries X H)"
  shows "post (h_inst i c) (spent (if h_gas i = 0 then 1 else 0) c)"
proof -
  have m: "mem_ok c" using run by (simp add: running_def)
  have "local_ok c i \<or> reaches_host X H i"
    using entries_local [of c H X] run assms(3) balance_nonneg context_ok by (auto simp: running_def)
  then show ?thesis
  proof
    assume "local_ok c i"
    then show ?thesis
      unfolding local_ok_def by (rule post_mono) (auto simp: loc_spent loc_less_spent simp del: One_nat_def)
  next
    assume "reaches_host X H i"
    then consider "h_inst i = opSStore H" | "h_inst i = opSelfDestruct H"
      | n where "h_inst i = opLog X H n" "h_gas i = 375"
      | n where "h_inst i = opCreate X H n" "h_gas i = 32000" | n where "h_inst i = opCall X H n"
      by (auto simp: reaches_host_def)
    then show ?thesis
      by cases (auto intro: post_mono [OF sstore_spent] post_mono [OF selfdestruct_spent [OF m]]
          post_mono [OF call_spent [OF run assms(2)]] log_spent [OF m] create_spent [OF run] elim: spent_mono)
  qed
qed

lemma inst_fuel:
  assumes run: "running static depth I c" and "(op, i) \<in> set (dispatch_entries X H)"
  shows "\<not> nofuel (h_inst i c)"
proof -
  have "\<not> nofuel (opCreate X H op c)" for op
    using create_ready [OF run] Callx_fuel
    by (auto simp: opCreate_def inStaticCall_def Let_def nofuel_def [of "Callx _ _ _"] split: build.splits)
  moreover have "\<not> nofuel (opCall X H op c)" for op
  proof -
    have key: "\<not> nofuel (Callx H (c_host c') (k\<lparr>ct_Type := t\<rparr>))"
      if "call_value_ok c op" "callTypeOf op = Ret t" "buildCallContract X H op (resetReturnData c) = Ret (BuildOk k off sz, c')"
      for t k off sz c'
      using call_ready(3) [OF run that] call_ready(6) [OF run that refl] Callx_fuel by (auto simp: nofuel_def)
    show ?thesis
      using key call_value_okI [OF run, of op]
      by (cases "op = CALL \<and> ct_Static (c_msg c)")
        (auto simp: opCall_def inStaticCall_def Let_def peekAt_def split: build.splits if_splits)
  qed
  ultimately show ?thesis using entries_nofuel [of X H c] assms(2) by fastforce
qed

text \<open>One iteration from a running state.\<close>

lemma step_spent:
  assumes run: "running static depth I c" and eip: "EIP150 (c_config c)"
  shows "post (step X H c) (spent 1 c)" and "\<not> nofuel (step X H c)"
proof -
  have m: "mem_ok c" using run by (simp add: running_def)
  have keep: "running static depth I c' \<and> EIP150 (c_config c')" if "loc c c'" "c_stack c' = c_stack c" for c'
    using that run eip by (auto simp: running_def loc_defs nonneg_def)
  have pay: "post (case consumeGas c (h_gas i) of (ok, c') \<Rightarrow> if \<not> ok then Ret (exit c' ErrOutOfGas)
      else bnd (h_inst i c') f) (spent 1 c)"
    if i: "(op, i) \<in> set (dispatch_entries X H)" and f: "\<And>c'. spent 1 c c' \<Longrightarrow> post (f c') (spent 1 c)" for op i f
  proof -
    have "spent 1 c c2" if "loc c c'" "unat (c_gas c') + unat (h_gas i) = unat (c_gas c)"
      "spent (if h_gas i = 0 then 1 else 0) c' c2" for c' c2
      using that by (auto simp: spent_def unat_eq_0 [symmetric] split: if_splits)
    then have "post (bnd (h_inst i c') f) (spent 1 c)"
      if "loc c c'" "c_stack c' = c_stack c" "unat (c_gas c') + unat (h_gas i) = unat (c_gas c)" for c'
      using post_mono [OF inst_spent [OF _ _ i]] keep [OF that(1,2)] that f by simp
    then show ?thesis by (intro post_consumeGas) (auto simp: m loc_defs)
  qed
  have fin: "post (if stackSize < length (c_stack c') then Ret (exit c' ErrStackOverflow)
      else Ret (c'\<lparr>c_ip := c_ip c' + 1\<rparr>)) (spent 1 c)" if "spent 1 c c'" for c'
    using that by (auto simp: spent_def exit_def)
  show "post (step X H c) (spent 1 c)"
    unfolding step_def Let_def
    by (auto split: option.split intro!: pay [OF dispatchTable_in] fin simp del: One_nat_def)
  have "\<not> nofuel (h_inst i c')" if "dispatchTable X H op = Some i" "consumeGas c g = (ok, c')" for op i ok c' g
    using inst_fuel [OF _ dispatchTable_in [OF that(1)]] keep consumeGas_loc(1,2) [OF that(2) m] by blast
  then show "\<not> nofuel (step X H c)"
    by (auto simp: step_def Let_def split: option.split prod.splits)
qed

text \<open>The loop ends: the fuel \<open>Suc (unat gas)\<close> is enough, and the gas never grows.\<close>

theorem run_spent:
  assumes "running static depth I c" and "EIP150 (c_config c)" and "unat (c_gas c) < n"
  shows "post (run_loop X H n c) (spent 0 c)" and "\<not> nofuel (run_loop X H n c)"
proof -
  have "post (run_loop X H n c) (spent 0 c) \<and> \<not> nofuel (run_loop X H n c)"
    using assms
  proof (induction n arbitrary: c)
    case (Suc n)
    have "post (run_loop X H n c') (spent 0 c) \<and> \<not> nofuel (run_loop X H n c')"
      if "step X H c = Ret c'" for c'
    proof -
      have run: "running static depth I c'" and cfg: "c_config c' = c_config c"
        using moved_running [OF Suc.prems(1)] postD [OF step_moved [OF Suc.prems(1)] that]
        by (auto simp: moved_def frame_def)
      have sp: "spent 1 c c'" using postD [OF step_spent(1) [OF Suc.prems(1,2)] that] .
      show ?thesis
      proof (cases "c_stop c'")
        case True
        then have "run_loop X H n c' = Ret c'" by (cases n) simp_all
        with sp show ?thesis by (simp add: spent_def)
      next
        case False
        with sp Suc.prems(3) have "unat (c_gas c') < n" by (simp add: spent_def)
        from Suc.IH [OF run _ this] cfg Suc.prems(2) have
          "post (run_loop X H n c') (spent 0 c')" "\<not> nofuel (run_loop X H n c')" by simp_all
        with sp show ?thesis by (auto simp: spent_def elim: post_mono)
      qed
    qed
    then show ?case
      using step_spent(2) [OF Suc.prems(1,2), of X] by (auto simp: post_def spent_def bnd_eq_Ret)
  qed simp
  then show "post (run_loop X H n c) (spent 0 c)" and "\<not> nofuel (run_loop X H n c)" by simp_all
qed

theorem EVM_Run_spent:
  assumes "I h" and "value_ok k" and "static \<longrightarrow> ct_Static k" and "ct_Depth k = depth" and "EIP150 config"
  shows "post (EVM_Run X H k h config) (\<lambda>(r, h'). res_GasLeft r \<le> ct_Gas k)"
    and "EVM_Run X H k h config \<noteq> NoFuel"
proof -
  let ?c = "\<lambda>b. new_state k h config\<lparr>c_bitmap := b\<rparr>"
  have run: "running static depth I (?c b)" "EIP150 (c_config (?c b))" "c_gas (?c b) = ct_Gas k" for b
    using assms by (simp_all add: running_def new_state_def mem_ok_def nonneg_def)
  have g [simp]: "c_gas (new_state k h config) = ct_Gas k" by (simp add: new_state_def)
  obtain b where b: "bitmap_setCode X (c_bitmap (new_state k h config)) (ct_Code k) = Ret b"
    using bitmap_setCode_spec [of s_empty X "ct_Code k"] by (auto simp: new_state_def)
  note sp = run_spent [OF run(1,2), of b "Suc (unat (ct_Gas k))" X, unfolded run(3), OF lessI]
  from sp(1) show "post (EVM_Run X H k h config) (\<lambda>(r, h'). res_GasLeft r \<le> ct_Gas k)"
    by (auto simp: EVM_Run_def state_Run_def Let_def b run spent_def word_le_nat_alt
        simp del: run_loop.simps elim!: post_mono)
  from sp(2) show "EVM_Run X H k h config \<noteq> NoFuel"
    by (auto simp: EVM_Run_def state_Run_def Let_def b run nofuel_def [symmetric] simp del: run_loop.simps)
qed

end

end
