(* ===== verification/Transition_Host.thy ===== *)
theory Transition_Host
  imports Transition Evm_Gas
begin

text \<open>
  The state transition as host of the virtual machine. The locale \<open>world\<close> lists what a relation on
  transitions must satisfy: it is a preorder kept by the primitive changes of the state and by
  reverting to the start. Then every level of nested calls respects it, by induction on the call
  depth over the locale \<open>host_frame\<close>. The two instances are conservation of the total supply and
  the invisibility of static calls (\<open>Transition_Static\<close>); the gas laws are added for \<open>host_gas\<close>.
\<close>

section \<open>What a call never changes\<close>

definition keeps :: "('t, 's) transition \<Rightarrow> ('t, 's) transition \<Rightarrow> bool" where
  "keeps t t' \<longleftrightarrow> tn_runtimes t' = tn_runtimes t \<and> tn_forks t' = tn_forks t \<and> tn_ctx t' = tn_ctx t \<and>
     tn_gasPool t' = tn_gasPool t \<and> tn_getHash t' = tn_getHash t \<and> tn_totalGas t' = tn_totalGas t \<and>
     txn_snapshot (tn_txn t') = txn_snapshot (tn_txn t) \<and>
     (\<exists>xs. txn_snapshots (tn_txn t') = txn_snapshots (tn_txn t) @ xs)"

lemma keeps_refl: "keeps t t"
  by (simp add: keeps_def)

lemma keeps_trans: "keeps a b \<Longrightarrow> keeps b c \<Longrightarrow> keeps a c"
  by (auto simp: keeps_def)

lemma keeps_txn:
  "txn_snapshot txn = txn_snapshot (tn_txn t) \<Longrightarrow> \<exists>xs. txn_snapshots txn = txn_snapshots (tn_txn t) @ xs \<Longrightarrow>
     keeps t (t\<lparr>tn_txn := txn\<rparr>)"
  by (simp add: keeps_def)

lemma transfer_fields:
  "snd (transfer X T a b v t) = t\<lparr>tn_txn := tn_txn (snd (transfer X T a b v t))\<rparr>"
  "txn_snapshot (tn_txn (snd (transfer X T a b v t))) = txn_snapshot (tn_txn t)"
  "txn_snapshots (tn_txn (snd (transfer X T a b v t))) = txn_snapshots (tn_txn t)"
  by (auto simp: transfer_def Txn_SubBalance_def split: option.splits prod.splits if_splits)

text \<open>Reverting to a snapshot taken at the start brings its tree back.\<close>

definition take_snapshot :: "('t, 's) transition \<Rightarrow> ('t, 's) transition" where
  "take_snapshot t = t\<lparr>tn_txn := snd (Txn_Snapshot (tn_txn t))\<rparr>"

definition back_to :: "('t, 's) transition \<Rightarrow> ('t, 's) transition \<Rightarrow> ('t, 's) transition" where
  "back_to t t' = t'\<lparr>tn_txn := (tn_txn t')\<lparr>txn_txn := txn_txn (tn_txn t)\<rparr>\<rparr>"

lemma keeps_take_snapshot: "keeps t (take_snapshot t)"
  by (simp add: keeps_def take_snapshot_def Txn_Snapshot_def)

lemma revert_back:
  assumes "keeps (take_snapshot t) t'"
  shows "revert (length (txn_snapshots (tn_txn t))) t' = Ret (back_to t t')"
  using assms
  by (auto simp: keeps_def take_snapshot_def Txn_Snapshot_def revert_def Txn_RevertToSnapshot_def back_to_def)

text \<open>The state in which a contract starts to run, with the error of the transfer.\<close>

definition call_entry ::
    "ext \<Rightarrow> ('t, 's) trees \<Rightarrow> contract \<Rightarrow> call_type \<Rightarrow> ('t, 's) transition \<Rightarrow> vm_error option \<times> ('t, 's) transition" where
  "call_entry X T c callType t =
     (let s = take_snapshot t; t1 = s\<lparr>tn_txn := Txn_TouchAccount X T (ct_Address c) (tn_txn s)\<rparr>
      in if callType = Call then transfer X T (ct_Caller c) (ct_Address c) (ct_Value c) t1 else (None, t1))"

lemma applyCall_entry:
  "applyCall X T H c callType t =
     (if 1025 < ct_Depth c then Ret (mk_result [] (ct_Gas c) (Some ErrDepth), t)
      else case call_entry X T c callType t of (err, t1) \<Rightarrow>
        (case err of Some e \<Rightarrow> Ret (mk_result [] (ct_Gas c) (Some e), t1)
         | None \<Rightarrow> bnd (Transition_run X H c t1) (\<lambda>(r, t').
             if Failed r then bnd (revert (length (txn_snapshots (tn_txn t))) t') (\<lambda>t. Ret (r, t)) else Ret (r, t'))))"
  by (simp add: applyCall_def call_entry_def take_snapshot_def Txn_Snapshot_def Let_def)

definition create_nonce :: "ext \<Rightarrow> ('t, 's) trees \<Rightarrow> contract \<Rightarrow> ('t, 's) transition \<Rightarrow> ('t, 's) transition" where
  "create_nonce X T c t = t\<lparr>tn_txn := Txn_IncrNonce X T (ct_Caller c) (tn_txn t)\<rparr>"

definition create_entry ::
    "ext \<Rightarrow> ('t, 's) trees \<Rightarrow> contract \<Rightarrow> ('t, 's) transition \<Rightarrow> vm_error option \<times> ('t, 's) transition" where
  "create_entry X T c t =
     transfer X T (ct_Caller c) (ct_Address c) (ct_Value c)
       (create_account X T (ct_Address c) (take_snapshot (create_nonce X T c t)))"

lemma applyCreate_entry:
  "applyCreate X T H c t =
     (if 1025 < ct_Depth c then Ret (mk_result [] (ct_Gas c) (Some ErrDepth), t)
      else if hasCodeOrNonce X T (ct_Address c) (create_nonce X T c t)
      then Ret (mk_result [] 0 (Some ErrContractAddressCollision), create_nonce X T c t)
      else case create_entry X T c t of (err, t1) \<Rightarrow>
        (case err of Some e \<Rightarrow> Ret (mk_result [] (ct_Gas c) (Some e), t1)
         | None \<Rightarrow> bnd (Transition_run X H c t1) (\<lambda>(r, t'). finish_create X T c (length (txn_snapshots (tn_txn t))) r t')))"
  by (simp add: applyCreate_def create_entry_def create_nonce_def take_snapshot_def Txn_Snapshot_def Let_def)

section \<open>Relations kept by the state\<close>

locale world =
  fixes X :: ext and T :: "('t, 's) trees" and static :: bool
    and I :: "('t, 's) transition \<Rightarrow> bool" and R :: "('t, 's) transition \<Rightarrow> ('t, 's) transition \<Rightarrow> bool"
  assumes rel_refl: "R t t"
    and rel_trans: "R t t' \<Longrightarrow> R t' t'' \<Longrightarrow> R t t''"
    and rel_inv: "I t \<Longrightarrow> R t t' \<Longrightarrow> I t'"
    and rel_keeps: "R t t' \<Longrightarrow> keeps t t'"
    and inv_ctx: "I t \<Longrightarrow> ctx_ok (tn_ctx t)"
    and rel_snapshot: "I t \<Longrightarrow> R t (take_snapshot t)"
    and rel_back: "I t \<Longrightarrow> R t t' \<Longrightarrow> R t (back_to t t')"
    and rel_touch: "I t \<Longrightarrow> R t (t\<lparr>tn_txn := Txn_TouchAccount X T a (tn_txn t)\<rparr>)"
    and rel_transfer: "I t \<Longrightarrow> 0 \<le> v \<Longrightarrow> static \<longrightarrow> v = 0 \<Longrightarrow> R t (snd (transfer X T a b (Some v) t))"
    and rel_nonce: "I t \<Longrightarrow> \<not> static \<Longrightarrow> R t (t\<lparr>tn_txn := Txn_IncrNonce X T a (tn_txn t)\<rparr>)"
    and rel_create: "I t \<Longrightarrow> \<not> static \<Longrightarrow> R t (t\<lparr>tn_txn := Txn_CreateAccount X T a (tn_txn t)\<rparr>)"
    and rel_code: "I t \<Longrightarrow> \<not> static \<Longrightarrow> R t (t\<lparr>tn_txn := Txn_SetCode X T a cd (tn_txn t)\<rparr>)"
    and rel_log: "I t \<Longrightarrow> \<not> static \<Longrightarrow> R t (t\<lparr>tn_txn := Txn_EmitLog T a ts d (tn_txn t)\<rparr>)"
    and rel_storage: "I t \<Longrightarrow> \<not> static \<Longrightarrow> R t (snd (Transition_SetStorage X T t a key w f))"
    and rel_selfdestruct: "I t \<Longrightarrow> \<not> static \<Longrightarrow> R t (Transition_Selfdestruct X T t a b)"
begin

lemma rel_transfer_opt:
  assumes "I t" and "\<And>v. amount = Some v \<Longrightarrow> 0 \<le> v" and "static \<longrightarrow> amount = Some 0"
  shows "R t (snd (transfer X T a b amount t))"
proof (cases amount)
  case None
  then show ?thesis using rel_refl by (simp add: transfer_def)
next
  case (Some v)
  then show ?thesis using assms rel_transfer [of t v a b] by auto
qed

text \<open>The runtimes, given the virtual machine over the host below.\<close>

lemma run_rel:
  assumes "host_frame H static (ct_Depth c) I R" and "I t" and "value_ok c" and "static \<longrightarrow> ct_Static c"
  shows "post (Transition_run X H c t) (\<lambda>(r, t'). R t t')"
proof -
  have "post (run_runtimes X H rs c t) (\<lambda>(r, t'). R t t')" for rs
  proof (induction rs)
    case (Cons r rs)
    then show ?case
      using host_frame.EVM_Run_moved [OF assms refl, of X "tn_forks t"]
      by (cases r) (auto simp: rel_refl post_def [of "Precompiled_Run _ _ _"])
  qed (simp add: rel_refl)
  then show ?thesis by (simp add: Transition_run_def)
qed

lemma call_entry_rel:
  assumes "I t" and "value_ok c" and "callType = Call \<Longrightarrow> static \<Longrightarrow> ct_Value c = Some 0"
  shows "R (take_snapshot t) (snd (call_entry X T c callType t))" and "R t (snd (call_entry X T c callType t))"
    and "I (snd (call_entry X T c callType t))"
proof -
  let ?s = "take_snapshot t"
  let ?t = "?s\<lparr>tn_txn := Txn_TouchAccount X T (ct_Address c) (tn_txn ?s)\<rparr>"
  have s: "R t ?s" "I ?s" using rel_snapshot rel_inv assms(1) by blast+
  have tt: "R ?s ?t" "I ?t" using rel_touch [OF s(2)] rel_inv [OF s(2)] by blast+
  have u: "R ?t (snd (call_entry X T c callType t))"
    using rel_transfer_opt [OF tt(2), of "ct_Value c"] assms(2,3) rel_refl
    by (auto simp: call_entry_def Let_def value_ok_def)
  show r: "R ?s (snd (call_entry X T c callType t))" using rel_trans [OF tt(1) u] .
  show "R t (snd (call_entry X T c callType t))" using rel_trans [OF s(1) r] .
  show "I (snd (call_entry X T c callType t))" using rel_inv [OF tt(2) u] .
qed

lemma applyCall_rel:
  assumes H: "host_frame H static (ct_Depth c) I R" and "I t" and "value_ok c" and "static \<longrightarrow> ct_Static c"
    and "callType = Call \<Longrightarrow> static \<Longrightarrow> ct_Value c = Some 0"
  shows "post (applyCall X T H c callType t) (\<lambda>(r, t'). R t t')"
proof -
  let ?s = "take_snapshot t"
  obtain err t1 where eq: "call_entry X T c callType t = (err, t1)" by (cases "call_entry X T c callType t")
  have e: "R ?s t1" "R t t1" "I t1" using call_entry_rel [of t c callType] assms(2,3,5) eq by auto
  have run: "post (Transition_run X H c t1) (\<lambda>(r, t'). R ?s t')"
    by (rule post_mono [OF run_rel [OF H e(3) assms(3,4)]]) (auto intro: rel_trans [OF e(1)])
  have undo: "post (if Failed r then bnd (revert (length (txn_snapshots (tn_txn t))) t') (\<lambda>t. Ret (r, t)) else Ret (r, t'))
      (\<lambda>(r, t'). R t t')" if "R ?s t'" for r t'
    using revert_back [OF rel_keeps [OF that]] rel_trans [OF rel_snapshot [OF assms(2)] that] rel_back [OF assms(2)] by simp
  show ?thesis
    unfolding applyCall_entry eq using e(2) run rel_refl undo
    by (auto split: option.split elim!: post_mono)
qed

lemma create_account_rel: "I t \<Longrightarrow> \<not> static \<Longrightarrow> R t (create_account X T a t)"
  using rel_trans [OF rel_create rel_nonce [OF rel_inv [OF _ rel_create]]] rel_refl
  by (simp add: create_account_def Let_def)

text \<open>After the run, the state is the one before the creation or an accepted successor.\<close>

lemma finish_create_rel:
  assumes "I t" and "R (take_snapshot t) t'" and "\<not> static" and "s = length (txn_snapshots (tn_txn t))"
  shows "post (finish_create X T c s r t') (\<lambda>(r, t'). R t t')"
proof -
  have tt: "R t t'" using rel_trans [OF rel_snapshot [OF assms(1)] assms(2)] .
  have "R t (t'\<lparr>tn_txn := Txn_SetCode X T a cd (tn_txn t')\<rparr>)" for a cd
    using rel_trans [OF tt rel_code [OF rel_inv [OF assms(1) tt] assms(3)]] .
  then show ?thesis
    using tt revert_back [OF rel_keeps [OF assms(2)]] rel_back [OF assms(1) tt] assms(4)
    by (simp add: finish_create_def Let_def)
qed

lemma create_entry_rel:
  assumes "I t" and "value_ok c" and "\<not> static"
  shows "R t (create_nonce X T c t)" and "I (create_nonce X T c t)"
    and "R (take_snapshot (create_nonce X T c t)) (snd (create_entry X T c t))"
    and "R t (snd (create_entry X T c t))" and "I (snd (create_entry X T c t))"
proof -
  let ?n = "create_nonce X T c t"
  let ?t = "create_account X T (ct_Address c) (take_snapshot ?n)"
  show n: "R t ?n" using rel_nonce [OF assms(1,3)] by (simp add: create_nonce_def)
  show i: "I ?n" using rel_inv [OF assms(1) n] .
  have s: "R ?n (take_snapshot ?n)" "I (take_snapshot ?n)" using rel_snapshot [OF i] rel_inv [OF i] by blast+
  have tt: "R (take_snapshot ?n) ?t" "I ?t" using create_account_rel [OF s(2) assms(3)] rel_inv [OF s(2)] by blast+
  have u: "R ?t (snd (create_entry X T c t))"
    using rel_transfer_opt [OF tt(2), of "ct_Value c"] assms(2,3) by (auto simp: create_entry_def value_ok_def)
  show r: "R (take_snapshot ?n) (snd (create_entry X T c t))" using rel_trans [OF tt(1) u] .
  show "R t (snd (create_entry X T c t))" using rel_trans [OF n rel_trans [OF s(1) r]] .
  show "I (snd (create_entry X T c t))" using rel_inv [OF tt(2) u] .
qed

lemma applyCreate_rel:
  assumes H: "host_frame H static (ct_Depth c) I R" and "I t" and "value_ok c" and "\<not> static"
  shows "post (applyCreate X T H c t) (\<lambda>(r, t'). R t t')"
proof -
  let ?n = "create_nonce X T c t"
  obtain err t1 where eq: "create_entry X T c t = (err, t1)" by (cases "create_entry X T c t")
  note e = create_entry_rel [OF assms(2-4), simplified eq snd_conv]
  have run: "post (Transition_run X H c t1) (\<lambda>(r, t'). R (take_snapshot ?n) t')"
    by (rule post_mono [OF run_rel [OF H e(5) assms(3)]]) (use assms(4) in \<open>auto intro: rel_trans [OF e(3)]\<close>)
  have fin: "post (finish_create X T c (length (txn_snapshots (tn_txn t))) r t') (\<lambda>(r, t'). R t t')"
    if "R (take_snapshot ?n) t'" for r t'
    by (rule post_mono [OF finish_create_rel [OF e(2) that assms(4)]])
      (auto simp: create_nonce_def intro: rel_trans [OF e(1)])
  show ?thesis
    unfolding applyCreate_entry eq using run rel_refl fin e(1,4)
    by (auto split: option.split elim!: post_mono)
qed

lemma host_ofI:
  assumes "\<And>h k r h'. I h \<Longrightarrow> call_ok static depth k \<Longrightarrow> cx h k = Ret (r, h') \<Longrightarrow> R h h'"
  shows "host_frame (host_of X T cx) static depth I R"
proof (unfold_locales, goal_cases)
  case 1 show ?case by (rule rel_refl)
next
  case 2 then show ?case by (rule rel_trans)
next
  case 3 then show ?case by (rule rel_inv)
next
  case 4 show ?case by (simp add: host_of_def Txn_GetBalance_nonneg)
next
  case 5 then show ?case by (simp add: host_of_def inv_ctx)
next
  case 6 then show ?case by (simp add: host_of_def rel_storage)
next
  case 7 then show ?case by (simp add: host_of_def rel_selfdestruct)
next
  case 8 then show ?case by (simp add: host_of_def rel_log)
next
  case 9 then show ?case using assms by (simp add: host_of_def)
qed

theorem host_of_frame: "host_frame (host_of X T (callx_n X T d)) static depth I R"
proof (induction d arbitrary: depth)
  case 0
  show ?case by (rule host_ofI) simp
next
  case (Suc d)
  let ?H = "host_of X T (callx_n X T d)"
  have "R h h'" if "I h" "call_ok static depth k" "Transition_Callx X T ?H h k = Ret (r, h')" for h h' k r
  proof (cases "ct_Type k = Create")
    case True
    then show ?thesis
      using that postD [OF applyCreate_rel [OF Suc that(1), of k]] by (auto simp: Transition_Callx_def call_ok_def)
  next
    case False
    then show ?thesis
      using that postD [OF applyCall_rel [OF Suc that(1), of k "ct_Type k"]]
      by (auto simp: Transition_Callx_def call_ok_def)
  qed
  then show ?case by (intro host_ofI) simp
qed

end

section \<open>Gas of nested calls\<close>

lemma nofuel_revert [simp]: "\<not> nofuel (revert s t)"
  by (simp add: revert_def Txn_RevertToSnapshot_def)

lemma finish_create_gas:
  "post (finish_create X T c s r t) (\<lambda>(r', t'). res_GasLeft r' \<le> res_GasLeft r)" "\<not> nofuel (finish_create X T c s r t)"
  by (auto simp: finish_create_def Let_def post_def [of "revert _ _"] not_less word_sub_le_iff)

context world
begin

text \<open>With EIP-150 a contract gets back at most the gas it was given, and no model loop is cut short.\<close>

definition within :: "contract \<Rightarrow> (exec_result \<times> ('t, 's) transition) go \<Rightarrow> bool" where
  "within c m \<longleftrightarrow> post m (\<lambda>(r, t'). res_GasLeft r \<le> ct_Gas c) \<and> \<not> nofuel m"

lemma run_gas:
  assumes "host_gas H static (ct_Depth c) I R" and "I t" and "value_ok c" and "static \<longrightarrow> ct_Static c" and "EIP150 (tn_forks t)"
  shows "within c (Transition_run X H c t)"
proof -
  note e = host_gas.EVM_Run_spent [OF assms(1-4) refl assms(5), of X]
  have "within c (run_runtimes X H rs c t)" for rs
  proof (induction rs)
    case (Cons r rs)
    then show ?case
      using e post_mono [OF Precompiled_Run_gas [of X c "tn_forks t"]]
      by (cases r) (auto simp: within_def nofuel_def [of "EVM_Run _ _ _ _ _"])
  qed (simp add: within_def)
  then show ?thesis by (simp add: Transition_run_def)
qed

lemma applyCall_gas:
  assumes H: "ct_Depth c \<le> 1025 \<Longrightarrow> host_gas H static (ct_Depth c) I R"
    and "I t" and "value_ok c" and "static \<longrightarrow> ct_Static c" and "EIP150 (tn_forks t)"
    and "callType = Call \<Longrightarrow> static \<Longrightarrow> ct_Value c = Some 0"
  shows "within c (applyCall X T H c callType t)"
proof (cases "1025 < ct_Depth c")
  case True
  then show ?thesis by (simp add: applyCall_entry within_def)
next
  case False
  obtain err t1 where eq: "call_entry X T c callType t = (err, t1)" by (cases "call_entry X T c callType t")
  have e: "R t t1" "R t t1" "I t1" using call_entry_rel [of t c callType] assms(2,3,6) eq by auto
  have "EIP150 (tn_forks t1)" using rel_keeps [OF e(2)] assms(5) by (simp add: keeps_def)
  then have "within c (Transition_run X H c t1)"
    using run_gas [OF H e(3) assms(3,4)] False by simp
  then show ?thesis
    unfolding applyCall_entry eq
    by (auto simp: within_def post_def [of "revert _ _"] split: option.split elim!: post_mono)
qed

lemma applyCreate_gas:
  assumes H: "ct_Depth c \<le> 1025 \<Longrightarrow> host_gas H static (ct_Depth c) I R"
    and "I t" and "value_ok c" and "\<not> static" and "EIP150 (tn_forks t)"
  shows "within c (applyCreate X T H c t)"
proof (cases "1025 < ct_Depth c")
  case True
  then show ?thesis by (simp add: applyCreate_entry within_def)
next
  case False
  obtain err t1 where eq: "create_entry X T c t = (err, t1)" by (cases "create_entry X T c t")
  note e = create_entry_rel [OF assms(2-4), simplified eq snd_conv]
  have "EIP150 (tn_forks t1)" using rel_keeps [OF e(4)] assms(5) by (simp add: keeps_def)
  then have r: "within c (Transition_run X H c t1)"
    using run_gas [OF H e(5) assms(3)] False assms(4) by simp
  have fin: "post (finish_create X T c s r t') (\<lambda>(r, t'). res_GasLeft r \<le> ct_Gas c)" if "res_GasLeft r \<le> ct_Gas c" for s r t'
    by (rule post_mono [OF finish_create_gas(1)]) (use that in auto)
  show ?thesis
    unfolding applyCreate_entry eq
    using r fin by (auto simp: within_def finish_create_gas(2) split: option.split elim!: post_mono)
qed

theorem host_of_gas:
  assumes eip: "\<And>t. I t \<Longrightarrow> EIP150 (tn_forks t)"
  shows "1026 \<le> d + depth \<Longrightarrow> depth \<le> 1025 \<Longrightarrow> host_gas (host_of X T (callx_n X T d)) static depth I R"
proof (induction d arbitrary: depth)
  case (Suc d)
  let ?H = "host_of X T (callx_n X T d)"
  have w: "within k (Transition_Callx X T ?H h k)" if "I h" "call_ok static depth k" for h k
  proof -
    have H: "ct_Depth k \<le> 1025 \<Longrightarrow> host_gas ?H static (ct_Depth k) I R"
      using Suc that(2) by (simp add: call_ok_def)
    show ?thesis
    proof (cases "ct_Type k = Create")
      case True
      then show ?thesis
        using applyCreate_gas [OF H that(1) _ _ eip [OF that(1)]] that(2) by (auto simp: Transition_Callx_def call_ok_def)
    next
      case False
      then show ?thesis
        using applyCall_gas [OF H that(1) _ _ eip [OF that(1)], of "ct_Type k"] that(2)
        by (auto simp: Transition_Callx_def call_ok_def)
    qed
  qed
  show ?case
  proof (rule host_gas.intro [OF host_of_frame], unfold_locales, goal_cases)
    case 1
    then show ?case using postD [OF w [OF 1(1,2), unfolded within_def, THEN conjunct1]] by (auto simp: host_of_def)
  next
    case 2
    then show ?case using w [OF 2] by (auto simp: host_of_def within_def nofuel_def)
  qed
qed simp

end

section \<open>Conservation of the supply\<close>

lemma getStateObject_cong:
  "txn_txn txn' = txn_txn txn \<Longrightarrow> txn_snapshot txn' = txn_snapshot txn \<Longrightarrow>
     getStateObject T txn' a = getStateObject T txn a"
  by (simp add: getStateObject_def cong: option.case_cong)

lemma total_supply_tree:
  "txn_txn txn' = txn_txn txn \<Longrightarrow> txn_snapshot txn' = txn_snapshot txn \<Longrightarrow> total_supply T txn' = total_supply T txn"
  by (simp add: total_supply_def Txn_GetBalance_def getStateObject_cong [of txn' txn])

definition supply_inv :: "('t, 's) trees \<Rightarrow> ('t, 's) transition \<Rightarrow> bool" where
  "supply_inv T t \<longleftrightarrow> trees_ok T \<and> txn_ok T (tn_txn t) \<and> ctx_ok (tn_ctx t)"

definition supply_rel :: "('t, 's) trees \<Rightarrow> ('t, 's) transition \<Rightarrow> ('t, 's) transition \<Rightarrow> bool" where
  "supply_rel T t t' \<longleftrightarrow> keeps t t' \<and> total_supply T (tn_txn t') \<le> total_supply T (tn_txn t) \<and>
     (trees_ok T \<longrightarrow> txn_ok T (tn_txn t) \<longrightarrow> txn_ok T (tn_txn t'))"

lemma supply_relI:
  assumes "trees_ok T" and "txn_ok T txn" and "total_supply T txn \<le> total_supply T (tn_txn t)"
    and "txn_snapshot txn = txn_snapshot (tn_txn t)" and "txn_snapshots txn = txn_snapshots (tn_txn t)"
  shows "supply_rel T t (t\<lparr>tn_txn := txn\<rparr>)"
  using assms by (simp add: supply_rel_def keeps_def)

lemma total_supply_transfer:
  assumes "trees_ok T" and "0 \<le> v" and "txn_ok T (tn_txn t)"
  shows "total_supply T (tn_txn (snd (transfer X T a b (Some v) t))) = total_supply T (tn_txn t)"
    and "txn_ok T (tn_txn (snd (transfer X T a b (Some v) t)))"
proof -
  obtain err txn where eq: "Txn_SubBalance X T a v (tn_txn t) = (err, txn)" by (cases "Txn_SubBalance X T a v (tn_txn t)")
  have ok: "txn_ok T txn" using txn_ok_ops(2) [OF assms(1,3), of X a v] eq by simp
  show "total_supply T (tn_txn (snd (transfer X T a b (Some v) t))) = total_supply T (tn_txn t)"
  proof (cases err)
    case None
    then show ?thesis
      using eq supply_AddBalance [OF assms(1,2), of X b txn] supply_SubBalance [OF assms(1), of X a v "tn_txn t" txn]
      by (simp add: transfer_def)
  next
    case (Some e)
    then show ?thesis using eq by (auto simp: transfer_def Txn_SubBalance_def split: if_splits)
  qed
  show "txn_ok T (tn_txn (snd (transfer X T a b (Some v) t)))"
    using ok txn_ok_ops(1) [OF assms(1) ok] by (simp add: transfer_def eq split: option.split)
qed

lemma supply_selfdestruct:
  assumes "trees_ok T" and "txn_ok T (tn_txn t)"
  shows "supply_rel T t (Transition_Selfdestruct X T t a b)"
proof -
  let ?x = "if \<not> Txn_HasSuicided T (tn_txn t) a then Txn_AddRefund T 24000 (tn_txn t) else tn_txn t"
  let ?v = "Txn_GetBalance T ?x a"
  have x: "txn_ok T ?x" "total_supply T ?x = total_supply T (tn_txn t)"
    "txn_snapshot ?x = txn_snapshot (tn_txn t)" "txn_snapshots ?x = txn_snapshots (tn_txn t)"
    using assms by (simp_all add: txn_ok_aux supply_same)
  let ?y = "Txn_AddBalance X T b ?v ?x"
  have v: "0 \<le> ?v" by (rule Txn_GetBalance_nonneg)
  have "?v \<le> Txn_GetBalance T ?y a" using v by (auto simp: balance_ops(1) [OF assms(1)])
  then have "total_supply T (Txn_Suicide X T a ?y) \<le> total_supply T (tn_txn t)"
    using supply_AddBalance [OF assms(1) v, of X b ?x] x(2) supply_Suicide [OF assms(1), of X a ?y] by linarith
  moreover have "txn_ok T (Txn_Suicide X T a ?y)" using txn_ok_ops(8) [OF assms(1) txn_ok_ops(1) [OF assms(1) x(1)]] .
  ultimately show ?thesis
    unfolding Transition_Selfdestruct_def Let_def by (intro supply_relI) (use assms x in simp_all)
qed

interpretation conserved: world X T False "supply_inv T" "supply_rel T"
  for X and T :: "('t, 's) trees"
proof (unfold_locales, goal_cases)
  case 1 show ?case by (simp add: supply_rel_def keeps_refl)
next
  case 2 then show ?case by (auto simp: supply_rel_def intro: keeps_trans)
next
  case 3 then show ?case by (simp add: supply_inv_def supply_rel_def keeps_def)
next
  case 4 then show ?case by (simp add: supply_rel_def)
next
  case 5 then show ?case by (simp add: supply_inv_def)
next
  case (6 t)
  have "total_supply T (snd (Txn_Snapshot (tn_txn t))) = total_supply T (tn_txn t)"
    by (rule total_supply_tree) (simp_all add: Txn_Snapshot_def)
  with 6 show ?case
    by (auto simp: supply_rel_def supply_inv_def keeps_take_snapshot) (simp_all add: take_snapshot_def txn_ok_aux)
next
  case (7 t t')
  have k: "keeps t t'" using 7 by (simp add: supply_rel_def)
  have "total_supply T (tn_txn (back_to t t')) = total_supply T (tn_txn t)"
    by (rule total_supply_tree) (use k in \<open>simp_all add: back_to_def keeps_def\<close>)
  moreover have "txn_ok T (tn_txn (back_to t t'))"
    using 7 by (auto simp: supply_inv_def supply_rel_def back_to_def txn_ok_def)
  ultimately show ?case using k by (simp add: supply_rel_def) (simp add: back_to_def keeps_def)
next
  case 8 then show ?case by (intro supply_relI) (simp_all add: supply_inv_def supply_same txn_ok_ops)
next
  case (9 t v a b)
  then have s: "trees_ok T" "txn_ok T (tn_txn t)" by (simp_all add: supply_inv_def)
  note x = total_supply_transfer [OF s(1) 9(2) s(2)] and y = transfer_fields
  show ?case
    by (subst y(1), rule supply_relI) (use s x y in \<open>simp_all\<close>)
next
  case 10 then show ?case by (intro supply_relI) (simp_all add: supply_inv_def supply_same txn_ok_ops)
next
  case 11 then show ?case by (intro supply_relI) (simp_all add: supply_inv_def supply_same txn_ok_aux)
next
  case 12 then show ?case by (intro supply_relI) (simp_all add: supply_inv_def supply_same txn_ok_ops)
next
  case 13 then show ?case by (intro supply_relI) (simp_all add: supply_inv_def supply_same txn_ok_aux)
next
  case 14 then show ?case
    by (auto simp: Transition_SetStorage_def case_prod_beta supply_inv_def supply_same txn_ok_SetStorage intro!: supply_relI)
next
  case 15 then show ?case by (simp add: supply_inv_def supply_selfdestruct)
qed

end
