(* ===== verification/Transition_Tx.thy ===== *)
theory Transition_Tx
  imports Transition_Host
begin

text \<open>
  Whole transactions: what \<open>preCheck\<close>, the execution and \<open>settle\<close> do to balances and gas, and the
  properties of \<open>applyImpl\<close> and \<open>Write\<close>. The execution is the virtual machine over the transition as
  host, through the interpretations of \<open>host_frame\<close> and \<open>host_gas\<close> on \<open>Transition_host\<close>.
\<close>

section \<open>The transition as host\<close>

definition gas_inv :: "('t, 's) trees \<Rightarrow> ('t, 's) transition \<Rightarrow> bool" where
  "gas_inv T t \<longleftrightarrow> supply_inv T t \<and> EIP150 (tn_forks t)"

interpretation metered: world X T False "gas_inv T" "supply_rel T"
  for X and T :: "('t, 's) trees"
proof (unfold_locales, goal_cases)
  case 1 show ?case by (rule conserved.rel_refl)
next
  case 2 then show ?case by (rule conserved.rel_trans)
next
  case (3 t t') then show ?case
    using conserved.rel_inv [of T t t'] by (simp add: gas_inv_def supply_rel_def keeps_def)
next
  case 4 then show ?case by (rule conserved.rel_keeps)
next
  case 5 then show ?case by (simp add: gas_inv_def supply_inv_def)
next
  case 6 then show ?case by (simp add: gas_inv_def conserved.rel_snapshot)
next
  case 7 then show ?case by (simp add: gas_inv_def conserved.rel_back)
next
  case 8 then show ?case by (simp add: gas_inv_def conserved.rel_touch)
next
  case 9 then show ?case by (simp add: gas_inv_def conserved.rel_transfer)
next
  case 10 then show ?case by (simp add: gas_inv_def conserved.rel_nonce)
next
  case 11 then show ?case by (simp add: gas_inv_def conserved.rel_create)
next
  case 12 then show ?case by (simp add: gas_inv_def conserved.rel_code)
next
  case 13 then show ?case by (simp add: gas_inv_def conserved.rel_log)
next
  case 14 then show ?case by (simp add: gas_inv_def conserved.rel_storage)
next
  case 15 then show ?case by (simp add: gas_inv_def conserved.rel_selfdestruct)
qed

interpretation conserving: host_frame "Transition_host X T" False depth "supply_inv T" "supply_rel T"
  for X and T :: "('t, 's) trees" and depth
  unfolding Transition_host_def by (rule conserved.host_of_frame)

interpretation metering: host_gas "Transition_host X T" False 1 "gas_inv T" "supply_rel T"
  for X and T :: "('t, 's) trees"
  unfolding Transition_host_def
  by (rule metered.host_of_gas) (simp_all add: gas_inv_def call_fuel_def)

section \<open>The top-level call\<close>

text \<open>What the execution of a transaction promises, given the gas it starts with.\<close>

definition executed :: "('t, 's) trees \<Rightarrow> u64 \<Rightarrow> ('t, 's) transition \<Rightarrow> (exec_result \<times> ('t, 's) transition) go \<Rightarrow> bool" where
  "executed T g t m \<longleftrightarrow> \<not> nofuel m \<and> post m (\<lambda>(r, t'). res_GasLeft r \<le> g \<and> supply_rel T t t')"

lemma Transition_Call_executed:
  assumes "gas_inv T t" and "0 \<le> v"
  shows "executed T g t (Transition_Call X T caller to input v g t)"
proof -
  let ?c = "NewContractCall 1 caller caller to (Some v) g (Txn_GetCode T (tn_txn t) to) input"
  have c: "ct_Depth ?c = 1" "value_ok ?c" "ct_Gas ?c = g"
    using assms(2) by (simp_all add: NewContractCall_def NewContract_def value_ok_def)
  have f: "host_frame (Transition_host X T) False (ct_Depth ?c) (gas_inv T) (supply_rel T)"
    unfolding Transition_host_def by (rule metered.host_of_frame)
  have h: "host_gas (Transition_host X T) False (ct_Depth ?c) (gas_inv T) (supply_rel T)"
    using metering.host_gas_axioms c(1) by simp
  have "metered.within ?c (applyCall X T (Transition_host X T) ?c Call t)"
    using metered.applyCall_gas [OF h assms(1) c(2)] assms(1) by (simp add: gas_inv_def)
  moreover have "post (applyCall X T (Transition_host X T) ?c Call t) (\<lambda>(r, t'). supply_rel T t t')"
    using metered.applyCall_rel [OF f assms(1) c(2)] by simp
  ultimately show ?thesis
    unfolding executed_def Transition_Call_def Let_def metered.within_def
    using c(3) by (auto simp: post_def)
qed

lemma Transition_Create_executed:
  assumes "gas_inv T t" and "0 \<le> v"
  shows "executed T g t (Transition_Create X T caller cd v g t)"
proof -
  let ?a = "CreateAddress X caller (Txn_GetNonce T (tn_txn t) caller)"
  let ?c = "NewContractCreation 1 caller caller ?a (Some v) g cd"
  have c: "ct_Depth ?c = 1" "value_ok ?c" "ct_Gas ?c = g"
    using assms(2) by (simp_all add: NewContractCreation_def NewContract_def value_ok_def)
  have f: "host_frame (Transition_host X T) False (ct_Depth ?c) (gas_inv T) (supply_rel T)"
    unfolding Transition_host_def by (rule metered.host_of_frame)
  have h: "host_gas (Transition_host X T) False (ct_Depth ?c) (gas_inv T) (supply_rel T)"
    using metering.host_gas_axioms c(1) by simp
  have "metered.within ?c (applyCreate X T (Transition_host X T) ?c t)"
    using metered.applyCreate_gas [OF h assms(1) c(2)] assms(1) by (simp add: gas_inv_def)
  moreover have "post (applyCreate X T (Transition_host X T) ?c t) (\<lambda>(r, t'). supply_rel T t t')"
    using metered.applyCreate_rel [OF f assms(1) c(2)] by simp
  ultimately show ?thesis
    unfolding executed_def Transition_Create_def Let_def metered.within_def
    using c(3) by (auto simp: post_def bnd_eq_Ret)
qed

section \<open>Prechecks and settlement\<close>

lemma preCheck_ok:
  assumes "preCheck X T msg t = (Inr g, t')" and "trees_ok T"
  shows "g \<le> msg_Gas msg" and "tn_gasPool t' = tn_gasPool t - msg_Gas msg" and "msg_Gas msg \<le> tn_gasPool t"
    and "total_supply T (tn_txn t') = total_supply T (tn_txn t) - msg_GasPrice msg * uint (msg_Gas msg)"
    and "txn_ok T (tn_txn t) \<Longrightarrow> txn_ok T (tn_txn t')" and "msg_Value msg \<le> Txn_GetBalance T (tn_txn t') (msg_From msg)"
    and "t' = t\<lparr>tn_txn := tn_txn t', tn_gasPool := tn_gasPool t'\<rparr>"
    and "txn_snapshot (tn_txn t') = txn_snapshot (tn_txn t)" "txn_snapshots (tn_txn t') = txn_snapshots (tn_txn t)"
    and "TransactionGasCost msg (Homestead (tn_forks t)) (Istanbul (tn_forks t)) = Inr (msg_Gas msg - g)"
    and "Txn_GetNonce T (tn_txn t) (msg_From msg) = msg_Nonce msg"
proof -
  let ?fee = "msg_GasPrice msg * uint (msg_Gas msg)"
  obtain err txn where sb: "Txn_SubBalance X T (msg_From msg) ?fee (tn_txn t) = (err, txn)"
    by (cases "Txn_SubBalance X T (msg_From msg) ?fee (tn_txn t)")
  note d = preCheck_def nonceCheck_def subGasLimitPrice_def subGasPool_def
  have err: "err = None" using assms(1) sb by (auto simp: d Let_def split: if_splits option.splits)
  note p = assms(1) [unfolded d Let_def sb err prod.case option.case]
  have fields: "txn_snapshot txn = txn_snapshot (tn_txn t)" "txn_snapshots txn = txn_snapshots (tn_txn t)"
    using txn_fields(21,22) [of X T "msg_From msg" ?fee "tn_txn t"] sb by simp_all
  have ok: "txn_ok T (tn_txn t) \<Longrightarrow> txn_ok T txn" using txn_ok_ops(2) [OF assms(2), of "tn_txn t" X "msg_From msg" ?fee] sb by simp
  have t': "t' = t\<lparr>tn_txn := txn, tn_gasPool := tn_gasPool t - msg_Gas msg\<rparr>" and pool: "\<not> tn_gasPool t < msg_Gas msg"
    and g: "\<not> msg_Gas msg < g" and v: "\<not> Txn_GetBalance T txn (msg_From msg) < msg_Value msg"
    and cost: "TransactionGasCost msg (Homestead (tn_forks t)) (Istanbul (tn_forks t)) = Inr (msg_Gas msg - g)"
    and nonce: "Txn_GetNonce T (tn_txn t) (msg_From msg) = msg_Nonce msg"
    using p by (auto split: if_splits sum.splits)
  show "g \<le> msg_Gas msg" "tn_gasPool t' = tn_gasPool t - msg_Gas msg" "msg_Gas msg \<le> tn_gasPool t"
    "txn_ok T (tn_txn t) \<Longrightarrow> txn_ok T (tn_txn t')" "msg_Value msg \<le> Txn_GetBalance T (tn_txn t') (msg_From msg)"
    "t' = t\<lparr>tn_txn := tn_txn t', tn_gasPool := tn_gasPool t'\<rparr>"
    "txn_snapshot (tn_txn t') = txn_snapshot (tn_txn t)" "txn_snapshots (tn_txn t') = txn_snapshots (tn_txn t)"
    "TransactionGasCost msg (Homestead (tn_forks t)) (Istanbul (tn_forks t)) = Inr (msg_Gas msg - g)"
    "Txn_GetNonce T (tn_txn t) (msg_From msg) = msg_Nonce msg"
    using t' pool g v cost nonce fields ok by (simp_all add: not_less)
  show "total_supply T (tn_txn t') = total_supply T (tn_txn t) - ?fee"
    using t' supply_SubBalance [OF assms(2), of X "msg_From msg" ?fee "tn_txn t" txn] sb err by simp
qed

text \<open>A transaction that fails its checks has only touched the transient state and the gas pool.\<close>

lemma preCheck_fields:
  assumes "preCheck X T msg t = (r, t')"
  shows "t' = t\<lparr>tn_txn := tn_txn t', tn_gasPool := tn_gasPool t'\<rparr>"
    and "txn_snapshot (tn_txn t') = txn_snapshot (tn_txn t)" "txn_snapshots (tn_txn t') = txn_snapshots (tn_txn t)"
proof -
  have "txn_snapshot txn = txn_snapshot (tn_txn t)" "txn_snapshots txn = txn_snapshots (tn_txn t)"
    if "Txn_SubBalance X T a v (tn_txn t) = (err, txn)" for a v err txn
    using txn_fields(21,22) [of X T a v "tn_txn t"] that by simp_all
  with assms show "t' = t\<lparr>tn_txn := tn_txn t', tn_gasPool := tn_gasPool t'\<rparr>"
    and "txn_snapshot (tn_txn t') = txn_snapshot (tn_txn t)" "txn_snapshots (tn_txn t') = txn_snapshots (tn_txn t)"
    by (auto simp: preCheck_def nonceCheck_def subGasLimitPrice_def subGasPool_def Let_def
        split: if_splits option.splits sum.splits prod.splits)
qed

lemma preCheck_pool: "preCheck X T msg t = (r, t') \<Longrightarrow> tn_gasPool t' \<le> tn_gasPool t"
  by (auto simp: preCheck_def nonceCheck_def subGasLimitPrice_def subGasPool_def Let_def not_less word_sub_le_iff
      split: if_splits option.splits sum.splits prod.splits)

text \<open>Gas and fees after the execution.\<close>

lemma settle_gas:
  assumes "settle X T msg r t = (r', t')" and "res_GasLeft r \<le> msg_Gas msg"
  shows "unat (res_GasLeft r') + unat (res_GasUsed r') = unat (msg_Gas msg)"
    and "unat (res_GasUsed r') = unat (msg_Gas msg - res_GasLeft r) -
      min (unat (Txn_GetRefund T (tn_txn t))) (unat (msg_Gas msg - res_GasLeft r) div 2)"
    and "res_GasLeft r \<le> res_GasLeft r'" and "tn_gasPool t' = tn_gasPool t + res_GasLeft r'"
    and "res_Err r' = res_Err r" and "res_ReturnValue r' = res_ReturnValue r"
proof -
  let ?used = "msg_Gas msg - res_GasLeft r" and ?f = "Txn_GetRefund T (tn_txn t)"
  let ?ref = "if ?used div 2 < ?f then ?used div 2 else ?f"
  have r': "res_GasLeft r' = res_GasLeft r + ?ref" "res_GasUsed r' = ?used - ?ref" "tn_gasPool t' = tn_gasPool t + res_GasLeft r'"
    "res_Err r' = res_Err r" "res_ReturnValue r' = res_ReturnValue r"
    using assms(1) by (auto simp: settle_def Let_def addGasPool_def)
  have ref: "unat ?ref = min (unat ?f) (unat ?used div 2)"
    by (auto simp: word_less_nat_alt unat_div)
  have used: "unat ?used = unat (msg_Gas msg) - unat (res_GasLeft r)" "unat (res_GasLeft r) \<le> unat (msg_Gas msg)"
    using assms(2) by (simp_all add: unat_u64_sub word_le_nat_alt)
  have le: "unat ?ref \<le> unat ?used div 2" using ref by simp
  then have "?ref \<le> ?used" by (simp add: word_le_nat_alt)
  then have u: "unat (?used - ?ref) = unat ?used - unat ?ref" by (simp add: unat_u64_sub)
  have "unat (res_GasLeft r) + unat ?ref < 2 ^ 64"
    using le used unat_u64_less [of "msg_Gas msg"] by linarith
  then have s: "unat (res_GasLeft r + ?ref) = unat (res_GasLeft r) + unat ?ref" by (simp add: unat_word_ariths)
  show "unat (res_GasLeft r') + unat (res_GasUsed r') = unat (msg_Gas msg)"
    unfolding r' s u using le used by linarith
  show "unat (res_GasUsed r') = unat ?used - min (unat ?f) (unat ?used div 2)"
    unfolding r' u ref ..
  show "res_GasLeft r \<le> res_GasLeft r'" unfolding r' by (simp add: word_le_nat_alt s)
qed (use assms in \<open>auto simp: settle_def Let_def addGasPool_def\<close>)

lemma settle_supply:
  assumes "settle X T msg r t = (r', t')" and "res_GasLeft r \<le> msg_Gas msg" and "trees_ok T" and "0 \<le> msg_GasPrice msg"
  shows "total_supply T (tn_txn t') = total_supply T (tn_txn t) + msg_GasPrice msg * uint (msg_Gas msg)"
proof -
  let ?a = "uint (res_GasLeft r') * msg_GasPrice msg" and ?b = "uint (res_GasUsed r') * msg_GasPrice msg"
  have t': "tn_txn t' = Txn_AddBalance X T (tx_Coinbase (tn_ctx t)) ?b (Txn_AddBalance X T (msg_From msg) ?a (tn_txn t))"
    using assms(1) by (auto simp: settle_def Let_def addGasPool_def)
  have "int (unat (res_GasLeft r') + unat (res_GasUsed r')) = int (unat (msg_Gas msg))"
    using settle_gas(1) [OF assms(1,2)] by (rule arg_cong)
  then have sum: "uint (res_GasLeft r') + uint (res_GasUsed r') = uint (msg_Gas msg)" by simp
  have "0 \<le> ?a" "0 \<le> ?b" using assms(4) by simp_all
  then have "total_supply T (tn_txn t') = total_supply T (tn_txn t) + ?a + ?b"
    unfolding t' by (simp add: supply_AddBalance [OF assms(3)])
  then show ?thesis unfolding sum [symmetric] by (simp add: algebra_simps)
qed

section \<open>Transactions\<close>

text \<open>Hypotheses on a transaction and on the block it runs in.\<close>

definition msg_ok :: "Transaction \<Rightarrow> bool" where
  "msg_ok msg \<longleftrightarrow> 0 \<le> msg_GasPrice msg \<and> 0 \<le> msg_Value msg"

definition execute ::
    "ext \<Rightarrow> ('t, 's) trees \<Rightarrow> Transaction \<Rightarrow> u64 \<Rightarrow> ('t, 's) transition \<Rightarrow> (exec_result \<times> ('t, 's) transition) go" where
  "execute X T msg g t =
     (case msg_To msg of
        None \<Rightarrow> Transition_Create X T (msg_From msg) (msg_Input msg) (msg_Value msg) g t
      | Some to \<Rightarrow> Transition_Call X T (msg_From msg) to (msg_Input msg) (msg_Value msg) g
          (t\<lparr>tn_txn := Txn_IncrNonce X T (msg_From msg) (tn_txn t)\<rparr>))"

definition with_msg :: "Transaction \<Rightarrow> ('t, 's) transition \<Rightarrow> ('t, 's) transition" where
  "with_msg msg t =
     t\<lparr>tn_ctx := (tn_ctx t)\<lparr>tx_GasPrice := BytesToHash (big_Bytes (msg_GasPrice msg)), tx_Origin := msg_From msg\<rparr>\<rparr>"

lemma apply_msg_eq:
  "apply_msg X T msg t =
     (case preCheck X T msg t of
        (Inl err, t) \<Rightarrow> Ret (Inl err, t)
      | (Inr g, t) \<Rightarrow> bnd (execute X T msg g (with_msg msg t)) (\<lambda>(r, t).
          case settle X T msg r t of (r, t) \<Rightarrow> Ret (Inr r, t)))"
  by (simp only: apply_msg_def execute_def with_msg_def Let_def)

lemma execute_executed:
  assumes "gas_inv T t" and "msg_ok msg"
  shows "executed T g t (execute X T msg g t)"
proof (cases "msg_To msg")
  case None
  then show ?thesis using Transition_Create_executed [OF assms(1)] assms(2) by (simp add: execute_def msg_ok_def)
next
  case (Some to)
  let ?n = "t\<lparr>tn_txn := Txn_IncrNonce X T (msg_From msg) (tn_txn t)\<rparr>"
  have n: "supply_rel T t ?n" using metered.rel_nonce [OF assms(1)] by simp
  have "executed T g ?n (Transition_Call X T (msg_From msg) to (msg_Input msg) (msg_Value msg) g ?n)"
    using Transition_Call_executed [OF metered.rel_inv [OF assms(1) n]] assms(2) by (simp add: msg_ok_def)
  then show ?thesis
    unfolding execute_def Some option.case executed_def
    by (auto elim!: post_mono intro: metered.rel_trans [OF n])
qed

lemma settle_fields:
  assumes "settle X T msg r t = (r', t')"
  shows "t' = t\<lparr>tn_txn := tn_txn t', tn_gasPool := tn_gasPool t'\<rparr>"
    and "txn_snapshot (tn_txn t') = txn_snapshot (tn_txn t)" "txn_snapshots (tn_txn t') = txn_snapshots (tn_txn t)"
    and "trees_ok T \<Longrightarrow> txn_ok T (tn_txn t) \<Longrightarrow> txn_ok T (tn_txn t')"
  using assms by (auto simp: settle_def Let_def addGasPool_def txn_ok_ops)

text \<open>What a transaction that was executed has done.\<close>

definition settled :: "('t, 's) trees \<Rightarrow> Transaction \<Rightarrow> ('t, 's) transition \<Rightarrow> exec_result \<Rightarrow> ('t, 's) transition \<Rightarrow> bool" where
  "settled T msg t r t' \<longleftrightarrow> total_supply T (tn_txn t') \<le> total_supply T (tn_txn t) \<and> txn_ok T (tn_txn t') \<and>
     unat (res_GasUsed r) + unat (res_GasLeft r) = unat (msg_Gas msg) \<and> msg_Gas msg \<le> tn_gasPool t \<and>
     tn_gasPool t' = tn_gasPool t - res_GasUsed r \<and>
     (\<exists>cost. TransactionGasCost msg (Homestead (tn_forks t)) (Istanbul (tn_forks t)) = Inr cost \<and>
        cost \<le> msg_Gas msg \<and> unat cost \<le> 2 * unat (res_GasUsed r))"

definition same_block :: "('t, 's) transition \<Rightarrow> ('t, 's) transition \<Rightarrow> bool" where
  "same_block t t' \<longleftrightarrow> keeps t (t'\<lparr>tn_ctx := tn_ctx t, tn_gasPool := tn_gasPool t\<rparr>) \<and> (ctx_ok (tn_ctx t) \<longrightarrow> ctx_ok (tn_ctx t'))"

lemma execute_settled:
  assumes inv: "gas_inv T t" and "msg_ok msg" and pc: "preCheck X T msg t = (Inr g, t1)"
    and ex: "execute X T msg g (with_msg msg t1) = Ret (r, t3)" and st: "settle X T msg r t3 = (r', t4)"
  shows "settled T msg t r' t4" and "same_block t t4"
proof -
  have T: "trees_ok T" and ok: "txn_ok T (tn_txn t)" and cx: "ctx_ok (tn_ctx t)" and eip: "EIP150 (tn_forks t)"
    using inv by (simp_all add: gas_inv_def supply_inv_def)
  note p = preCheck_ok [OF pc T] and s = settle_fields [OF st]
  have t1: "tn_ctx t1 = tn_ctx t" "tn_forks t1 = tn_forks t" "tn_runtimes t1 = tn_runtimes t" "tn_getHash t1 = tn_getHash t"
    "tn_totalGas t1 = tn_totalGas t"
    by (subst p(7), simp)+
  have t4: "tn_ctx t4 = tn_ctx t3" "tn_forks t4 = tn_forks t3" "tn_runtimes t4 = tn_runtimes t3" "tn_getHash t4 = tn_getHash t3"
    "tn_totalGas t4 = tn_totalGas t3"
    by (subst s(1), simp)+
  let ?t2 = "with_msg msg t1"
  have "gas_inv T ?t2" using p(5) [OF ok] cx T eip t1 by (simp add: gas_inv_def supply_inv_def with_msg_def ctx_ok_def)
  from execute_executed [OF this assms(2), of g X] ex
  have g: "res_GasLeft r \<le> g" and rel: "supply_rel T ?t2 t3" by (simp_all add: executed_def)
  have le: "res_GasLeft r \<le> msg_Gas msg" using g p(1) by (rule order.trans)
  have ok3: "txn_ok T (tn_txn t3)" using rel T p(5) [OF ok] by (simp add: supply_rel_def with_msg_def)
  have sum: "unat (res_GasLeft r') + unat (res_GasUsed r') = unat (msg_Gas msg)" using settle_gas(1) [OF st le] .
  then have "of_nat (unat (res_GasLeft r') + unat (res_GasUsed r')) = (of_nat (unat (msg_Gas msg)) :: u64)" by (rule arg_cong)
  then have w: "msg_Gas msg = res_GasLeft r' + res_GasUsed r'" by simp
  have "tn_gasPool t3 = tn_gasPool t - msg_Gas msg"
    using rel p(2) by (simp add: supply_rel_def keeps_def with_msg_def)
  then have pool: "tn_gasPool t4 = tn_gasPool t - res_GasUsed r'" using settle_gas(4) [OF st le] w by simp
  have "total_supply T (tn_txn t3) \<le> total_supply T (tn_txn t1)"
    using rel by (simp add: supply_rel_def with_msg_def)
  then have "total_supply T (tn_txn t4) \<le> total_supply T (tn_txn t)"
    using settle_supply [OF st le T] p(4) assms(2) by (simp add: msg_ok_def)
  moreover have "unat (msg_Gas msg - g) \<le> 2 * unat (res_GasUsed r')"
    using settle_gas(2) [OF st le] g p(1) le by (simp add: unat_u64_sub word_le_nat_alt)
  moreover have "msg_Gas msg - g \<le> msg_Gas msg" using p(1) by (simp add: word_le_nat_alt unat_u64_sub)
  ultimately show "settled T msg t r' t4"
    using s(4) [OF T ok3] sum pool p(3,10) by (simp add: settled_def)
  show "same_block t t4"
    using rel s(2,3) t1 t4 p(8,9) by (auto simp: same_block_def supply_rel_def keeps_def with_msg_def ctx_ok_def)
qed

lemma apply_msg_nofuel:
  assumes "gas_inv T t" and "msg_ok msg"
  shows "\<not> nofuel (apply_msg X T msg t)"
proof -
  obtain pr t1 where pc: "preCheck X T msg t = (pr, t1)" by (cases "preCheck X T msg t")
  show ?thesis
  proof (cases pr)
    case (Inl e)
    then show ?thesis by (simp add: apply_msg_eq pc)
  next
    case (Inr g)
    have T: "trees_ok T" using assms(1) by (simp add: gas_inv_def supply_inv_def)
    note p = preCheck_ok [OF pc [unfolded Inr] T]
    have "tn_ctx t1 = tn_ctx t" "tn_forks t1 = tn_forks t" by (subst p(7), simp)+
    then have "gas_inv T (with_msg msg t1)"
      using p(5) assms(1) by (simp add: gas_inv_def supply_inv_def with_msg_def ctx_ok_def)
    from execute_executed [OF this assms(2), of g X] show ?thesis
      by (auto simp: apply_msg_eq pc Inr executed_def split: prod.splits)
  qed
qed

text \<open>A transaction with an error leaves the transient state as it was; only the gas pool may have shrunk.\<close>

lemma applyImpl_cases:
  assumes inv: "gas_inv T t" and ok: "msg_ok msg" and r: "applyImpl X T msg t = Ret (r, t')"
  shows "same_block t t'" and "case r of
      Inl e \<Rightarrow> txn_txn (tn_txn t') = txn_txn (tn_txn t) \<and> tn_ctx t' = tn_ctx t \<and> txn_ok T (tn_txn t') \<and> tn_gasPool t' \<le> tn_gasPool t
    | Inr res \<Rightarrow> settled T msg t res t'"
proof -
  let ?s = "take_snapshot t"
  have inv': "gas_inv T ?s" using metered.rel_inv [OF inv metered.rel_snapshot [OF inv]] .
  have sn: "total_supply T (tn_txn ?s) = total_supply T (tn_txn t)" "tn_gasPool ?s = tn_gasPool t" "tn_ctx ?s = tn_ctx t"
      "tn_forks ?s = tn_forks t"
    by (auto simp: take_snapshot_def Txn_Snapshot_def intro!: total_supply_tree)
  obtain pr t1 where pc: "preCheck X T msg ?s = (pr, t1)" by (cases "preCheck X T msg ?s")
  note pf = preCheck_fields [OF pc]
  have eq: "applyImpl X T msg t = bnd (apply_msg X T msg ?s) (\<lambda>(r, t').
      case r of Inl err \<Rightarrow> bnd (revert (length (txn_snapshots (tn_txn t))) t') (\<lambda>t. Ret (Inl err, t))
      | Inr result \<Rightarrow> Ret (Inr result, t'))"
    by (simp add: applyImpl_def take_snapshot_def Txn_Snapshot_def)
  have blk: "same_block t t2" if "same_block ?s t2" for t2
    using that by (auto simp: same_block_def keeps_def take_snapshot_def Txn_Snapshot_def)
  have "same_block t t' \<and> (case r of
      Inl e \<Rightarrow> txn_txn (tn_txn t') = txn_txn (tn_txn t) \<and> tn_ctx t' = tn_ctx t \<and> txn_ok T (tn_txn t') \<and> tn_gasPool t' \<le> tn_gasPool t | Inr res \<Rightarrow> settled T msg t res t')"
  proof (cases pr)
    case (Inl e)
    have "txn_snapshots (tn_txn t1) = txn_snapshots (tn_txn t) @ [txn_txn (tn_txn t)]"
      "txn_snapshot (tn_txn t1) = txn_snapshot (tn_txn t)"
      using pf(2,3) by (simp_all add: take_snapshot_def Txn_Snapshot_def)
    moreover have "tn_ctx t1 = tn_ctx t" "tn_forks t1 = tn_forks t" "tn_runtimes t1 = tn_runtimes t" "tn_getHash t1 = tn_getHash t"
      "tn_totalGas t1 = tn_totalGas t"
      by (subst pf(1), simp add: take_snapshot_def)+
    moreover have "tn_gasPool t1 \<le> tn_gasPool t" using preCheck_pool [OF pc] by (simp add: take_snapshot_def)
    moreover have "txn_ok T (tn_txn t)" using inv by (simp add: gas_inv_def supply_inv_def)
    ultimately show ?thesis
      using r unfolding eq apply_msg_eq pc Inl
      by (auto simp: revert_def Txn_RevertToSnapshot_def same_block_def keeps_def txn_ok_def)
  next
    case (Inr g)
    with r obtain r0 t3 where ex: "execute X T msg g (with_msg msg t1) = Ret (r0, t3)"
      unfolding eq apply_msg_eq pc by (auto simp: bnd_eq_Ret)
    obtain r1 t4 where st: "settle X T msg r0 t3 = (r1, t4)" by (cases "settle X T msg r0 t3")
    note x = execute_settled [OF inv' ok pc [unfolded Inr] ex st]
    have "r = Inr r1" "t' = t4" using r unfolding eq apply_msg_eq pc Inr by (auto simp: ex st)
    with x blk sn show ?thesis by (simp add: settled_def)
  qed
  then show "same_block t t'" and "case r of
      Inl e \<Rightarrow> txn_txn (tn_txn t') = txn_txn (tn_txn t) \<and> tn_ctx t' = tn_ctx t \<and> txn_ok T (tn_txn t') \<and> tn_gasPool t' \<le> tn_gasPool t
    | Inr res \<Rightarrow> settled T msg t res t'" by simp_all
qed

lemma applyImpl_nofuel:
  assumes "gas_inv T t" and "msg_ok msg"
  shows "\<not> nofuel (applyImpl X T msg t)"
proof -
  have "gas_inv T (take_snapshot t)" using metered.rel_inv [OF assms(1) metered.rel_snapshot [OF assms(1)]] .
  from apply_msg_nofuel [OF this assms(2), of X] show ?thesis
    by (auto simp: applyImpl_def take_snapshot_def Txn_Snapshot_def split: sum.splits)
qed

section \<open>Write\<close>

lemma same_block_trans: "same_block a b \<Longrightarrow> same_block b c \<Longrightarrow> same_block a c"
  by (auto simp: same_block_def keeps_def)

lemma Write_cases:
  assumes inv: "gas_inv T t" and ok: "msg_ok msg"
  shows "\<not> nofuel (Write X T msg t)"
    and "Write X T msg t = Ret (Inl e, t') \<Longrightarrow>
      applyImpl X T msg t = Ret (Inl e, t')"
    and "Write X T msg t = Ret (Inr rc, t') \<Longrightarrow> \<exists>res t1.
      applyImpl X T msg t = Ret (Inr res, t1) \<and> rc_GasUsed rc = res_GasUsed res \<and>
      tn_totalGas t' = tn_totalGas t1 + res_GasUsed res \<and> tn_gasPool t' = tn_gasPool t1 \<and> tn_ctx t' = tn_ctx t1 \<and>
      tn_forks t' = tn_forks t1 \<and> (txn_ok T (tn_txn t1) \<longrightarrow> txn_ok T (tn_txn t') \<and> Txn_GetRefund T (tn_txn t') = 0 \<and>
        total_supply T (tn_txn t') \<le> total_supply T (tn_txn t1)) \<and>
      rc_Logs rc = tree_logs T (tn_txn t1)"
proof -
  have T: "trees_ok T" using inv by (simp add: gas_inv_def supply_inv_def)
  have clean: "\<not> nofuel (CleanDeleteObjects X T flag txn)" if "txn_ok T txn" for flag txn
    using CleanDeleteObjects_spec [OF T that, of X flag] by auto
  have ok1: "txn_ok T (tn_txn t1)" if "applyImpl X T msg t = Ret (Inr res, t1)" for res t1
    using applyImpl_cases(2) [OF inv ok that] by (simp add: settled_def)
  have lg: "txn_ok T (snd (Txn_Logs T txn))" if "txn_ok T txn" for txn using txn_ok_aux(5) [OF T that] .
  show "\<not> nofuel (Write X T msg t)"
    using applyImpl_nofuel [OF inv ok, of X] clean lg ok1
    by (auto simp: Write_def Let_def case_prod_beta split: sum.splits)
  have inl: "applyImpl X T msg t = Ret (Inl e, t1) \<Longrightarrow> Write X T msg t = Ret (Inl e, t1)" for e t1
    by (simp add: Write_def)
  have inr: "Write X T msg t \<noteq> Ret (Inl e, t')" if "applyImpl X T msg t = Ret (Inr res, t1)" for e t' res t1
    by (auto simp: Write_def Let_def case_prod_beta bnd_eq_Ret that)
  have ret: "\<exists>r1 t1. applyImpl X T msg t = Ret (r1, t1)" if "Write X T msg t = Ret y" for y
    using that by (auto simp: Write_def bnd_eq_Ret)
  show "applyImpl X T msg t = Ret (Inl e, t')" if w: "Write X T msg t = Ret (Inl e, t')"
  proof -
    obtain r1 t1 where a: "applyImpl X T msg t = Ret (r1, t1)" using ret [OF w] by blast
    with w inl inr show ?thesis by (cases r1) fastforce+
  qed
  assume w: "Write X T msg t = Ret (Inr rc, t')"
  obtain r1 t0 where r1: "applyImpl X T msg t = Ret (r1, t0)" using ret [OF w] by blast
  with w inl obtain res t1 where a: "applyImpl X T msg t = Ret (Inr res, t1)" by (cases r1) fastforce+
  let ?t = "t1\<lparr>tn_totalGas := tn_totalGas t1 + res_GasUsed res\<rparr>"
  obtain txn where c: "CleanDeleteObjects X T (if Byzantium (tn_forks t1) then True else EIP158 (tn_forks t1)) (snd (Txn_Logs T (tn_txn t1))) = Ret txn"
    and t': "t' = ?t\<lparr>tn_txn := txn\<rparr>" "rc_GasUsed rc = res_GasUsed res" "rc_Logs rc = fst (Txn_Logs T (tn_txn t1))"
    using w by (auto simp: Write_def Let_def case_prod_beta a bnd_eq_Ret cong: if_cong)
  note x = lg [OF ok1 [OF a]]
  have "txn_ok T txn" "Txn_GetRefund T txn = 0" "total_supply T txn \<le> total_supply T (tn_txn t1)"
    using CleanDeleteObjects_effect(1,2) [OF T x c] supply_CleanDeleteObjects [OF T x c] supply_same(8) [OF T, of "tn_txn t1"]
    by simp_all
  moreover have "fst (Txn_Logs T (tn_txn t1)) = tree_logs T (tn_txn t1)"
    by (simp add: Txn_Logs_def tree_logs_def split: option.split)
  ultimately show "\<exists>res t1.
      applyImpl X T msg t = Ret (Inr res, t1) \<and> rc_GasUsed rc = res_GasUsed res \<and>
      tn_totalGas t' = tn_totalGas t1 + res_GasUsed res \<and> tn_gasPool t' = tn_gasPool t1 \<and> tn_ctx t' = tn_ctx t1 \<and>
      tn_forks t' = tn_forks t1 \<and> (txn_ok T (tn_txn t1) \<longrightarrow> txn_ok T (tn_txn t') \<and> Txn_GetRefund T (tn_txn t') = 0 \<and>
        total_supply T (tn_txn t') \<le> total_supply T (tn_txn t1)) \<and>
      rc_Logs rc = tree_logs T (tn_txn t1)"
    using a t' by auto
qed

text \<open>The invariant holds for a new transition and from one transaction to the next.\<close>

lemma gas_inv_new:
  assumes "trees_ok T" and "ctx_ok ctx" and "EIP150 forks"
  shows "gas_inv T (NewTransition X T forks ctx snap)"
  using assms txn_ok_new [OF assms(1)]
  by (simp add: NewTransition_def SetRuntime_def gas_inv_def supply_inv_def)

lemma gas_inv_Write:
  assumes "gas_inv T t" and "msg_ok msg" and "Write X T msg t = Ret (r, t')"
  shows "gas_inv T t'"
proof -
  have inv: "trees_ok T" "ctx_ok (tn_ctx t)" "EIP150 (tn_forks t)"
    using assms(1) by (simp_all add: gas_inv_def supply_inv_def)
  show ?thesis
  proof (cases r)
    case (Inl e)
    have a: "applyImpl X T msg t = Ret (Inl e, t')" using Write_cases(2) [OF assms(1,2)] assms(3) Inl by blast
    show ?thesis
      using applyImpl_cases [OF assms(1,2) a] inv by (auto simp: gas_inv_def supply_inv_def same_block_def keeps_def)
  next
    case (Inr rc)
    then obtain res t1 where a: "applyImpl X T msg t = Ret (Inr res, t1)" and t': "tn_ctx t' = tn_ctx t1"
      "tn_forks t' = tn_forks t1" "txn_ok T (tn_txn t1) \<longrightarrow> txn_ok T (tn_txn t')"
      using Write_cases(3) [OF assms(1,2)] assms(3) by blast
    show ?thesis
      using applyImpl_cases [OF assms(1,2) a] inv t'
      by (auto simp: gas_inv_def supply_inv_def same_block_def keeps_def settled_def)
  qed
qed

end
