(* ===== verification/Block.thy ===== *)
theory Block
  imports Transition_Tx
begin

text \<open>
  A block as a state machine: a new transition, then any sequence of transactions, of rewards paid
  through \<open>Txn().AddSealingReward\<close> and of changes of the block hash function. The transitions that
  can be reached satisfy the invariant of the transactions, and together they never use more gas than
  the block allows.
\<close>

inductive reachable ::
    "ext \<Rightarrow> ('t, 's) trees \<Rightarrow> forks_in_time \<Rightarrow> tx_context \<Rightarrow> snapshot \<Rightarrow> ('t, 's) transition \<Rightarrow> bool"
  for X T forks ctx snap where
  reach_new: "reachable X T forks ctx snap (NewTransition X T forks ctx snap)"
| reach_Write: "reachable X T forks ctx snap t \<Longrightarrow> msg_ok msg \<Longrightarrow> Write X T msg t = Ret (r, t') \<Longrightarrow>
    reachable X T forks ctx snap t'"
| reach_reward: "reachable X T forks ctx snap t \<Longrightarrow> 0 \<le> v \<Longrightarrow>
    reachable X T forks ctx snap (t\<lparr>tn_txn := AddSealingReward X T a v (tn_txn t)\<rparr>)"
| reach_hash: "reachable X T forks ctx snap t \<Longrightarrow> reachable X T forks ctx snap (SetGetHash helper t)"

lemma Write_fields:
  assumes "gas_inv T t" and "msg_ok msg" and "Write X T msg t = Ret (r, t')"
  shows "tn_forks t' = tn_forks t" and "unat (tn_totalGas t) + unat (tn_gasPool t) \<le> L \<Longrightarrow> L < 2 ^ 64 \<Longrightarrow>
    unat (tn_totalGas t') + unat (tn_gasPool t') \<le> L"
proof -
  have "tn_forks t' = tn_forks t \<and> (unat (tn_totalGas t) + unat (tn_gasPool t) \<le> L \<longrightarrow> L < 2 ^ 64 \<longrightarrow>
    unat (tn_totalGas t') + unat (tn_gasPool t') \<le> L)"
  proof (cases r)
    case (Inl e)
    have a: "applyImpl X T msg t = Ret (Inl e, t')" using Write_cases(2) [OF assms(1,2)] assms(3) Inl by blast
    have "tn_gasPool t' \<le> tn_gasPool t" using applyImpl_cases(2) [OF assms(1,2) a] by simp
    then show ?thesis
      using applyImpl_cases(1) [OF assms(1,2) a] by (auto simp: same_block_def keeps_def word_le_nat_alt)
  next
    case (Inr rc)
    then obtain res t1 where a: "applyImpl X T msg t = Ret (Inr res, t1)" and f: "tn_forks t' = tn_forks t1"
      and total: "tn_totalGas t' = tn_totalGas t1 + res_GasUsed res" and pool: "tn_gasPool t' = tn_gasPool t1"
      using Write_cases(3) [OF assms(1,2)] assms(3) by blast
    have s: "settled T msg t res t1" "tn_totalGas t1 = tn_totalGas t" "tn_forks t1 = tn_forks t"
      using applyImpl_cases [OF assms(1,2) a] by (simp_all add: same_block_def keeps_def)
    let ?u = "res_GasUsed res"
    have u: "unat ?u \<le> unat (tn_gasPool t)" using s(1) by (auto simp: settled_def word_le_nat_alt)
    then have p: "unat (tn_gasPool t - ?u) = unat (tn_gasPool t) - unat ?u" by (simp add: unat_u64_sub word_le_nat_alt)
    have "unat (tn_totalGas t + ?u) \<le> unat (tn_totalGas t) + unat ?u" by (simp add: unat_word_ariths)
    with u p show ?thesis using s f total pool by (auto simp: settled_def)
  qed
  then show "tn_forks t' = tn_forks t" and "unat (tn_totalGas t) + unat (tn_gasPool t) \<le> L \<Longrightarrow> L < 2 ^ 64 \<Longrightarrow>
    unat (tn_totalGas t') + unat (tn_gasPool t') \<le> L" by simp_all
qed

lemma reachable_inv:
  assumes "reachable X T forks ctx snap t" and "trees_ok T" and "ctx_ok ctx" and "EIP150 forks"
  shows "gas_inv T t \<and> tn_forks t = forks \<and> unat (tn_totalGas t) + unat (tn_gasPool t) \<le> unat (tx_GasLimit ctx)"
  using assms(1)
proof induction
  case reach_new
  have "gas_inv T (NewTransition X T forks ctx snap)" using gas_inv_new [OF assms(2-4)] .
  then show ?case by (simp add: NewTransition_def SetRuntime_def)
next
  case (reach_Write t msg r t')
  then have "gas_inv T t" by blast
  note w = gas_inv_Write [OF this reach_Write.hyps(2,3)] Write_fields [OF this reach_Write.hyps(2,3)]
  show ?case using w reach_Write.IH unat_u64_less by simp
next
  case (reach_reward t v a)
  then show ?case using assms(4) by (auto simp: gas_inv_def supply_inv_def txn_ok_ops)
next
  case (reach_hash t helper)
  then show ?case using assms(4) by (auto simp: SetGetHash_def gas_inv_def supply_inv_def)
qed

end
