(* ===== verification/Example_World.thy ===== *)
theory Example_World
  imports Block Example_Trees
begin

text \<open>
  A concrete world for the witnesses: over the trees of \<open>Example_Trees\<close>, a block with one funded
  account that sends a transfer.
\<close>

section \<open>A block and a transfer\<close>

definition ctx0 :: tx_context where
  "ctx0 = \<lparr>tx_Hash = 0, tx_GasPrice = 0, tx_Origin = 0, tx_Coinbase = 0xcc, tx_Number = 1, tx_Timestamp = 10,
     tx_GasLimit = 100000, tx_ChainID = 1, tx_Difficulty = 0\<rparr>"

definition world0 :: "(al_state, al_store) transition" where
  "world0 = NewTransition ext0 al_trees (Forks_At AllForksEnabled 1) ctx0 snap0"

definition msg0 :: Transaction where
  "msg0 = \<lparr>msg_Nonce = 0, msg_GasPrice = 1, msg_Gas = 21000, msg_To = Some 0xbb, msg_Value = 5000, msg_Input = [],
     msg_Hash = 0, msg_From = 0xaa\<rparr>"

lemma ctx_ok0: "ctx_ok ctx0"
  by (simp add: ctx_ok_def ctx0_def)

lemma gas_inv0: "gas_inv al_trees world0"
  unfolding world0_def by (rule gas_inv_new) (simp_all add: ctx_ok0 Forks_At_AllForksEnabled)

lemma EIP150_0 [simp]: "EIP150 (Forks_At AllForksEnabled 1)"
  by (simp add: Forks_At_AllForksEnabled)

lemma reachable0: "reachable ext0 al_trees (Forks_At AllForksEnabled 1) ctx0 snap0 world0"
  unfolding world0_def by (rule reach_new)

lemma msg_ok0: "msg_ok msg0"
  by (simp add: msg_ok_def msg0_def)

end
