(* ===== verification/Transition_Calls.thy ===== *)
theory Transition_Calls
  imports Transition_Tx
begin

text \<open>
  Calls and creations of the transition with the transition itself as host: a call that fails leaves
  the state as it was before, a creation that fails leaves it as it was after the increment of the
  creator's nonce. The laws come from the interpretations of \<open>world\<close> and \<open>host_frame\<close> in
  \<open>Transition_Host\<close> and \<open>Transition_Tx\<close>.
\<close>

lemma transfer_succeeds:
  assumes "\<forall>v. amount = Some v \<longrightarrow> 0 \<le> v \<and> v \<le> Txn_GetBalance T (tn_txn t) a"
  shows "fst (transfer X T a b amount t) = None"
  using assms by (auto simp: transfer_def Txn_SubBalance_def split: option.splits)

definition funded :: "('t, 's) trees \<Rightarrow> contract \<Rightarrow> ('t, 's) transition \<Rightarrow> bool" where
  "funded T c t \<longleftrightarrow> (\<forall>v. ct_Value c = Some v \<longrightarrow> 0 \<le> v \<and> v \<le> Txn_GetBalance T (tn_txn t) (ct_Caller c))"

lemma funded_value_ok: "funded T c t \<Longrightarrow> value_ok c"
  by (simp add: funded_def value_ok_def)

lemma balance_take_snapshot [simp]: "Txn_GetBalance T (tn_txn (take_snapshot t)) a = Txn_GetBalance T (tn_txn t) a"
  by (simp add: Txn_GetBalance_def take_snapshot_def Txn_Snapshot_def getStateObject_def cong: option.case_cong)

text \<open>Only calls of type \<open>Call\<close> transfer the value.\<close>

lemma call_entry_funded:
  assumes "trees_ok T" and "callType = Call \<Longrightarrow> funded T c t"
  shows "fst (call_entry X T c callType t) = None"
  using assms(2)
  by (auto simp: call_entry_def Let_def funded_def balance_ops [OF assms(1)] intro!: transfer_succeeds)

text \<open>A call that the caller cannot pay ends before the code runs, with its account touched.\<close>

lemma touch_take_snapshot:
  "txn_txn (Txn_TouchAccount X T a (tn_txn (take_snapshot t))) = txn_txn (Txn_TouchAccount X T a (tn_txn t))"
proof -
  have "getStateObject T (tn_txn (take_snapshot t)) a = getStateObject T (tn_txn t) a"
    by (rule getStateObject_cong) (simp_all add: take_snapshot_def Txn_Snapshot_def)
  then have "object_or_new X T (tn_txn (take_snapshot t)) a = object_or_new X T (tn_txn t) a"
    by (simp add: object_or_new_def)
  then show ?thesis
    by (simp add: Txn_TouchAccount_def upsert_True take_snapshot_def Txn_Snapshot_def)
qed

lemma call_entry_unfunded:
  assumes "trees_ok T" and "value_ok c" and "\<not> funded T c t"
  shows "\<exists>e t1. call_entry X T c Call t = (Some e, t1) \<and> txn_txn (tn_txn t1) = txn_txn (Txn_TouchAccount X T (ct_Address c) (tn_txn t))"
proof -
  obtain v where v: "ct_Value c = Some v" "Txn_GetBalance T (tn_txn t) (ct_Caller c) < v" "0 \<le> v"
    using assms(2,3) by (auto simp: funded_def value_ok_def not_le)
  have "0 < v" using v(2) Txn_GetBalance_nonneg [of T "tn_txn t" "ct_Caller c"] by linarith
  then show ?thesis
    using v touch_take_snapshot [of X T "ct_Address c" t]
    by (simp add: call_entry_def Let_def transfer_def Txn_SubBalance_def balance_ops [OF assms(1)])
qed

text \<open>The state of a call after its revert.\<close>

lemma applyCall_undone_funded:
  assumes inv: "supply_inv T t" and v: "value_ok c" and f: "callType = Call \<Longrightarrow> funded T c t"
  shows "post (applyCall X T (Transition_host X T) c callType t)
    (\<lambda>(r, t'). Failed r \<longrightarrow> txn_txn (tn_txn t') = txn_txn (tn_txn t))"
proof -
  have T: "trees_ok T" using inv by (simp add: supply_inv_def)
  have H: "host_frame (Transition_host X T) False (ct_Depth c) (supply_inv T) (supply_rel T)"
    by (rule conserving.host_frame_axioms)
  obtain t1 where eq: "call_entry X T c callType t = (None, t1)"
    using call_entry_funded [OF T f, of callType X] by (cases "call_entry X T c callType t") simp
  have e: "supply_rel T (take_snapshot t) t1" "supply_inv T t1"
    using conserved.call_entry_rel [OF inv v, of callType X] eq by simp_all
  have run: "post (Transition_run X (Transition_host X T) c t1) (\<lambda>(r, t'). supply_rel T (take_snapshot t) t')"
    by (rule post_mono [OF conserved.run_rel [OF H e(2) v]]) (auto intro: conserved.rel_trans [OF e(1)])
  have "post (if Failed r then bnd (revert (length (txn_snapshots (tn_txn t))) t') (\<lambda>t. Ret (r, t)) else Ret (r, t'))
      (\<lambda>(r, t'). Failed r \<longrightarrow> txn_txn (tn_txn t') = txn_txn (tn_txn t))" if "supply_rel T (take_snapshot t) t'" for r t'
    using revert_back [OF conserved.rel_keeps [OF that]] by (simp add: back_to_def)
  then show ?thesis
    unfolding applyCall_entry eq using run by (auto elim!: post_mono)
qed

lemma applyCall_undone:
  assumes "supply_inv T t" and "value_ok c"
  shows "post (applyCall X T (Transition_host X T) c callType t) (\<lambda>(r, t'). Failed r \<longrightarrow>
    txn_txn (tn_txn t') =
      (if callType = Call \<and> ct_Depth c \<le> 1025 \<and> \<not> funded T c t
       then txn_txn (Txn_TouchAccount X T (ct_Address c) (tn_txn t)) else txn_txn (tn_txn t)))"
proof (cases "callType = Call \<longrightarrow> funded T c t")
  case True
  then show ?thesis using applyCall_undone_funded [OF assms, of callType X] by auto
next
  case False
  then obtain e t1 where "call_entry X T c Call t = (Some e, t1)"
      "txn_txn (tn_txn t1) = txn_txn (Txn_TouchAccount X T (ct_Address c) (tn_txn t))"
    using call_entry_unfunded [of T c t X] assms by (auto simp: supply_inv_def)
  with False show ?thesis by (simp add: applyCall_entry)
qed

lemma create_entry_funded:
  assumes "trees_ok T" and "funded T c t"
  shows "fst (create_entry X T c t) = None"
  using assms(2)
  by (auto simp: create_entry_def create_nonce_def create_account_def Let_def funded_def balance_ops [OF assms(1)]
      balance_CreateAccount [OF assms(1)] intro!: transfer_succeeds)

lemma finish_create_undone:
  assumes "keeps (take_snapshot t) t'" and "s = length (txn_snapshots (tn_txn t))"
  shows "post (finish_create X T c s r t') (\<lambda>(r, t'). Failed r \<longrightarrow> Homestead (tn_forks t) \<or> res_Err r \<noteq> Some ErrCodeStoreOutOfGas \<longrightarrow>
    txn_txn (tn_txn t') = txn_txn (tn_txn t))"
  using revert_back [OF assms(1)] assms
  by (auto simp: finish_create_def Let_def back_to_def Failed_def keeps_def take_snapshot_def)

lemma applyCreate_undone:
  assumes inv: "supply_inv T t" and "funded T c t"
  shows "post (applyCreate X T (Transition_host X T) c t) (\<lambda>(r, t'). Failed r \<longrightarrow>
    Homestead (tn_forks t) \<or> res_Err r \<noteq> Some ErrCodeStoreOutOfGas \<longrightarrow>
    txn_txn (tn_txn t') = txn_txn (tn_txn (if 1025 < ct_Depth c then t else create_nonce X T c t)))"
proof -
  have T: "trees_ok T" using inv by (simp add: supply_inv_def)
  note v = funded_value_ok [OF assms(2)]
  let ?n = "create_nonce X T c t"
  have H: "host_frame (Transition_host X T) False (ct_Depth c) (supply_inv T) (supply_rel T)"
    by (rule conserving.host_frame_axioms)
  obtain t1 where eq: "create_entry X T c t = (None, t1)"
    using create_entry_funded [OF T assms(2), of X] by (cases "create_entry X T c t") simp
  note e = conserved.create_entry_rel [OF inv v, of X, simplified eq snd_conv, simplified]
  have run: "post (Transition_run X (Transition_host X T) c t1) (\<lambda>(r, t'). supply_rel T (take_snapshot ?n) t')"
    by (rule post_mono [OF conserved.run_rel [OF H e(5) v]]) (auto intro: conserved.rel_trans [OF e(3)])
  have len: "length (txn_snapshots (tn_txn t)) = length (txn_snapshots (tn_txn ?n))" "tn_forks ?n = tn_forks t"
    by (simp_all add: create_nonce_def)
  note fin = finish_create_undone [OF conserved.rel_keeps len(1), unfolded len(2)]
  show ?thesis
    unfolding applyCreate_entry eq using run fin by (auto simp: post_prod elim!: post_mono)
qed

section \<open>Gas\<close>

text \<open>A call at depth \<open>k\<close> over a host that can answer the levels from \<open>k\<close> to 1025.\<close>

lemma apply_within:
  assumes "gas_inv T t" and "value_ok c" and "1026 \<le> d + ct_Depth c"
  shows "metered.within c (applyCall X T (host_of X T (callx_n X T d)) c callType t)"
    and "metered.within c (applyCreate X T (host_of X T (callx_n X T d)) c t)"
proof -
  have eip: "EIP150 (tn_forks t)" using assms(1) by (simp add: gas_inv_def)
  have h: "host_gas (host_of X T (callx_n X T d)) False (ct_Depth c) (gas_inv T) (supply_rel T)" if "ct_Depth c \<le> 1025"
    by (rule metered.host_of_gas) (use that assms(3) in \<open>simp_all add: gas_inv_def\<close>)
  show "metered.within c (applyCall X T (host_of X T (callx_n X T d)) c callType t)"
    by (rule metered.applyCall_gas [OF h assms(1,2)]) (use eip in simp_all)
  show "metered.within c (applyCreate X T (host_of X T (callx_n X T d)) c t)"
    by (rule metered.applyCreate_gas [OF h assms(1,2)]) (use eip in simp_all)
qed

end
