(* ===== verification/Transition_Static.thy ===== *)
theory Transition_Static
  imports Transition_Tx Txn_View
begin

text \<open>
  Static calls do not change what can be seen of the state, with one exception: the account that is called is touched, and
  if it was absent it exists afterwards, as an empty account with the hash of the empty code. This is the instance of
  \<open>world\<close> with \<open>static = True\<close>: only touching an account, transferring nothing and reverting remain. A touched account reads
  as before when the snapshot answers for the empty code and the empty storage root as the state trie does.
\<close>

section \<open>What can be seen of the state\<close>

definition same_view :: "ext \<Rightarrow> ('t, 's) trees \<Rightarrow> ('t, 's) txn \<Rightarrow> ('t, 's) txn \<Rightarrow> bool" where
  "same_view X T txn txn' \<longleftrightarrow>
     (\<forall>a. account_view T txn' a = account_view T txn a \<or>
        \<not> Txn_Exist T txn a \<and> account_view T txn' a = created X (account_view T txn a)) \<and>
     (\<forall>a. Txn_Empty X T txn' a = Txn_Empty X T txn a) \<and>
     Txn_GetRefund T txn' = Txn_GetRefund T txn \<and> tree_logs T txn' = tree_logs T txn"

lemma same_view_tree:
  "txn_txn txn' = txn_txn txn \<Longrightarrow> txn_snapshot txn' = txn_snapshot txn \<Longrightarrow> same_view X T txn txn'"
  using account_view_cong [OF getStateObject_cong [of txn' txn], of T]
  by (simp add: same_view_def Txn_Empty_def Txn_GetRefund_def tree_logs_def getStateObject_cong [of txn' txn] split: option.split)

lemma vw_Exist_view [simp]: "vw_Exist (account_view T txn a) \<longleftrightarrow> Txn_Exist T txn a" "vw_Exist (created X v)"
  by (simp_all add: account_view_def created_def)

lemma same_view_trans:
  assumes "same_view X T a b" and "same_view X T b c"
  shows "same_view X T a c"
proof -
  have "account_view T c x = account_view T a x \<or>
      \<not> Txn_Exist T a x \<and> account_view T c x = created X (account_view T a x)" for x
  proof (cases "account_view T b x = account_view T a x")
    case True
    then have "Txn_Exist T b x \<longleftrightarrow> Txn_Exist T a x" by (metis vw_Exist_view(1))
    then show ?thesis using assms(2) True unfolding same_view_def by metis
  next
    case False
    then have b: "\<not> Txn_Exist T a x" "account_view T b x = created X (account_view T a x)"
      using assms(1) by (auto simp: same_view_def)
    then have "Txn_Exist T b x" by (metis vw_Exist_view)
    then show ?thesis using assms(2) b unfolding same_view_def by metis
  qed
  then show ?thesis using assms by (simp add: same_view_def)
qed

text \<open>Touching an account shows at most in that it exists.\<close>

lemma same_view_upsert:
  assumes T: "trees_ok T" and S: "snapshot_ok X (txn_snapshot txn)" and f: "\<And>obj. f obj = obj"
  shows "same_view X T txn (upsertAccount X T a True f txn)"
proof -
  let ?u = "upsertAccount X T a True f txn"
  have d: "so_Deleted (f obj) = so_Deleted obj" for obj by (simp add: f)
  have c: "stateObject_Copy (object_or_new X T txn a) = object_or_new X T txn a"
    using object_or_new_live(2) [of X T txn a] by (simp add: stateObject_Copy_def Account_Copy_def)
  have v: "account_view T ?u = (account_view T txn)(a := created X (account_view T txn a))"
    by (simp add: view_upsert [OF T d] f c created_view [OF S])
  have g: "getStateObject T ?u b = (if b = a then Some (object_or_new X T txn a) else getStateObject T txn b)" for b
    by (simp add: getStateObject_upsert [OF T d] f c)
  have "Txn_Empty X T ?u b = Txn_Empty X T txn b" for b
    by (simp add: Txn_Empty_def g object_or_new_def newStateObject_def stateObject_Empty_def split: option.split)
  then show ?thesis
    using v aux_upsert [OF T] by (auto simp: same_view_def created_def)
qed

section \<open>The instance\<close>

definition static_inv :: "ext \<Rightarrow> ('t, 's) trees \<Rightarrow> ('t, 's) transition \<Rightarrow> bool" where
  "static_inv X T t \<longleftrightarrow> supply_inv T t \<and> snapshot_ok X (txn_snapshot (tn_txn t))"

definition static_rel :: "ext \<Rightarrow> ('t, 's) trees \<Rightarrow> ('t, 's) transition \<Rightarrow> ('t, 's) transition \<Rightarrow> bool" where
  "static_rel X T t t' \<longleftrightarrow> supply_rel T t t' \<and> same_view X T (tn_txn t) (tn_txn t')"

interpretation unseen: world X T True "static_inv X T" "static_rel X T"
  for X and T :: "('t, 's) trees"
proof (unfold_locales, goal_cases)
  case (1 t) show ?case using conserved.rel_refl by (simp add: static_rel_def same_view_def)
next
  case 2 then show ?case using conserved.rel_trans by (auto simp: static_rel_def intro: same_view_trans)
next
  case (3 t t') then show ?case
    using conserved.rel_inv [of T t t'] by (simp add: static_inv_def static_rel_def supply_rel_def keeps_def)
next
  case 4 then show ?case by (simp add: static_rel_def supply_rel_def)
next
  case 5 then show ?case by (simp add: static_inv_def supply_inv_def)
next
  case (6 t)
  have "same_view X T (tn_txn t) (tn_txn (take_snapshot t))"
    by (rule same_view_tree) (simp_all add: take_snapshot_def Txn_Snapshot_def)
  with 6 show ?case by (simp add: static_inv_def static_rel_def conserved.rel_snapshot)
next
  case (7 t t')
  then have k: "keeps t t'" by (simp add: static_rel_def supply_rel_def)
  have "same_view X T (tn_txn t) (tn_txn (back_to t t'))"
    by (rule same_view_tree) (use k in \<open>simp_all add: back_to_def keeps_def\<close>)
  with 7 show ?case by (simp add: static_inv_def static_rel_def conserved.rel_back)
next
  case (8 t a)
  then show ?case
    using same_view_upsert [of T X "tn_txn t" "\<lambda>obj. obj" a] conserved.rel_touch [of T t X a]
    by (simp add: static_inv_def static_rel_def supply_inv_def Txn_TouchAccount_def)
next
  case (9 t v a b)
  let ?add = "upd_account (\<lambda>a. a\<lparr>acc_Balance := acc_Balance a + 0\<rparr>) :: 's stateObject \<Rightarrow> 's stateObject"
  have "?add obj = obj" for obj by (simp add: upd_account_def)
  with 9 show ?case
    using same_view_upsert [of T X "tn_txn t" ?add b] conserved.rel_transfer [of T t v X a b]
    by (simp add: static_inv_def static_rel_def supply_inv_def transfer_def Txn_SubBalance_def Txn_AddBalance_def)
qed simp_all

section \<open>Static contracts\<close>

lemma applyCall_static:
  assumes "static_inv X T t" and "value_ok c" and "ct_Static c" and "callType = Call \<Longrightarrow> ct_Value c = Some 0"
  shows "post (applyCall X T (Transition_host X T) c callType t) (\<lambda>(r, t'). same_view X T (tn_txn t) (tn_txn t'))"
proof -
  have H: "host_frame (Transition_host X T) True (ct_Depth c) (static_inv X T) (static_rel X T)"
    unfolding Transition_host_def by (rule unseen.host_of_frame)
  show ?thesis
    by (rule post_mono [OF unseen.applyCall_rel [OF H assms(1,2)]]) (use assms(3,4) in \<open>auto simp: static_rel_def\<close>)
qed

end
