(* ===== verification/Transition_Checks.thy ===== *)
theory Transition_Checks
  imports Transition Example_Trees
begin

text \<open>
  The checks before a transaction is executed: the intrinsic gas as a number, with the overflow the code
  guards against, and the outcome of \<open>preCheck\<close> on every branch.
\<close>

section \<open>Intrinsic gas\<close>

text \<open>The Yellow Paper's intrinsic gas as a natural number.\<close>

definition intrinsic_gas :: "Transaction \<Rightarrow> bool \<Rightarrow> bool \<Rightarrow> nat" where
  "intrinsic_gas msg homestead istanbul =
     (if msg_To msg = None \<and> homestead then 53000 else 21000) +
     (if istanbul then 16 else 68) * length (filter (\<lambda>b. b \<noteq> 0) (msg_Input msg)) +
     4 * length (filter (\<lambda>b. b = 0) (msg_Input msg))"

lemma filter_split: "length (filter (\<lambda>b. b \<noteq> 0) xs) = length xs - length (filter (\<lambda>b. b = 0) xs)"
  "length (filter (\<lambda>b. b = 0) xs) \<le> length xs" for xs :: bytes
  using sum_length_filter_compl [of "\<lambda>b. b = 0" xs] by simp_all

text \<open>
  \<open>TransactionGasCost\<close> is the intrinsic gas (21000, or 53000 for a creation since Homestead, plus 4 for each zero and
  16 or 68 for each other byte of the input), computed without wrapping: whenever the sum does not
  fit into 64 bits, and only then, the overflow error is returned.
\<close>

lemma TransactionGasCost_eq:
  assumes "length (msg_Input msg) < 2 ^ 63"
  shows "TransactionGasCost msg h i =
    (if intrinsic_gas msg h i < 2 ^ 64 then Inr (of_nat (intrinsic_gas msg h i)) else Inl ErrIntrinsicGasOverflow)"
proof -
  let ?in = "msg_Input msg"
  define z where "z = length (filter (\<lambda>b. b = 0) ?in)"
  define nz where "nz = length (filter (\<lambda>b. b \<noteq> 0) ?in)"
  define base :: u64 where "base = (if IsContractCreation msg \<and> h then TxGasContractCreation else TxGas)"
  define p :: u64 where "p = (if i then 16 else 68)"
  have zn: "z \<le> length ?in" "nz = length ?in - z" using filter_split [of ?in] by (simp_all add: z_def nz_def)
  have w: "unat (of_nat z :: u64) = z" "unat (of_nat nz :: u64) = nz" using unat_u64 [of z] unat_u64 [of nz] zn assms by auto
  have nzw: "(of_nat (length ?in) - of_nat z :: u64) = of_nat nz" using zn by (simp add: of_nat_diff)
  have up: "unat p = (if i then 16 else 68)" by (simp add: p_def)
  have ub: "unat base = (if msg_To msg = None \<and> h then 53000 else 21000)"
    by (simp add: base_def TxGas_def TxGasContractCreation_def IsContractCreation_def)
  have g: "intrinsic_gas msg h i = unat base + nz * unat p + z * 4"
    by (simp add: intrinsic_gas_def ub up z_def nz_def)
  show ?thesis
  proof (cases "?in = []")
    case True
    then have "z = 0" "nz = 0" by (simp_all add: z_def nz_def)
    moreover have "TransactionGasCost msg h i = Inr base" using True by (simp add: TransactionGasCost_def base_def Let_def)
    ultimately show ?thesis using unat_u64_less [of base] by (simp add: g)
  next
    case False
    let ?c = "base + of_nat nz * p"
    have "TransactionGasCost msg h i =
        (if (- 1 - base) div p < of_nat nz then Inl ErrIntrinsicGasOverflow
         else if (- 1 - ?c) div 4 < of_nat z then Inl ErrIntrinsicGasOverflow else Inr (?c + of_nat z * 4))"
      using False by (simp only: TransactionGasCost_def Let_def base_def [symmetric] z_def [symmetric] p_def [symmetric] nzw length_greater_0_conv if_True not_False_eq_True)
    also have "\<dots> = (if intrinsic_gas msg h i < 2 ^ 64 then Inr (of_nat (intrinsic_gas msg h i)) else Inl ErrIntrinsicGasOverflow)"
    proof (cases "unat base + nz * unat p < 2 ^ 64")
      case fits: True
      have c: "unat ?c = unat base + nz * unat p" using u64_fits(2) [of p base "of_nat nz"] fits up w by simp
      have 1: "\<not> (- 1 - base) div p < of_nat nz" using u64_fits(1) [of p base "of_nat nz"] fits up w by simp
      have 2: "(- 1 - ?c) div 4 < of_nat z \<longleftrightarrow> \<not> intrinsic_gas msg h i < 2 ^ 64"
        using u64_fits(1) [of 4 ?c "of_nat z"] c w by (simp add: g not_less)
      have "?c + of_nat z * 4 = of_nat (intrinsic_gas msg h i)"
        by (simp add: g)
      with 1 2 show ?thesis by simp
    next
      case False
      then show ?thesis using u64_fits(1) [of p base "of_nat nz"] up w by (simp add: g not_less)
    qed
    finally show ?thesis .
  qed
qed

definition msg1 :: Transaction where
  "msg1 = \<lparr>msg_Nonce = 0, msg_GasPrice = 1, msg_Gas = 60000, msg_To = None, msg_Value = 5, msg_Input = [0, 1, 2],
     msg_Hash = 0, msg_From = 0xaa\<rparr>"

section \<open>Prechecks\<close>

lemma gas_wrap_iff:
  fixes g c :: u64
  assumes "c \<noteq> 0"
  shows "g < g - c \<longleftrightarrow> g < c"
proof (cases "c \<le> g")
  case True
  then have "g - c \<le> g" by (simp add: word_sub_le_iff)
  with True have "\<not> g < g - c" "\<not> g < c" by (simp_all only: not_less)
  then show ?thesis by blast
next
  case False
  then have "unat (g - c) = unat g + 2 ^ 64 - unat c" by (simp add: unat_sub_if' word_le_nat_alt)
  with False show ?thesis using unat_u64_less [of c] by (simp add: word_less_nat_alt word_le_nat_alt)
qed

text \<open>
  C12: The checks before a transaction decide as documented and in this order: the nonce must be the sender's; the
  sender must afford the gas; the block must have that much gas left; the intrinsic gas must not
  overflow and be covered by the gas limit; and what remains of the balance must cover the value.
  Otherwise the corresponding error is returned; if all pass, the gas left for the execution is
  the limit less the intrinsic gas.
\<close>

theorem preCheck_outcome:
  assumes "trees_ok T" and "0 \<le> msg_GasPrice msg" and "length (msg_Input msg) < 2 ^ 63"
  shows "fst (preCheck X T msg t) =
    (let fee = msg_GasPrice msg * uint (msg_Gas msg);
         balance = Txn_GetBalance T (tn_txn t) (msg_From msg);
         cost = intrinsic_gas msg (Homestead (tn_forks t)) (Istanbul (tn_forks t))
     in if Txn_GetNonce T (tn_txn t) (msg_From msg) \<noteq> msg_Nonce msg then Inl ErrNonceIncorrect
        else if balance < fee then Inl ErrNotEnoughFundsForGas
        else if tn_gasPool t < msg_Gas msg then Inl ErrBlockLimitReached
        else if 2 ^ 64 \<le> cost then Inl ErrIntrinsicGasOverflow
        else if unat (msg_Gas msg) < cost then Inl ErrNotEnoughIntrinsicGas
        else if balance - fee < msg_Value msg then Inl ErrTxNotEnoughFunds
        else Inr (msg_Gas msg - of_nat cost))"
proof -
  define fee where "fee = msg_GasPrice msg * uint (msg_Gas msg)"
  define cost where "cost = intrinsic_gas msg (Homestead (tn_forks t)) (Istanbul (tn_forks t))"
  have fee: "0 \<le> fee" using assms(2) by (simp add: fee_def)
  obtain err txn where sb: "Txn_SubBalance X T (msg_From msg) fee (tn_txn t) = (err, txn)"
    by (cases "Txn_SubBalance X T (msg_From msg) fee (tn_txn t)")
  have err: "err = (if Txn_GetBalance T (tn_txn t) (msg_From msg) < fee then Some ErrNotEnoughFunds else None)"
    using sb fee Txn_GetBalance_nonneg [of T "tn_txn t" "msg_From msg"] by (auto simp: Txn_SubBalance_def split: if_splits)
  have bal: "err = None \<Longrightarrow> Txn_GetBalance T txn (msg_From msg) = Txn_GetBalance T (tn_txn t) (msg_From msg) - fee"
    using balance_SubBalance [OF assms(1), of X "msg_From msg" fee "tn_txn t" txn] sb by simp
  have cost0: "cost \<noteq> 0" by (simp add: cost_def intrinsic_gas_def)
  have lt: "msg_Gas msg < msg_Gas msg - of_nat cost \<longleftrightarrow> unat (msg_Gas msg) < cost" if "cost < 2 ^ 64"
  proof -
    have u: "unat (of_nat cost :: u64) = cost" using that by (rule unat_u64)
    then have "(of_nat cost :: u64) \<noteq> 0" using cost0 by (metis unat_0)
    then show ?thesis using gas_wrap_iff [of "of_nat cost" "msg_Gas msg"] u by (simp add: word_less_nat_alt)
  qed
  show ?thesis
    unfolding fee_def [symmetric] cost_def [symmetric] Let_def preCheck_def nonceCheck_def subGasLimitPrice_def subGasPool_def
    using err bal lt
    by (auto simp: sb TransactionGasCost_eq [OF assms(3)] cost_def [symmetric])
qed

theorem preCheck_outcome_witness:
  "trees_ok al_trees \<and>
   fst (preCheck ext0 al_trees msg1 (NewTransition ext0 al_trees (Forks_At AllForksEnabled 0)
     \<lparr>tx_Hash = 0, tx_GasPrice = 0, tx_Origin = 0, tx_Coinbase = 0, tx_Number = 1, tx_Timestamp = 1, tx_GasLimit = 100000,
      tx_ChainID = 1, tx_Difficulty = 0\<rparr> snap0)) = Inr (60000 - 53036)"
proof -
  let ?t = "newTxn al_trees snap0"
  have "getStateObject al_trees ?t 0xaa =
      Some \<lparr>so_Account = Account_Copy \<lparr>acc_Nonce = 0, acc_Balance = 1000000, acc_Root = EmptyStateHash, acc_CodeHash = EmptyCodeHash ext0\<rparr>,
        so_Code = [], so_Suicide = False, so_Deleted = False, so_DirtyCode = False, so_Txn = None\<rparr>"
    by (simp add: getStateObject_def newTxn_def snap0_def al_trees_def al_radix_def)
  then have "Txn_GetBalance al_trees ?t 0xaa = 1000000" "Txn_GetNonce al_trees ?t 0xaa = 0"
    by (simp_all add: Txn_GetBalance_def Txn_GetNonce_def Account_Copy_def)
  then show ?thesis
    using preCheck_outcome [OF trees_ok_al, of msg1 ext0]
    by (simp add: msg1_def NewTransition_def SetRuntime_def Forks_At_AllForksEnabled intrinsic_gas_def Let_def)
qed

end
