(* ===== verification/Transition_Plain.thy ===== *)
theory Transition_Plain
  imports Block Transition_Checks Transition_Calls Txn_Props Example_World
begin

text \<open>
  Plain transfers: a transaction to an account without code. Between the transactions of a block no refund, no log and no
  destroyed account is left over, so that a transfer the checks accept goes through, costs the intrinsic gas and
  changes balances and nonces as it should.
\<close>

section \<open>Updates of balances and nonces only\<close>

definition money_only :: "('t, 's) trees \<Rightarrow> ('t, 's) txn \<Rightarrow> ('t, 's) txn \<Rightarrow> bool" where
  "money_only T txn txn' \<longleftrightarrow> Txn_GetRefund T txn' = Txn_GetRefund T txn \<and> tree_logs T txn' = tree_logs T txn \<and>
     (\<forall>a. Txn_HasSuicided T txn' a = Txn_HasSuicided T txn a) \<and> (\<forall>a. Txn_GetCode T txn' a = Txn_GetCode T txn a) \<and>
     txn_snapshot txn' = txn_snapshot txn \<and> (txn_ok T txn \<longrightarrow> txn_ok T txn')"

lemma money_only_trans: "money_only T a b \<Longrightarrow> money_only T b c \<Longrightarrow> money_only T a c"
  by (simp add: money_only_def)

lemma money_only_upsert:
  assumes "trees_ok T" and "snapshot_ok X (txn_snapshot txn)" and "\<And>a. acc_CodeHash (f a) = acc_CodeHash a"
  shows "money_only T txn (upsertAccount X T a True (upd_account f) txn)"
proof -
  have d: "so_Deleted (upd_account f obj) = so_Deleted obj" for obj :: "'b stateObject" by (simp add: upd_account_def)
  note u = upsert_get [where f = "upd_account f", OF assms(1) d]
  have new: "so_Suicide (object_or_new X T txn a) = Txn_HasSuicided T txn a"
    "(if so_DirtyCode (object_or_new X T txn a) then so_Code (object_or_new X T txn a)
      else fst (snap_GetCode (txn_snapshot txn) (BytesToHash (acc_CodeHash (so_Account (object_or_new X T txn a)))))) = Txn_GetCode T txn a"
    using assms(2) by (auto simp: object_or_new_def Txn_HasSuicided_def Txn_GetCode_def newStateObject_def snapshot_ok_def split: option.split)
  have "Txn_GetRefund T (upsertAccount X T a True (upd_account f) txn) = Txn_GetRefund T txn"
    "tree_logs T (upsertAccount X T a True (upd_account f) txn) = tree_logs T txn"
    by (simp_all add: upsert_True Txn_GetRefund_def tree_logs_def trees_okD [OF assms(1)] cong: option.case_cong)
  then show ?thesis
    using new assms(3) txn_ok_upsert [OF assms(1)] by (auto simp: money_only_def u upd_account_def)
qed

lemma money_only_ops:
  assumes "trees_ok T" and "snapshot_ok X (txn_snapshot txn)"
  shows "money_only T txn (Txn_AddBalance X T a v txn)" "money_only T txn (snd (Txn_SubBalance X T a v txn))"
    "money_only T txn (Txn_IncrNonce X T a txn)" "money_only T txn (Txn_TouchAccount X T a txn)"
    "money_only T txn (snd (Txn_Snapshot txn))"
proof -
  note u = money_only_upsert [OF assms]
  show "money_only T txn (Txn_AddBalance X T a v txn)" "money_only T txn (Txn_IncrNonce X T a txn)"
    unfolding Txn_AddBalance_def Txn_IncrNonce_def by (rule u; simp)+
  show "money_only T txn (snd (Txn_SubBalance X T a v txn))"
    using u [of "\<lambda>x. x\<lparr>acc_Balance := acc_Balance x - v\<rparr>" a] by (simp add: Txn_SubBalance_def money_only_def)
  have "upd_account (\<lambda>x. x) = (\<lambda>obj :: 'b stateObject. obj)" by (simp add: fun_eq_iff upd_account_def)
  then show "money_only T txn (Txn_TouchAccount X T a txn)"
    using u [of "\<lambda>x. x" a] by (simp add: Txn_TouchAccount_def)
  have same: "txn_txn (snd (Txn_Snapshot txn)) = txn_txn txn" "txn_snapshot (snd (Txn_Snapshot txn)) = txn_snapshot txn"
    by (simp_all add: Txn_Snapshot_def)
  then show "money_only T txn (snd (Txn_Snapshot txn))"
    using txn_ok_aux(7) [OF assms(1)]
    by (simp add: money_only_def Txn_HasSuicided_def Txn_GetCode_def Txn_GetRefund_def tree_logs_def getStateObject_cong [OF same]
        split: option.split)
qed

text \<open>Without destroyed accounts, the deletion of empty ones changes no balance and no nonce.\<close>

lemma clean_balances:
  assumes "trees_ok T" and "txn_ok T txn" and "CleanDeleteObjects X T flag txn = Ret txn'"
    and "\<And>a. \<not> Txn_HasSuicided T txn a"
  shows "Txn_GetBalance T txn' a = Txn_GetBalance T txn a" and "Txn_GetNonce T txn' a = Txn_GetNonce T txn a"
proof -
  have "getStateObject T txn' a = getStateObject T txn a \<or>
      getStateObject T txn' a = None \<and> (\<forall>obj. getStateObject T txn a = Some obj \<longrightarrow> stateObject_Empty X obj)"
  proof (cases "rx_get (tr_state T) (txn_txn txn) (Address_Bytes a)")
    case None
    then show ?thesis by (simp add: CleanDeleteObjects_effect(4) [OF assms(1-3)])
  next
    case (Some e)
    then have "getStateObject T txn a = Some obj \<Longrightarrow> doomed X flag e \<Longrightarrow> stateObject_Empty X obj" for obj
      using assms(4) [of a]
      by (auto simp: Txn_HasSuicided_def getStateObject_def doomed_def stateObject_Copy_def Account_Copy_def stateObject_Empty_def
          split: entry.splits if_splits)
    with Some show ?thesis by (simp add: CleanDeleteObjects_effect(4) [OF assms(1-3)])
  qed
  then show "Txn_GetBalance T txn' a = Txn_GetBalance T txn a" and "Txn_GetNonce T txn' a = Txn_GetNonce T txn a"
    by (auto simp: Txn_GetBalance_def Txn_GetNonce_def stateObject_Empty_def split: option.splits)
qed

section \<open>Between transactions\<close>

definition at_rest :: "('t, 's) trees \<Rightarrow> snapshot \<Rightarrow> ('t, 's) transition \<Rightarrow> bool" where
  "at_rest T snap t \<longleftrightarrow> Txn_GetRefund T (tn_txn t) = 0 \<and> tree_logs T (tn_txn t) = [] \<and>
     (\<forall>a. \<not> Txn_HasSuicided T (tn_txn t) a) \<and> txn_snapshot (tn_txn t) = snap \<and>
     tn_runtimes t = [RuntimePrecompiled, RuntimeEVM]"

lemma clean_at_rest:
  assumes "trees_ok T" and "txn_ok T txn" and "CleanDeleteObjects X T flag (snd (Txn_Logs T txn)) = Ret txn'"
  shows "Txn_GetRefund T txn' = 0" "tree_logs T txn' = []" "\<not> Txn_HasSuicided T txn' a" "txn_snapshot txn' = txn_snapshot txn"
proof -
  note c = CleanDeleteObjects_effect [OF assms(1) txn_ok_aux(5) [OF assms(1,2)] assms(3)]
  show "Txn_GetRefund T txn' = 0" by (rule c)
  show "tree_logs T txn' = []" unfolding c(3)
    by (simp add: Txn_Logs_def tree_logs_def trees_okD [OF assms(1)] split: option.split)
  show "\<not> Txn_HasSuicided T txn' a"
    unfolding Txn_HasSuicided_def c(4)
    by (auto simp: getStateObject_def doomed_def stateObject_Copy_def
        split: option.splits entry.splits if_splits sum.splits)
  show "txn_snapshot txn' = txn_snapshot txn" unfolding c(5) by (simp add: Txn_Logs_def split: option.split)
qed

lemma Write_at_rest:
  assumes "gas_inv T t" and "msg_ok msg" and "at_rest T snap t" and w: "Write X T msg t = Ret (r, t')"
  shows "at_rest T snap t'"
proof (cases r)
  case (Inl e)
  then have a: "applyImpl X T msg t = Ret (Inl e, t')" using Write_cases(2) [OF assms(1,2)] w by blast
  note x = applyImpl_cases [OF assms(1,2) a]
  have "txn_txn (tn_txn t') = txn_txn (tn_txn t)" "txn_snapshot (tn_txn t') = txn_snapshot (tn_txn t)" "tn_runtimes t' = tn_runtimes t"
    using x by (simp_all add: same_block_def keeps_def)
  then show ?thesis
    using assms(3) getStateObject_cong [of "tn_txn t'" "tn_txn t" T]
    by (simp add: at_rest_def Txn_GetRefund_def tree_logs_def Txn_HasSuicided_def)
next
  case (Inr rc)
  obtain res t1 where a: "applyImpl X T msg t = Ret (Inr res, t1)" using Write_cases(3) [OF assms(1,2)] w Inr by blast
  obtain flag txn where c: "CleanDeleteObjects X T flag (snd (Txn_Logs T (tn_txn t1))) = Ret txn"
    and t': "tn_txn t' = txn" "tn_runtimes t' = tn_runtimes t1"
    using w unfolding Inr by (auto simp: Write_def Let_def case_prod_beta bnd_eq_Ret a cong: if_cong)
  note x = applyImpl_cases [OF assms(1,2) a]
  have "trees_ok T" "txn_ok T (tn_txn t1)" using assms(1) x(2) by (simp_all add: gas_inv_def supply_inv_def settled_def)
  from clean_at_rest [OF this c] show ?thesis
    using assms(3) x(1) t' by (simp add: at_rest_def same_block_def keeps_def)
qed

lemma reward_at_rest:
  assumes "trees_ok T" and "at_rest T snap t"
  shows "at_rest T snap (t\<lparr>tn_txn := AddSealingReward X T a v (tn_txn t)\<rparr>)"
proof -
  have "txn_snapshot (AddSealingReward X T a v (tn_txn t)) = txn_snapshot (tn_txn t)" by (simp add: AddSealingReward_def)
  then show ?thesis
    using assms(2)
    by (auto simp: at_rest_def AddSealingReward_def upsert_True Txn_GetRefund_def tree_logs_def Txn_HasSuicided_def
        trees_okD [OF assms(1)] getStateObject_insert [OF assms(1)] stateObject_Copy_def upd_account_def newStateObject_def split: option.splits if_splits)
qed

lemma reachable_at_rest:
  assumes "reachable X T forks ctx snap t" and "trees_ok T" and "ctx_ok ctx" and "EIP150 forks"
  shows "at_rest T snap t"
  using assms(1)
proof induction
  case reach_new
  show ?case
    by (simp add: at_rest_def NewTransition_def SetRuntime_def newTxn_def Txn_GetRefund_def tree_logs_def Txn_HasSuicided_def
        getStateObject_def trees_okD [OF assms(2)] split: option.split sum.split)
next
  case (reach_Write t msg r t')
  from reachable_inv [OF reach_Write.hyps(1) assms(2-4)] have "gas_inv T t" by blast
  then show ?case using reach_Write.hyps(2) reach_Write.IH reach_Write.hyps(3) by (rule Write_at_rest)
next
  case (reach_reward t v a)
  show ?case using assms(2) reach_reward.IH by (rule reward_at_rest)
next
  case (reach_hash t helper)
  then show ?case by (simp add: at_rest_def SetGetHash_def)
qed

section \<open>Running no code\<close>

lemma EVM_Run_empty:
  assumes "ct_Code c = []"
  shows "EVM_Run X H c h config = Ret (mk_result [] (ct_Gas c) None, h)"
proof -
  obtain b where b: "bitmap_setCode X s_empty [] = Ret b" using bitmap_setCode_spec [of s_empty X "[]"] by (metis s_ok_empty(1,3))
  have halt: "run_loop X H n (halt s) = Ret (halt s)" for n and s :: "'a state" by (cases n) (simp_all add: halt_def)
  show ?thesis
    using halt assms b by (simp add: EVM_Run_def state_Run_def new_state_def step_def Let_def) (simp add: halt_def)
qed

lemma run_no_code:
  assumes "tn_runtimes t = [RuntimePrecompiled, RuntimeEVM]" and "ct_Code c = []" and "\<not> Precompiled_CanRun c (tn_forks t)"
  shows "Transition_run X H c t = Ret (mk_result [] (ct_Gas c) None, t)"
  using assms by (simp add: Transition_run_def EVM_CanRun_def EVM_Run_empty)

section \<open>Transfers\<close>

text \<open>The transient state of a transfer before it is settled, step by step.\<close>

definition paid :: "ext \<Rightarrow> ('t, 's) trees \<Rightarrow> address \<Rightarrow> address \<Rightarrow> int \<Rightarrow> ('t, 's) txn \<Rightarrow> ('t, 's) txn" where
  "paid X T from to v txn =
     Txn_AddBalance X T to v (snd (Txn_SubBalance X T from v (Txn_TouchAccount X T to (snd (Txn_Snapshot txn)))))"

lemma Transition_Call_plain:
  assumes "trees_ok T" and "tn_runtimes t = [RuntimePrecompiled, RuntimeEVM]" and "Txn_GetCode T (tn_txn t) to = []"
    and "\<And>c. ct_CodeAddress c = to \<Longrightarrow> \<not> Precompiled_CanRun c (tn_forks t)"
    and "0 \<le> v" "v \<le> Txn_GetBalance T (tn_txn t) from"
  shows "Transition_Call X T from to input v g t = Ret (mk_result [] g None, t\<lparr>tn_txn := paid X T from to v (tn_txn t)\<rparr>)"
proof -
  let ?c = "NewContractCall 1 from from to (Some v) g [] input"
  let ?txn = "Txn_TouchAccount X T to (snd (Txn_Snapshot (tn_txn t)))"
  have c: "ct_Depth ?c = 1" "ct_Code ?c = []" "ct_Gas ?c = g" "ct_CodeAddress ?c = to" "ct_Caller ?c = from" "ct_Address ?c = to"
    "ct_Value ?c = Some v"
    by (simp_all add: NewContractCall_def NewContract_def)
  have "Txn_GetBalance T ?txn from = Txn_GetBalance T (tn_txn t) from"
    using balance_take_snapshot [of T t "from"] by (simp add: balance_ops [OF assms(1)] take_snapshot_def)
  then have "fst (Txn_SubBalance X T from v ?txn) = None" using assms(5,6) by (simp add: Txn_SubBalance_def)
  then have "transfer X T from to (Some v) (t\<lparr>tn_txn := ?txn\<rparr>) = (None, t\<lparr>tn_txn := paid X T from to v (tn_txn t)\<rparr>)"
    by (cases "Txn_SubBalance X T from v ?txn") (simp add: transfer_def paid_def)
  then show ?thesis
    using run_no_code [of "t\<lparr>tn_txn := paid X T from to v (tn_txn t)\<rparr>" ?c X] assms(2,3) assms(4) [OF c(4)] c
    by (simp add: Transition_Call_def applyCall_def Let_def case_prod_beta Failed_def)
qed

text \<open>What the checks ask of a transaction, with the fee and the value together.\<close>

definition affordable :: "('t, 's) trees \<Rightarrow> Transaction \<Rightarrow> ('t, 's) transition \<Rightarrow> bool" where
  "affordable T msg t \<longleftrightarrow> length (msg_Input msg) < 2 ^ 63 \<and> Txn_GetNonce T (tn_txn t) (msg_From msg) = msg_Nonce msg \<and>
     msg_GasPrice msg * uint (msg_Gas msg) + msg_Value msg \<le> Txn_GetBalance T (tn_txn t) (msg_From msg) \<and>
     msg_Gas msg \<le> tn_gasPool t \<and> intrinsic_gas msg (Homestead (tn_forks t)) (Istanbul (tn_forks t)) \<le> unat (msg_Gas msg)"

lemma preCheck_affordable:
  assumes "trees_ok T" and "msg_ok msg" and "affordable T msg t"
  shows "preCheck X T msg t =
    (Inr (msg_Gas msg - of_nat (intrinsic_gas msg (Homestead (tn_forks t)) (Istanbul (tn_forks t)))),
     t\<lparr>tn_txn := snd (Txn_SubBalance X T (msg_From msg) (msg_GasPrice msg * uint (msg_Gas msg)) (tn_txn t)),
       tn_gasPool := tn_gasPool t - msg_Gas msg\<rparr>)"
proof -
  let ?fee = "msg_GasPrice msg * uint (msg_Gas msg)"
  define cost where "cost = intrinsic_gas msg (Homestead (tn_forks t)) (Istanbul (tn_forks t))"
  obtain err txn where sb: "Txn_SubBalance X T (msg_From msg) ?fee (tn_txn t) = (err, txn)"
    by (cases "Txn_SubBalance X T (msg_From msg) ?fee (tn_txn t)")
  have le: "?fee + msg_Value msg \<le> Txn_GetBalance T (tn_txn t) (msg_From msg)" using assms(3) by (simp add: affordable_def)
  then have err: "err = None" using sb assms(2) by (auto simp: Txn_SubBalance_def msg_ok_def split: if_splits)
  have bal: "Txn_GetBalance T txn (msg_From msg) = Txn_GetBalance T (tn_txn t) (msg_From msg) - ?fee"
    using balance_SubBalance(1) [OF assms(1)] sb err by simp
  have c: "cost \<le> unat (msg_Gas msg)" using assms(3) by (simp add: affordable_def cost_def)
  then have c64: "cost < 2 ^ 64" using unat_u64_less [of "msg_Gas msg"] by linarith
  then have u: "unat (of_nat cost :: u64) = cost" by (rule unat_u64)
  moreover have "cost \<noteq> 0" by (simp add: cost_def intrinsic_gas_def)
  ultimately have "(of_nat cost :: u64) \<noteq> 0" by (metis unat_0)
  then have "\<not> msg_Gas msg < msg_Gas msg - of_nat cost" using gas_wrap_iff [of "of_nat cost" "msg_Gas msg"] c u by (simp add: word_less_nat_alt)
  moreover have "TransactionGasCost msg (Homestead (tn_forks t)) (Istanbul (tn_forks t)) = Inr (of_nat cost)"
    using TransactionGasCost_eq [of msg] assms(3) c64 by (simp add: affordable_def cost_def)
  ultimately show ?thesis
    using assms(3) le bal
    by (simp add: preCheck_def nonceCheck_def subGasLimitPrice_def subGasPool_def affordable_def Let_def sb err cost_def [symmetric] not_less)
qed

lemma settle_no_refund:
  assumes "trees_ok T" and "Txn_GetRefund T (tn_txn t) = 0" and "c \<le> msg_Gas msg"
  shows "settle X T msg (mk_result [] (msg_Gas msg - c) None) t =
    ((mk_result [] (msg_Gas msg - c) None)\<lparr>res_GasUsed := c\<rparr>,
     addGasPool (msg_Gas msg - c) (t\<lparr>tn_txn :=
       Txn_AddBalance X T (tx_Coinbase (tn_ctx t)) (uint c * msg_GasPrice msg)
        (Txn_AddBalance X T (msg_From msg) (uint (msg_Gas msg - c) * msg_GasPrice msg) (tn_txn t))\<rparr>))"
  using assms by (simp add: settle_def Let_def)

text \<open>The transient state of a settled transfer, before empty accounts are deleted.\<close>

definition plain_txn :: "ext \<Rightarrow> ('t, 's) trees \<Rightarrow> Transaction \<Rightarrow> address \<Rightarrow> address \<Rightarrow> u64 \<Rightarrow> ('t, 's) txn \<Rightarrow> ('t, 's) txn" where
  "plain_txn X T msg to coinbase c txn =
     (let txn = snd (Txn_SubBalance X T (msg_From msg) (msg_GasPrice msg * uint (msg_Gas msg)) (snd (Txn_Snapshot txn)));
          txn = paid X T (msg_From msg) to (msg_Value msg) (Txn_IncrNonce X T (msg_From msg) txn)
      in Txn_AddBalance X T coinbase (uint c * msg_GasPrice msg)
          (Txn_AddBalance X T (msg_From msg) (uint (msg_Gas msg - c) * msg_GasPrice msg) txn))"

lemma money_only_plain:
  assumes "trees_ok T" and "snapshot_ok X (txn_snapshot txn)"
  shows "money_only T txn (paid X T f to v txn)" and "money_only T txn (plain_txn X T msg to cb c txn)"
proof -
  have step: "money_only T txn u \<Longrightarrow> money_only T txn (Txn_AddBalance X T a w u)"
    "money_only T txn u \<Longrightarrow> money_only T txn (snd (Txn_SubBalance X T a w u))"
    "money_only T txn u \<Longrightarrow> money_only T txn (Txn_IncrNonce X T a u)"
    "money_only T txn u \<Longrightarrow> money_only T txn (Txn_TouchAccount X T a u)"
    "money_only T txn u \<Longrightarrow> money_only T txn (snd (Txn_Snapshot u))" for a w u
    using money_only_ops [OF assms(1), of X u] assms(2) by (auto elim: money_only_trans simp: money_only_def)
  have "money_only T txn txn" by (simp add: money_only_def)
  then show "money_only T txn (paid X T f to v txn)" "money_only T txn (plain_txn X T msg to cb c txn)"
    unfolding plain_txn_def paid_def Let_def by (intro step; assumption)+
qed

text \<open>Balances and nonces, also when sender, recipient and coinbase coincide.\<close>

lemma balance_plain:
  assumes "trees_ok T" and "msg_ok msg" and "c \<le> msg_Gas msg"
    and "msg_GasPrice msg * uint (msg_Gas msg) + msg_Value msg \<le> Txn_GetBalance T txn (msg_From msg)"
  shows "Txn_GetBalance T (plain_txn X T msg to cb c txn) b = Txn_GetBalance T txn b
      - (if b = msg_From msg then uint c * msg_GasPrice msg + msg_Value msg else 0)
      + (if b = to then msg_Value msg else 0) + (if b = cb then uint c * msg_GasPrice msg else 0)"
    and "Txn_GetNonce T (plain_txn X T msg to cb c txn) b = Txn_GetNonce T txn b + (if b = msg_From msg then 1 else 0)"
proof -
  let ?p = "msg_GasPrice msg" and ?G = "uint (msg_Gas msg)" and ?v = "msg_Value msg" and ?f = "msg_From msg"
  have G: "uint (msg_Gas msg - c) = ?G - uint c" using assms(3) uint_sub_lem [of c "msg_Gas msg"] by (simp add: word_le_def)
  have pos: "0 \<le> ?p" "0 \<le> ?v" "0 \<le> ?p * ?G" "uint c * ?p \<le> ?p * ?G" "0 \<le> uint c * ?p"
    using assms(2,3) by (simp_all add: msg_ok_def word_le_def mult.commute mult_left_mono)
  have add: "Txn_GetBalance T (Txn_AddBalance X T a w u) b = Txn_GetBalance T u b + (if b = a then w else 0)" if "0 \<le> w" for a w u b
    using that Txn_GetBalance_nonneg [of T u a] by (simp add: balance_ops [OF assms(1)])
  have sub: "Txn_GetBalance T (snd (Txn_SubBalance X T a w u)) b = Txn_GetBalance T u b - (if b = a then w else 0)"
    if "w \<le> Txn_GetBalance T u a" for a w u b
    using that balance_SubBalance(1) [OF assms(1), of X a w u "snd (Txn_SubBalance X T a w u)" b] by (auto simp: Txn_SubBalance_def)
  have snap: "getStateObject T (snd (Txn_Snapshot u)) = getStateObject T u" for u
    by (rule ext, rule getStateObject_cong) (simp_all add: Txn_Snapshot_def)
  then have snapb: "Txn_GetBalance T (snd (Txn_Snapshot u)) b = Txn_GetBalance T u b" for u b by (simp add: Txn_GetBalance_def)
  show "Txn_GetBalance T (plain_txn X T msg to cb c txn) b = Txn_GetBalance T txn b
      - (if b = ?f then uint c * ?p + ?v else 0) + (if b = to then ?v else 0) + (if b = cb then uint c * ?p else 0)"
    using pos assms(4) unfolding plain_txn_def paid_def Let_def
    by (simp add: add sub snapb balance_ops(3,6) [OF assms(1)] G algebra_simps)
  have n: "Txn_GetNonce T (upsertAccount X T a True (upd_account f) u) b =
      (if b = a then acc_Nonce (f (so_Account (object_or_new X T u a))) else Txn_GetNonce T u b)" for a f u b
    using upsert_get(1) [of T "upd_account f" X a u b] assms(1) by (simp add: upd_account_def)
  have nonce: "Txn_GetNonce T (Txn_AddBalance X T a w u) b = Txn_GetNonce T u b"
    "Txn_GetNonce T (snd (Txn_SubBalance X T a w u)) b = Txn_GetNonce T u b"
    "Txn_GetNonce T (Txn_TouchAccount X T a u) b = Txn_GetNonce T u b"
    "Txn_GetNonce T (Txn_IncrNonce X T a u) b = Txn_GetNonce T u b + (if b = a then 1 else 0)"
    "Txn_GetNonce T (snd (Txn_Snapshot u)) b = Txn_GetNonce T u b" for a w u b
    using upsert_get(1) [OF assms(1), of "\<lambda>obj. obj" X a u b]
    by (simp_all add: Txn_AddBalance_def Txn_SubBalance_def Txn_TouchAccount_def Txn_IncrNonce_def n object_or_new_nonce)
      (simp add: Txn_GetNonce_def snap)
  show "Txn_GetNonce T (plain_txn X T msg to cb c txn) b = Txn_GetNonce T txn b + (if b = ?f then 1 else 0)"
    unfolding plain_txn_def paid_def Let_def by (simp add: nonce)
qed

lemma apply_msg_plain:
  assumes "gas_inv T t" and "at_rest T snap t" and "snapshot_ok X snap" and "msg_ok msg" and "affordable T msg t"
    and "msg_To msg = Some to" and "Txn_GetCode T (tn_txn t) to = []"
    and "\<And>c. ct_CodeAddress c = to \<Longrightarrow> \<not> Precompiled_CanRun c (tn_forks t)"
    and c: "c = of_nat (intrinsic_gas msg (Homestead (tn_forks t)) (Istanbul (tn_forks t)))"
  shows "applyImpl X T msg t =
    Ret (Inr ((mk_result [] (msg_Gas msg - c) None)\<lparr>res_GasUsed := c\<rparr>),
      (with_msg msg t)\<lparr>tn_txn := plain_txn X T msg to (tx_Coinbase (tn_ctx t)) c (tn_txn t), tn_gasPool := tn_gasPool t - c\<rparr>)"
proof -
  have T: "trees_ok T" using assms(1) by (simp add: gas_inv_def supply_inv_def)
  let ?s = "take_snapshot t" and ?fee = "msg_GasPrice msg * uint (msg_Gas msg)"
  let ?txn1 = "snd (Txn_SubBalance X T (msg_From msg) ?fee (tn_txn ?s))"
  let ?t1 = "?s\<lparr>tn_txn := ?txn1, tn_gasPool := tn_gasPool t - msg_Gas msg\<rparr>"
  let ?t2 = "(with_msg msg ?t1)\<lparr>tn_txn := Txn_IncrNonce X T (msg_From msg) ?txn1\<rparr>"
  have s: "tn_forks ?s = tn_forks t" "tn_gasPool ?s = tn_gasPool t" "tn_ctx ?s = tn_ctx t" "tn_runtimes ?s = tn_runtimes t"
    by (simp_all add: take_snapshot_def)
  have sn: "snapshot_ok X (txn_snapshot (tn_txn t))" using assms(2,3) by (simp add: at_rest_def)
  have m0: "money_only T (tn_txn t) (tn_txn ?s)" using money_only_ops(5) [OF T sn] by (simp add: take_snapshot_def)
  have o: "getStateObject T (tn_txn ?s) = getStateObject T (tn_txn t)"
    by (rule ext, rule getStateObject_cong) (simp_all add: take_snapshot_def Txn_Snapshot_def)
  then have "affordable T msg ?s"
    using assms(5) by (simp add: affordable_def s Txn_GetNonce_def)
  from preCheck_affordable [OF T assms(4) this, of X]
  have pc: "preCheck X T msg ?s = (Inr (msg_Gas msg - c), ?t1)" by (simp add: s c)
  have sn1: "snapshot_ok X (txn_snapshot (tn_txn ?s))" "snapshot_ok X (txn_snapshot ?txn1)"
    using sn m0 money_only_ops(2) [OF T, of X "tn_txn ?s" "msg_From msg" ?fee] by (simp_all add: money_only_def)
  have m: "money_only T (tn_txn t) (tn_txn ?t2)"
    using money_only_trans [OF money_only_trans [OF m0 money_only_ops(2) [OF T sn1(1)]] money_only_ops(3) [OF T sn1(2)]] by simp
  have bal: "Txn_GetBalance T (tn_txn ?t2) (msg_From msg) = Txn_GetBalance T (tn_txn t) (msg_From msg) - ?fee"
    using assms(4,5) balance_SubBalance(1) [OF T, of X "msg_From msg" ?fee "tn_txn ?s" ?txn1 "msg_From msg"]
    by (auto simp: balance_ops [OF T] affordable_def msg_ok_def Txn_SubBalance_def)
  have ex: "Transition_Call X T (msg_From msg) to (msg_Input msg) (msg_Value msg) (msg_Gas msg - c) ?t2 =
      Ret (mk_result [] (msg_Gas msg - c) None, ?t2\<lparr>tn_txn := paid X T (msg_From msg) to (msg_Value msg) (tn_txn ?t2)\<rparr>)"
    using assms(2,7,8) m bal assms(4,5) s
    by (intro Transition_Call_plain [OF T]) (auto simp: with_msg_def money_only_def at_rest_def msg_ok_def affordable_def)
  let ?t3 = "?t2\<lparr>tn_txn := paid X T (msg_From msg) to (msg_Value msg) (tn_txn ?t2)\<rparr>"
  have le: "c \<le> msg_Gas msg"
    using assms(5) unat_u64_less [of "msg_Gas msg"] by (simp add: affordable_def c word_le_nat_alt unat_u64)
  have "txn_snapshot (tn_txn ?t2) = txn_snapshot (tn_txn t)" using m by (simp only: money_only_def)
  then have r: "Txn_GetRefund T (tn_txn ?t3) = 0"
    using money_only_plain(1) [OF T, of X "tn_txn ?t2" "msg_From msg" to "msg_Value msg"] sn m assms(2)
    by (simp add: money_only_def at_rest_def)
  have eq: "applyImpl X T msg t = bnd (apply_msg X T msg ?s) (\<lambda>(r, t').
      case r of Inl err \<Rightarrow> bnd (revert (length (txn_snapshots (tn_txn t))) t') (\<lambda>t. Ret (Inl err, t))
      | Inr result \<Rightarrow> Ret (Inr result, t'))"
    by (simp add: applyImpl_def take_snapshot_def Txn_Snapshot_def)
  have "execute X T msg (msg_Gas msg - c) (with_msg msg ?t1) = Ret (mk_result [] (msg_Gas msg - c) None, ?t3)"
    using ex assms(6) by (simp add: execute_def with_msg_def)
  then show ?thesis
    using settle_no_refund [OF T r le, of X]
    by (simp add: eq apply_msg_eq pc) (simp add: with_msg_def addGasPool_def plain_txn_def take_snapshot_def Let_def)
qed

text \<open>
  C5: A transfer that can be paid for goes through. At any point of a block, for a transaction whose sender
  has the stated nonce and can afford gas and value, whose gas fits into the block and covers the
  intrinsic gas, and whose recipient has no code and is no precompiled contract, \<open>Write\<close> returns a receipt
  without logs and output, successful since Byzantium, with exactly the intrinsic gas as gas used. The value
  moves from sender to recipient, the fee from sender to coinbase, and the sender's nonce grows by one; no
  other balance or nonce changes. Sender, recipient and coinbase may coincide.
\<close>

theorem plain_transfer:
  assumes "reachable X T forks ctx snap t" and "trees_ok T" and "ctx_ok ctx" and "EIP150 forks" and "snapshot_ok X snap"
    and "msg_ok msg" and "affordable T msg t" and "msg_To msg = Some to"
    and "Txn_GetCode T (tn_txn t) to = []" and "contracts to = None"
  shows "\<exists>t'. Write X T msg t = Ret (Inr \<lparr>rc_Logs = [], rc_Success = Byzantium forks,
        rc_GasUsed = of_nat (intrinsic_gas msg (Homestead forks) (Istanbul forks)), rc_ContractAddress = 0, rc_ReturnValue = []\<rparr>, t') \<and>
      (\<forall>b. Txn_GetBalance T (tn_txn t') b =
        (let fee = int (intrinsic_gas msg (Homestead forks) (Istanbul forks)) * msg_GasPrice msg
         in Txn_GetBalance T (tn_txn t) b - (if b = msg_From msg then fee + msg_Value msg else 0)
              + (if b = to then msg_Value msg else 0) + (if b = tx_Coinbase (tn_ctx t) then fee else 0))) \<and>
      (\<forall>b. Txn_GetNonce T (tn_txn t') b = Txn_GetNonce T (tn_txn t) b + (if b = msg_From msg then 1 else 0))"
proof -
  note r = reachable_inv [OF assms(1-4)] reachable_at_rest [OF assms(1-4)]
  define cost where "cost = intrinsic_gas msg (Homestead forks) (Istanbul forks)"
  define c :: u64 where "c = of_nat cost"
  let ?txn = "plain_txn X T msg to (tx_Coinbase (tn_ctx t)) c (tn_txn t)"
  have inv: "gas_inv T t" "tn_forks t = forks" "txn_ok T (tn_txn t)" using r(1) by (auto simp: gas_inv_def supply_inv_def)
  have cost: "cost \<le> unat (msg_Gas msg)" using assms(7) inv by (simp add: affordable_def cost_def)
  then have u: "unat c = cost" using unat_u64_less [of "msg_Gas msg"] by (simp add: c_def unat_u64)
  have le: "c \<le> msg_Gas msg" using cost u by (simp add: word_le_nat_alt)
  have a: "applyImpl X T msg t = Ret (Inr ((mk_result [] (msg_Gas msg - c) None)\<lparr>res_GasUsed := c\<rparr>),
      (with_msg msg t)\<lparr>tn_txn := ?txn, tn_gasPool := tn_gasPool t - c\<rparr>)"
    using assms(10) inv(2) by (intro apply_msg_plain [OF inv(1) r(2) assms(5-9)]) (simp_all add: Precompiled_CanRun_def c_def cost_def)
  have m: "money_only T (tn_txn t) ?txn" using money_only_plain(2) [OF assms(2)] r(2) assms(5) by (simp add: at_rest_def)
  then have ok: "txn_ok T (snd (Txn_Logs T ?txn))" using inv(3) txn_ok_aux(5) [OF assms(2)] by (simp add: money_only_def)
  let ?flag = "if Byzantium forks then True else EIP158 forks"
  obtain txn where cl: "CleanDeleteObjects X T ?flag (snd (Txn_Logs T ?txn)) = Ret txn"
    using CleanDeleteObjects_spec [OF assms(2) ok] by blast
  have "\<not> Txn_HasSuicided T (snd (Txn_Logs T ?txn)) b" for b
    using m r(2) by (simp add: Txn_HasSuicided_def getStateObject_aux(5) [OF assms(2)] money_only_def at_rest_def)
  note same = clean_balances [OF assms(2) ok cl this]
  have logs: "fst (Txn_Logs T ?txn) = []"
    using m r(2) by (auto simp: Txn_Logs_def money_only_def at_rest_def split: option.split)
  let ?t' = "(with_msg msg t)\<lparr>tn_txn := txn, tn_gasPool := tn_gasPool t - c, tn_totalGas := tn_totalGas t + c\<rparr>"
  have w: "Write X T msg t = Ret (Inr \<lparr>rc_Logs = [], rc_Success = Byzantium forks, rc_GasUsed = c, rc_ContractAddress = 0,
      rc_ReturnValue = []\<rparr>, ?t')"
    using cl logs inv(2) assms(8) by (cases "Byzantium forks") (simp_all add: Write_def a Let_def case_prod_beta with_msg_def Failed_def)
  have "msg_GasPrice msg * uint (msg_Gas msg) + msg_Value msg \<le> Txn_GetBalance T (tn_txn t) (msg_From msg)"
    using assms(7) by (simp add: affordable_def)
  note b = balance_plain [OF assms(2,6) le this, of X to "tx_Coinbase (tn_ctx t)"]
  have "uint c = int cost" using u by (metis uint_nat)
  moreover have "Txn_GetNonce T (snd (Txn_Logs T ?txn)) a = Txn_GetNonce T ?txn a" for a
    by (simp add: Txn_GetNonce_def getStateObject_aux(5) [OF assms(2)])
  ultimately show ?thesis using w b unfolding cost_def [symmetric] c_def [symmetric]
    by (intro exI [of _ ?t']) (simp add: same balance_aux(5) [OF assms(2)])
qed

lemma world0_fields:
  "txn_snapshot (tn_txn world0) = snap0" "tn_forks world0 = Forks_At AllForksEnabled 1" "tn_gasPool world0 = 100000"
  "Txn_GetBalance al_trees (tn_txn world0) 0xaa = 1000000" "Txn_GetNonce al_trees (tn_txn world0) 0xaa = 0"
  "Txn_GetCode al_trees (tn_txn world0) 0xbb = []" "tx_Coinbase (tn_ctx world0) = 0xcc"
  by (simp_all add: world0_def NewTransition_def SetRuntime_def Txn_GetBalance_def Txn_GetNonce_def Txn_GetCode_def
      getStateObject_def newTxn_def al_trees_def al_radix_def snap0_def Account_Copy_def ctx0_def)

theorem plain_transfer_witness:
  "reachable ext0 al_trees (Forks_At AllForksEnabled 1) ctx0 snap0 world0 \<and> trees_ok al_trees \<and> affordable al_trees msg0 world0 \<and>
   (\<exists>r t'. Write ext0 al_trees msg0 world0 = Ret (Inr r, t') \<and> rc_Success r \<and> rc_GasUsed r = 21000 \<and>
      Txn_GetBalance al_trees (tn_txn t') 0xaa = 974000)"
proof -
  have aff: "affordable al_trees msg0 world0"
    by (simp add: affordable_def world0_fields msg0_def intrinsic_gas_def)
  have none: "contracts 0xbb = None" by code_simp
  have "snapshot_ok ext0 snap0" by (simp add: snapshot_ok_def snap0_def)
  from plain_transfer [OF reachable0 trees_ok_al ctx_ok0 EIP150_0 this msg_ok0 aff _ _ none] show ?thesis
    using reachable0 trees_ok_al aff
    by (auto simp: msg0_def world0_fields intrinsic_gas_def Forks_At_AllForksEnabled)
qed

end
