(* ===== verification/Log_Slices.thy ===== *)
theory Log_Slices
  imports Txn_Props
begin

text \<open>
  The logs of the transient state at the level of Go slices. \<open>EmitLog\<close> appends to the slice stored under \<open>logIndex\<close>, and
  a snapshot of the tree keeps the slice, not a copy of its array: an append that finds room in the array writes into an
  array that snapshots share. \<open>Txn\<close> has lists of logs instead. Here arrays are on a heap, and the
  two levels are shown to agree as long as reverts are properly nested; a revert out of order can overwrite a log that another snapshot
  still holds.
\<close>

section \<open>Slices on a heap\<close>

text \<open>An array is a list of pointers, nil where nothing was written; its length is the capacity of the slices on it.\<close>

record log_slice =
  sl_array :: nat
  sl_len :: nat

record log_state =
  ls_heap :: "log option list list"
  ls_logs :: "log_slice option"
  ls_snapshots :: "log_slice option list"

definition slice_cap :: "log_state \<Rightarrow> log_slice \<Rightarrow> nat" where
  "slice_cap s l = length (ls_heap s ! sl_array l)"

definition slice_logs :: "log_state \<Rightarrow> log_slice \<Rightarrow> log list" where
  "slice_logs s l = map (\<lambda>p. case p of Some g \<Rightarrow> g | None \<Rightarrow> \<lparr>lg_Address = 0, lg_Topics = [], lg_Data = []\<rparr>)
     (take (sl_len l) (ls_heap s ! sl_array l))"

text \<open>
  The built-in \<open>append\<close> for one element: in place if there is room, and otherwise in a new array, with the capacity that the runtime chooses
  for the length that is needed.
\<close>

definition slice_append :: "(nat \<Rightarrow> nat) \<Rightarrow> log \<Rightarrow> log_slice \<Rightarrow> log_state \<Rightarrow> log_slice \<times> log_state" where
  "slice_append grow g l s =
     (let arr = ls_heap s ! sl_array l; n = sl_len l in
      if n < length arr then
        (l\<lparr>sl_len := n + 1\<rparr>, s\<lparr>ls_heap := (ls_heap s)[sl_array l := arr[n := Some g]]\<rparr>)
      else
        (\<lparr>sl_array = length (ls_heap s), sl_len = n + 1\<rparr>,
         s\<lparr>ls_heap := ls_heap s @ [take n arr @ [Some g] @ replicate (grow (n + 1) - (n + 1)) None]\<rparr>))"

text \<open>\<open>EmitLog\<close> and \<open>AddLog\<close> from the access to the tree on; without an entry they start with \<open>[]*Log{}\<close>, on an array of its own.\<close>

definition slice_EmitLog :: "(nat \<Rightarrow> nat) \<Rightarrow> log \<Rightarrow> log_state \<Rightarrow> log_state" where
  "slice_EmitLog grow g s =
     (let (l, s) = (case ls_logs s of
            None \<Rightarrow> (\<lparr>sl_array = length (ls_heap s), sl_len = 0\<rparr>, s\<lparr>ls_heap := ls_heap s @ [[]]\<rparr>)
          | Some l \<Rightarrow> (l, s));
          (l, s) = slice_append grow g l s
      in s\<lparr>ls_logs := Some l\<rparr>)"

definition slice_Logs :: "log_state \<Rightarrow> log list \<times> log_state" where
  "slice_Logs s = (case ls_logs s of None \<Rightarrow> ([], s) | Some l \<Rightarrow> (slice_logs s l, s\<lparr>ls_logs := None\<rparr>))"

definition slice_Snapshot :: "log_state \<Rightarrow> nat \<times> log_state" where
  "slice_Snapshot s = (length (ls_snapshots s), s\<lparr>ls_snapshots := ls_snapshots s @ [ls_logs s]\<rparr>)"

definition slice_Revert :: "nat \<Rightarrow> log_state \<Rightarrow> log_state go" where
  "slice_Revert i s =
     (if length (ls_snapshots s) < i then Panic
      else if i = length (ls_snapshots s) then Panic
      else Ret (s\<lparr>ls_logs := ls_snapshots s ! i\<rparr>))"

definition current_logs :: "log_state \<Rightarrow> log list" where
  "current_logs s = (case ls_logs s of None \<Rightarrow> [] | Some l \<Rightarrow> slice_logs s l)"

section \<open>Programs\<close>

text \<open>Operations on logs; a block is undone at its end.\<close>

datatype log_op = LogEmit log | LogTake | LogSnapshot | LogBlock "log_op list"

fun run_slices :: "(nat \<Rightarrow> nat) \<Rightarrow> log_op list \<Rightarrow> log_state \<Rightarrow> log_state go" where
  "run_slices grow [] s = Ret s"
| "run_slices grow (LogEmit g # ops) s = run_slices grow ops (slice_EmitLog grow g s)"
| "run_slices grow (LogTake # ops) s = run_slices grow ops (snd (slice_Logs s))"
| "run_slices grow (LogSnapshot # ops) s = run_slices grow ops (snd (slice_Snapshot s))"
| "run_slices grow (LogBlock body # ops) s =
     (let (i, s1) = slice_Snapshot s in
      bnd (run_slices grow body s1) (\<lambda>s2. bnd (slice_Revert i s2) (run_slices grow ops)))"

fun run_txn :: "('t, 's) trees \<Rightarrow> log_op list \<Rightarrow> ('t, 's) txn \<Rightarrow> ('t, 's) txn go" where
  "run_txn T [] txn = Ret txn"
| "run_txn T (LogEmit g # ops) txn = run_txn T ops (Txn_EmitLog T (lg_Address g) (lg_Topics g) (lg_Data g) txn)"
| "run_txn T (LogTake # ops) txn = run_txn T ops (snd (Txn_Logs T txn))"
| "run_txn T (LogSnapshot # ops) txn = run_txn T ops (snd (Txn_Snapshot txn))"
| "run_txn T (LogBlock body # ops) txn =
     (let (i, t1) = Txn_Snapshot txn in
      bnd (run_txn T body t1) (\<lambda>t2. bnd (Txn_RevertToSnapshot i t2) (run_txn T ops)))"

section \<open>The frame of an append\<close>

text \<open>A slice of the heap, and one whose elements no append to the current slice can reach.\<close>

definition slice_ok :: "log_state \<Rightarrow> log_slice \<Rightarrow> bool" where
  "slice_ok s l \<longleftrightarrow> sl_array l < length (ls_heap s) \<and> sl_len l \<le> slice_cap s l"

definition guarded :: "log_state \<Rightarrow> log_slice \<Rightarrow> bool" where
  "guarded s d \<longleftrightarrow> slice_ok s d \<and> (\<forall>l. ls_logs s = Some l \<longrightarrow> sl_array d = sl_array l \<longrightarrow> sl_len d \<le> sl_len l)"

text \<open>What a program does: slices guarded at its start stay guarded and keep their logs, and the list of snapshots grows.\<close>

definition framed :: "log_state \<Rightarrow> log_state \<Rightarrow> bool" where
  "framed s s' \<longleftrightarrow> (\<forall>d. guarded s d \<longrightarrow> guarded s' d \<and> slice_logs s' d = slice_logs s d) \<and>
     (\<forall>l. ls_logs s' = Some l \<longrightarrow> slice_ok s' l) \<and> (\<exists>xs. ls_snapshots s' = ls_snapshots s @ xs)"

definition log_ok :: "log_state \<Rightarrow> bool" where
  "log_ok s \<longleftrightarrow> (\<forall>l. ls_logs s = Some l \<longrightarrow> slice_ok s l)"

lemma framed_trans: "framed a b \<Longrightarrow> framed b c \<Longrightarrow> framed a c"
  by (fastforce simp: framed_def)

lemma guarded_current: "log_ok s \<Longrightarrow> ls_logs s = Some l \<Longrightarrow> guarded s l"
  by (simp add: guarded_def log_ok_def)

lemma append_frame:
  assumes "slice_ok s l" and "slice_append grow g l s = (l', s')"
  shows "slice_ok s' l' \<and> slice_logs s' l' = slice_logs s l @ [g] \<and> ls_snapshots s' = ls_snapshots s \<and>
    (\<forall>d. slice_ok s d \<longrightarrow> (sl_array d = sl_array l \<longrightarrow> sl_len d \<le> sl_len l) \<longrightarrow>
      slice_ok s' d \<and> slice_logs s' d = slice_logs s d \<and> (sl_array d = sl_array l' \<longrightarrow> sl_len d \<le> sl_len l'))"
proof (cases "sl_len l < length (ls_heap s ! sl_array l)")
  case True
  then show ?thesis
    using assms
    by (auto simp: slice_append_def Let_def slice_ok_def slice_cap_def slice_logs_def nth_list_update take_Suc_conv_app_nth
        split: if_splits)
next
  case False
  then have "sl_len l = length (ls_heap s ! sl_array l)" using assms(1) by (simp add: slice_ok_def slice_cap_def)
  then show ?thesis
    using assms(2) by (auto simp: slice_append_def Let_def slice_ok_def slice_cap_def slice_logs_def nth_append)
qed

lemma EmitLog_frame:
  assumes "log_ok s"
  shows "framed s (slice_EmitLog grow g s)" and "log_ok (slice_EmitLog grow g s)"
    and "current_logs (slice_EmitLog grow g s) = current_logs s @ [g]"
proof -
  define p where "p = (case ls_logs s of
      None \<Rightarrow> (\<lparr>sl_array = length (ls_heap s), sl_len = 0\<rparr>, s\<lparr>ls_heap := ls_heap s @ [[]]\<rparr>) | Some l \<Rightarrow> (l, s))"
  obtain l s1 where p': "p = (l, s1)" by force
  have 1: "slice_ok s1 l" "slice_logs s1 l = current_logs s" "ls_snapshots s1 = ls_snapshots s"
    and d: "guarded s d \<Longrightarrow> slice_ok s1 d \<and> slice_logs s1 d = slice_logs s d \<and> (sl_array d = sl_array l \<longrightarrow> sl_len d \<le> sl_len l)" for d
    using p' assms unfolding p_def
    by (auto simp: slice_ok_def slice_cap_def slice_logs_def current_logs_def log_ok_def guarded_def nth_append split: option.splits)
  obtain l' s' where a: "slice_append grow g l s1 = (l', s')" by force
  have e: "slice_EmitLog grow g s = s'\<lparr>ls_logs := Some l'\<rparr>"
    using p' a unfolding p_def by (simp add: slice_EmitLog_def)
  have same: "slice_ok (s'\<lparr>ls_logs := x\<rparr>) q = slice_ok s' q" "slice_logs (s'\<lparr>ls_logs := x\<rparr>) q = slice_logs s' q" for x q
    by (simp_all add: slice_ok_def slice_cap_def slice_logs_def)
  note f = append_frame [OF 1(1) a]
  show "log_ok (slice_EmitLog grow g s)" "current_logs (slice_EmitLog grow g s) = current_logs s @ [g]"
    using f 1(2) by (simp_all add: e log_ok_def current_logs_def same)
  show "framed s (slice_EmitLog grow g s)"
    using f d 1(3) by (auto simp: e framed_def guarded_def same)
qed

lemma other_frame:
  assumes "log_ok s"
  shows "framed s (snd (slice_Logs s))" "log_ok (snd (slice_Logs s))" "current_logs (snd (slice_Logs s)) = []"
    and "fst (slice_Logs s) = current_logs s"
    and "framed s (snd (slice_Snapshot s))" "log_ok (snd (slice_Snapshot s))" "current_logs (snd (slice_Snapshot s)) = current_logs s"
  using assms
  by (auto simp: slice_Logs_def slice_Snapshot_def framed_def guarded_def log_ok_def slice_ok_def slice_cap_def slice_logs_def current_logs_def
      split: option.split)

text \<open>Reverting at the end of a block.\<close>

lemma Revert_frame:
  assumes "log_ok s" and "framed (snd (slice_Snapshot s)) s2"
  shows "\<exists>s3. slice_Revert (fst (slice_Snapshot s)) s2 = Ret s3 \<and> framed s s3 \<and> log_ok s3 \<and> current_logs s3 = current_logs s"
proof -
  let ?s1 = "snd (slice_Snapshot s)" and ?s3 = "s2\<lparr>ls_logs := ls_logs s\<rparr>"
  obtain xs where xs: "ls_snapshots s2 = ls_snapshots s @ [ls_logs s] @ xs"
    using assms(2) by (auto simp: framed_def slice_Snapshot_def)
  have g: "guarded ?s1 d = guarded s d" "slice_logs ?s1 d = slice_logs s d" for d
    by (simp_all add: slice_Snapshot_def guarded_def slice_ok_def slice_cap_def slice_logs_def)
  have same: "slice_ok (s2\<lparr>ls_logs := x\<rparr>) d = slice_ok s2 d" "slice_logs (s2\<lparr>ls_logs := x\<rparr>) d = slice_logs s2 d" for d x
    by (simp_all add: slice_ok_def slice_cap_def slice_logs_def)
  have k: "guarded s d \<Longrightarrow> slice_ok s2 d \<and> slice_logs s2 d = slice_logs s d" for d
    using assms(2) g unfolding framed_def guarded_def by metis
  have cur: "ls_logs s = Some l \<Longrightarrow> slice_ok s2 l \<and> slice_logs s2 l = slice_logs s l" for l
    using k guarded_current [OF assms(1)] by blast
  have "framed s ?s3" using k cur xs by (auto simp: framed_def guarded_def same)
  moreover have "log_ok ?s3" "current_logs ?s3 = current_logs s"
    using cur by (auto simp: log_ok_def current_logs_def same split: option.split)
  moreover have "slice_Revert (fst (slice_Snapshot s)) s2 = Ret ?s3"
    using xs by (simp add: slice_Revert_def slice_Snapshot_def nth_append)
  ultimately show ?thesis by blast
qed

section \<open>The lists of the model\<close>

lemma tree_logs_ops:
  assumes "trees_ok T"
  shows "tree_logs T (Txn_EmitLog T (lg_Address g) (lg_Topics g) (lg_Data g) txn) = tree_logs T txn @ [g]"
    and "tree_logs T (AddLog T g txn) = tree_logs T txn @ [g]"
    and "tree_logs T (snd (Txn_Logs T txn)) = []" and "fst (Txn_Logs T txn) = tree_logs T txn"
    and "tree_logs T (snd (Txn_Snapshot txn)) = tree_logs T txn"
  by (auto simp: tree_logs_def Txn_EmitLog_def AddLog_def Txn_Logs_def Txn_Snapshot_def trees_okD [OF assms] Let_def split: option.split)

definition agree :: "('t, 's) trees \<Rightarrow> log_state \<Rightarrow> ('t, 's) txn \<Rightarrow> bool" where
  "agree T s txn \<longleftrightarrow> log_ok s \<and> current_logs s = tree_logs T txn"

lemma run_agree:
  assumes "trees_ok T" and "agree T s txn"
  shows "\<exists>s' txn'. run_slices grow ops s = Ret s' \<and> run_txn T ops txn = Ret txn' \<and> agree T s' txn' \<and> framed s s' \<and>
    (\<exists>xs. txn_snapshots txn' = txn_snapshots txn @ xs)"
  using assms(2)
proof (induction grow ops s arbitrary: txn rule: run_slices.induct)
  case (1 grow s)
  then show ?case by (auto simp: framed_def agree_def log_ok_def)
next
  case (2 grow g ops s)
  let ?t = "Txn_EmitLog T (lg_Address g) (lg_Topics g) (lg_Data g) txn"
  have "log_ok s" using 2(2) by (simp add: agree_def)
  note f = EmitLog_frame [OF this, of grow g]
  have "agree T (slice_EmitLog grow g s) ?t" using 2(2) f by (simp add: agree_def tree_logs_ops [OF assms(1)])
  from 2(1) [OF this] show ?case using framed_trans [OF f(1)] by fastforce
next
  case (3 grow ops s)
  have "log_ok s" using 3(2) by (simp add: agree_def)
  note f = other_frame [OF this]
  have "agree T (snd (slice_Logs s)) (snd (Txn_Logs T txn))" using f by (simp add: agree_def tree_logs_ops [OF assms(1)])
  moreover have "txn_snapshots (snd (Txn_Logs T txn)) = txn_snapshots txn" by (simp add: Txn_Logs_def split: option.split)
  ultimately show ?case using 3(1) framed_trans [OF f(1)] by fastforce
next
  case (4 grow ops s)
  have "log_ok s" using 4(2) by (simp add: agree_def)
  note f = other_frame [OF this]
  have "agree T (snd (slice_Snapshot s)) (snd (Txn_Snapshot txn))" using 4(2) f by (simp add: agree_def tree_logs_ops [OF assms(1)])
  from 4(1) [OF this] show ?case using framed_trans [OF f(5)] by (fastforce simp: Txn_Snapshot_def)
next
  case (5 grow body ops s)
  let ?s1 = "snd (slice_Snapshot s)" and ?t1 = "snd (Txn_Snapshot txn)"
  have ok: "log_ok s" using 5(3) by (simp add: agree_def)
  have "agree T ?s1 ?t1" using 5(3) other_frame [OF ok] by (simp add: agree_def tree_logs_ops [OF assms(1)])
  from 5(1) [OF refl _ this] obtain s2 t2 xs where
    2: "run_slices grow body ?s1 = Ret s2" "run_txn T body ?t1 = Ret t2" "framed ?s1 s2" "txn_snapshots t2 = txn_snapshots ?t1 @ xs"
    by (metis prod.collapse)
  from Revert_frame [OF ok 2(3)] obtain s3 where
    3: "slice_Revert (fst (slice_Snapshot s)) s2 = Ret s3" "framed s s3" "log_ok s3" "current_logs s3 = current_logs s" by blast
  let ?t3 = "t2\<lparr>txn_txn := txn_txn txn\<rparr>"
  have t3: "Txn_RevertToSnapshot (fst (Txn_Snapshot txn)) t2 = Ret ?t3"
    using 2(4) by (simp add: Txn_RevertToSnapshot_def Txn_Snapshot_def nth_append)
  have "tree_logs T ?t3 = tree_logs T txn" by (simp add: tree_logs_def)
  then have "agree T s3 ?t3" using 3 5(3) by (simp add: agree_def)
  from 5(2) [OF refl _ this] obtain s4 t4 ys where
    4: "run_slices grow ops s3 = Ret s4" "run_txn T ops ?t3 = Ret t4" "agree T s4 t4" "framed s3 s4" "txn_snapshots t4 = txn_snapshots t2 @ ys"
    by (metis prod.collapse txn.select_convs(2) txn.surjective txn.update_convs(3))
  have "run_slices grow (LogBlock body # ops) s = Ret s4" "run_txn T (LogBlock body # ops) txn = Ret t4"
    using 2 3 4 t3 by (simp_all add: case_prod_beta)
  moreover have "\<exists>zs. txn_snapshots t4 = txn_snapshots txn @ zs" using 2(4) 4(5) by (simp add: Txn_Snapshot_def)
  ultimately show ?case using 4(3) framed_trans [OF 3(2) 4(4)] by blast
qed

section \<open>Agreement\<close>

text \<open>
  C35: The lists of logs of the model are what the slices of the code hold, whatever capacities the runtime chooses and whatever arrays are
  shared. From states with the same logs, every properly nested program of appends, removals, snapshots and blocks that are undone runs without a
  panic at both levels and ends with the same logs; \<open>Logs\<close> returns the same list.
\<close>

theorem log_slices_refine:
  assumes "trees_ok T" and "log_ok s" and "current_logs s = tree_logs T txn"
  shows "\<exists>s' txn'. run_slices grow ops s = Ret s' \<and> run_txn T ops txn = Ret txn' \<and> log_ok s' \<and>
    current_logs s' = tree_logs T txn' \<and> fst (slice_Logs s') = fst (Txn_Logs T txn')"
proof -
  have "agree T s txn" using assms(2,3) by (simp add: agree_def)
  from run_agree [OF assms(1) this, of grow ops] obtain s' txn' where
    r: "run_slices grow ops s = Ret s'" "run_txn T ops txn = Ret txn'" "agree T s' txn'" by blast
  then have ok: "log_ok s'" "current_logs s' = tree_logs T txn'" by (simp_all add: agree_def)
  then have "fst (slice_Logs s') = fst (Txn_Logs T txn')" using other_frame(4) tree_logs_ops(4) [OF assms(1)] by metis
  with r(1,2) ok show ?thesis by blast
qed

definition log_state0 :: log_state where
  "log_state0 = \<lparr>ls_heap = [], ls_logs = None, ls_snapshots = []\<rparr>"

definition test_log :: "nat \<Rightarrow> log" where
  "test_log n = \<lparr>lg_Address = of_nat n, lg_Topics = [], lg_Data = []\<rparr>"

theorem log_slices_refine_witness:
  "\<exists>s' txn'. run_slices (\<lambda>n. 2 * n) [LogEmit (test_log 1), LogBlock [LogEmit (test_log 2)], LogEmit (test_log 3)] log_state0 = Ret s' \<and>
    run_txn al_trees [LogEmit (test_log 1), LogBlock [LogEmit (test_log 2)], LogEmit (test_log 3)] (newTxn al_trees snap0) = Ret txn' \<and>
    log_ok s' \<and> current_logs s' = tree_logs al_trees txn' \<and> fst (slice_Logs s') = fst (Txn_Logs al_trees txn')"
proof (rule log_slices_refine [OF trees_ok_al])
  show "log_ok log_state0" by (simp add: log_ok_def log_state0_def)
  show "current_logs log_state0 = tree_logs al_trees (newTxn al_trees snap0)"
    by (simp add: current_logs_def log_state0_def tree_logs_def newTxn_def trees_okD [OF trees_ok_al])
qed

text \<open>
  Out of order the levels differ. With the capacities of the Go runtime (1, 2, 4): three logs, a snapshot, a fourth log, another snapshot, a revert
  to the first, a different fourth log in the same place of the array, and a revert to the second snapshot, which now
  shows the different log.
\<close>

lemma log_overwritten:
  assumes "grow 1 = 1" and "grow 2 = 2" and "grow 3 = 4"
  shows "\<exists>s2 s3. run_slices grow [LogEmit a, LogEmit b, LogEmit c, LogSnapshot, LogEmit x, LogSnapshot] log_state0 = Ret s2 \<and>
    current_logs s2 = [a, b, c, x] \<and> slice_Revert 0 s2 = Ret s3 \<and>
    (\<exists>s4. slice_Revert 1 (slice_EmitLog grow y s3) = Ret s4 \<and> current_logs s4 = [a, b, c, y])"
  using assms
  by (simp add: log_state0_def slice_EmitLog_def slice_append_def slice_Snapshot_def slice_Revert_def current_logs_def slice_logs_def
      numeral_eq_Suc)

end
