(* ===== verification/Evm_Arith.thy ===== *)
theory Evm_Arith
  imports Evm_Run
begin

text \<open>
  What the arithmetic and logic instructions compute. The machine keeps unbounded integers on its
  stack; the specification is the 256-bit arithmetic of the Ethereum virtual machine, as tables from
  opcodes to operations on words. The refinement says that the handler the dispatch table has for the
  opcode replaces its operands by the result of the table, and changes nothing else.
\<close>

unbundle bit_operations_syntax

section \<open>Specification\<close>

definition sdiv256 :: "hash \<Rightarrow> hash \<Rightarrow> hash" where
  "sdiv256 a b = (if b = 0 then 0 else word_of_int (sgn (sint a) * sgn (sint b) * (\<bar>sint a\<bar> div \<bar>sint b\<bar>)))"

definition smod256 :: "hash \<Rightarrow> hash \<Rightarrow> hash" where
  "smod256 a b = (if b = 0 then 0 else word_of_int (sgn (sint a) * (\<bar>sint a\<bar> mod \<bar>sint b\<bar>)))"

definition signextend256 :: "hash \<Rightarrow> hash \<Rightarrow> hash" where
  "signextend256 k x = (if unat k < 31 then signed_take_bit (8 * unat k + 7) x else x)"

definition flag256 :: "bool \<Rightarrow> hash" where
  "flag256 b = (if b then 1 else 0)"

text \<open>The tables: opcode, gas and operation.\<close>

definition alu1 :: "(OpCode \<times> u64 \<times> (hash \<Rightarrow> hash)) list" where
  "alu1 = [(opcode_NOT, 3, NOT), (ISZERO, 3, \<lambda>a. flag256 (a = 0))]"

definition alu2 :: "(OpCode \<times> u64 \<times> (hash \<Rightarrow> hash \<Rightarrow> hash)) list" where
  "alu2 =
     [(ADD, 3, (+)), (MUL, 5, (*)), (SUB, 3, (-)), (DIV, 5, (div)), (SDIV, 5, sdiv256),
      (MOD, 5, \<lambda>a b. if b = 0 then 0 else a mod b), (SMOD, 5, smod256), (SIGNEXTEND, 5, signextend256),
      (LT, 3, \<lambda>a b. flag256 (a < b)), (GT, 3, \<lambda>a b. flag256 (b < a)),
      (SLT, 3, \<lambda>a b. flag256 (sint a < sint b)), (SGT, 3, \<lambda>a b. flag256 (sint b < sint a)),
      (EQ, 3, \<lambda>a b. flag256 (a = b)), (opcode_AND, 3, (AND)), (opcode_OR, 3, (OR)), (opcode_XOR, 3, (XOR)),
      (SHL, 3, \<lambda>n a. push_bit (unat n) a), (SHR, 3, \<lambda>n a. drop_bit (unat n) a),
      (SAR, 3, \<lambda>n a. signed_drop_bit (unat n) a)]"

definition alu3 :: "(OpCode \<times> u64 \<times> (hash \<Rightarrow> hash \<Rightarrow> hash \<Rightarrow> hash)) list" where
  "alu3 =
     [(ADDMOD, 8, \<lambda>a b m. if m = 0 then 0 else word_of_int ((uint a + uint b) mod uint m)),
      (MULMOD, 8, \<lambda>a b m. if m = 0 then 0 else word_of_int ((uint a * uint b) mod uint m))]"

section \<open>Conversions\<close>

lemma toU256_mod: "toU256 x = x mod 2 ^ 256"
proof (cases "x < 0 \<or> 256 < big_BitLen x")
  case True
  have "(2 ^ 256 - 1 :: int) = mask 256" by (simp add: mask_eq_exp_minus_1)
  with True show ?thesis by (simp only: toU256_def if_True) (simp only: take_bit_eq_mask [symmetric] take_bit_eq_mod)
next
  case False
  then have "0 \<le> x" "x < 2 ^ 256" using big_BitLen_le_iff [of x 256] by auto
  with False show ?thesis by (simp add: toU256_def)
qed

lemma toU256_uint: "toU256 x = uint (word_of_int x :: hash)"
  by (simp add: toU256_mod unsigned_of_int take_bit_eq_mod)

lemma uint_less_256: "uint (a :: hash) < 2 ^ 256"
  using unsigned_less [where 'a = int and 'b = 256, of a] by simp

lemma bit_uint_255: "bit (uint (a :: hash)) 255 \<longleftrightarrow> 2 ^ 255 \<le> uint a"
proof -
  let ?x = "uint a"
  have "?x div 2 ^ 255 = 0 \<or> ?x div 2 ^ 255 = 1"
    using uint_less_256 [of a] div_int_pos_iff [of ?x "2 ^ 255"] by (auto simp: not_less)
  moreover have "?x div 2 ^ 255 = 0 \<longleftrightarrow> ?x < 2 ^ 255" using uint_ge_0 [of a] by (auto simp: zdiv_eq_0_iff)
  ultimately show ?thesis by (auto simp: bit_iff_odd)
qed

lemma to256_uint: "to256 (uint a) = sint (a :: hash)"
proof -
  have "sint a = uint a - 2 ^ 256 * of_bool (2 ^ 255 \<le> uint a)"
    using uint_less_256 [of a] by (simp add: sint_uint signed_take_bit_eq_take_bit_minus bit_uint_255 take_bit_int_eq_self)
  then show ?thesis using big_BitLen_gt_iff [of "uint a" 255] by (simp add: to256_def)
qed

lemma equalOrOverflows_uint: "equalOrOverflowsUint256 (uint (n :: hash)) \<longleftrightarrow> 256 \<le> unat n"
proof -
  have "equalOrOverflowsUint256 (uint n) \<longleftrightarrow> 256 \<le> uint n"
    using big_BitLen_gt_iff [of "uint n" 8] by (simp add: equalOrOverflowsUint256_def)
  also have "\<dots> \<longleftrightarrow> 256 \<le> unat n" using of_nat_le_iff [of 256 "unat n", where 'a = int] by simp
  finally show ?thesis .
qed

lemma unat_Uint64_uint: "unat n < 2 ^ 64 \<Longrightarrow> unat (big_Uint64 (uint (n :: hash))) = unat n"
proof -
  assume n: "unat n < 2 ^ 64"
  then have "int (unat n) < int (2 ^ 64)" by (simp only: of_nat_less_iff)
  then have lt: "uint n < 2 ^ 64" by (simp only: of_nat_power of_nat_numeral uint_nat)
  show ?thesis using unat_big_Uint64 [OF uint_ge_0 lt] by (simp only: unat_eq_nat_uint)
qed

lemma toU256_small: "0 \<le> x \<Longrightarrow> x < 2 ^ 256 \<Longrightarrow> toU256 x = x"
  by (simp add: toU256_mod)

lemma toU256_ring:
  "toU256 (uint a + uint b) = uint (a + b :: hash)" "toU256 (uint a * uint b) = uint (a * b :: hash)"
  "toU256 (uint a - uint b) = uint (a - b :: hash)"
  by (simp_all add: toU256_uint ucast_id)

section \<open>Instructions\<close>

lemma alu_arith:
  fixes a b :: hash
  assumes "c_stack c = uint a # uint b # s"
  shows "opAdd c = Ret (c\<lparr>c_stack := uint (a + b) # s\<rparr>)" and "opMul c = Ret (c\<lparr>c_stack := uint (a * b) # s\<rparr>)"
    and "opSub c = Ret (c\<lparr>c_stack := uint (a - b) # s\<rparr>)" and "opDiv c = Ret (c\<lparr>c_stack := uint (a div b) # s\<rparr>)"
    and "opMod c = Ret (c\<lparr>c_stack := uint (if b = 0 then 0 else a mod b) # s\<rparr>)"
proof -
  have pos: "b \<noteq> 0 \<Longrightarrow> 0 < uint b" using uint_ge_0 [of b] by (auto simp: unsigned_eq_0_iff order.order_iff_strict)
  have d: "toU256 (uint a div uint b) = uint (a div b)" "toU256 (uint a mod uint b) = uint (a mod b)"
    using uint_less_256 [of "a div b"] uint_less_256 [of "a mod b"] uint_ge_0 [of "a div b"] uint_ge_0 [of "a mod b"]
    by (simp_all add: toU256_small flip: uint_div uint_mod)
  show "opAdd c = Ret (c\<lparr>c_stack := uint (a + b) # s\<rparr>)" "opMul c = Ret (c\<lparr>c_stack := uint (a * b) # s\<rparr>)"
    "opSub c = Ret (c\<lparr>c_stack := uint (a - b) # s\<rparr>)" "opDiv c = Ret (c\<lparr>c_stack := uint (a div b) # s\<rparr>)"
    "opMod c = Ret (c\<lparr>c_stack := uint (if b = 0 then 0 else a mod b) # s\<rparr>)"
    using assms pos d by (auto simp: opAdd_def opMul_def opSub_def opDiv_def opMod_def toU256_ring uint_0_iff)
qed

lemma alu_signed:
  fixes a b :: hash
  assumes "c_stack c = uint a # uint b # s"
  shows "opSDiv c = Ret (c\<lparr>c_stack := uint (sdiv256 a b) # s\<rparr>)" and "opSMod c = Ret (c\<lparr>c_stack := uint (smod256 a b) # s\<rparr>)"
    and "opSlt c = Ret (c\<lparr>c_stack := uint (flag256 (sint a < sint b)) # s\<rparr>)"
    and "opSgt c = Ret (c\<lparr>c_stack := uint (flag256 (sint b < sint a)) # s\<rparr>)"
proof -
  have z: "sint b = 0 \<longleftrightarrow> b = 0" using signed_word_eqI [where 'a = int, of b 0] by auto
  have neg: "sgn x * sgn y * q = (if sgn x \<noteq> sgn y then - q else q)" if "y \<noteq> 0" "x = 0 \<longrightarrow> q = 0" for x y q :: int
    using that by (auto simp: sgn_if)
  have sg: "sgn x * q = (if sgn x < 0 then - q else q)" if "x = 0 \<longrightarrow> q = 0" for x q :: int
    using that by (auto simp: sgn_if)
  show "opSDiv c = Ret (c\<lparr>c_stack := uint (sdiv256 a b) # s\<rparr>)" "opSMod c = Ret (c\<lparr>c_stack := uint (smod256 a b) # s\<rparr>)"
    using assms z neg [of "sint b" "sint a" "\<bar>sint a\<bar> div \<bar>sint b\<bar>"] sg [of "sint a" "\<bar>sint a\<bar> mod \<bar>sint b\<bar>"]
    by (auto simp: opSDiv_def opSMod_def to256_uint toU256_uint sdiv256_def smod256_def Let_def simp del: of_int_mult of_int_minus)
  show "opSlt c = Ret (c\<lparr>c_stack := uint (flag256 (sint a < sint b)) # s\<rparr>)"
    "opSgt c = Ret (c\<lparr>c_stack := uint (flag256 (sint b < sint a)) # s\<rparr>)"
    using assms by (simp_all add: opSlt_def opSgt_def to256_uint flag256_def)
qed

lemma alu_logic:
  fixes a b :: hash
  assumes "c_stack c = uint a # uint b # s"
  shows "opAnd c = Ret (c\<lparr>c_stack := uint (a AND b) # s\<rparr>)" and "opOr c = Ret (c\<lparr>c_stack := uint (a OR b) # s\<rparr>)"
    and "opXor c = Ret (c\<lparr>c_stack := uint (a XOR b) # s\<rparr>)" and "opEq c = Ret (c\<lparr>c_stack := uint (flag256 (a = b)) # s\<rparr>)"
    and "opLt c = Ret (c\<lparr>c_stack := uint (flag256 (a < b)) # s\<rparr>)" and "opGt c = Ret (c\<lparr>c_stack := uint (flag256 (b < a)) # s\<rparr>)"
  using assms
  by (simp_all add: opAnd_def opOr_def opXor_def opEq_def opLt_def opGt_def flag256_def word_less_def
      unsigned_and_eq unsigned_or_eq unsigned_xor_eq flip: word_uint_eq_iff)

lemma toU256_take_bit: "toU256 x = take_bit 256 x"
  by (simp add: toU256_mod take_bit_eq_mod)

lemma alu_unary:
  fixes a :: hash
  assumes "c_stack c = uint a # s"
  shows "opNot c = Ret (c\<lparr>c_stack := uint (NOT a) # s\<rparr>)" and "opIsZero c = Ret (c\<lparr>c_stack := uint (flag256 (a = 0)) # s\<rparr>)"
  using assms by (simp_all add: opNot_def opIsZero_def toU256_take_bit unsigned_not_eq flag256_def uint_0_iff)

lemma alu_shift:
  fixes n a :: hash
  assumes "c_stack c = uint n # uint a # s" and "Constantinople (c_config c)"
  shows "opShl c = Ret (c\<lparr>c_stack := uint (push_bit (unat n) a) # s\<rparr>)"
    and "opShr c = Ret (c\<lparr>c_stack := uint (drop_bit (unat n) a) # s\<rparr>)"
    and "opSar c = Ret (c\<lparr>c_stack := uint (signed_drop_bit (unat n) a) # s\<rparr>)"
proof -
  have a: "take_bit 256 (uint a) = uint a" using uint_less_256 [of a] by (simp add: take_bit_int_eq_self)
  have u: "\<not> 256 \<le> unat n \<Longrightarrow> unat (big_Uint64 (uint n)) = unat n" by (rule unat_Uint64_uint) simp
  have big: "push_bit (unat n) a = 0" "drop_bit (unat n) a = 0" if "256 \<le> unat n"
    using that by (simp_all add: push_bit_word_beyond drop_bit_word_beyond)
  have sar: "uint (signed_drop_bit (unat n) a) = take_bit 256 (drop_bit (unat n) (sint a))"
    using uint_sint [of "signed_drop_bit (unat n) a"] by (simp add: sint_signed_drop_bit_eq)
  have beyond: "signed_drop_bit (unat n) a = (if 0 \<le> sint a then 0 else - 1)" if "256 \<le> unat n"
    using that bit_last_iff [of a] by (simp add: signed_drop_bit_beyond not_le)
  have m1: "uint (- 1 :: hash) = 2 ^ 256 - 1" by (simp add: unsigned_minus_1_eq_mask mask_eq_exp_minus_1)
  have shl: "toU256 (push_bit (unat n) (uint a)) = uint (push_bit (unat n) a)"
    by (simp only: toU256_take_bit unsigned_push_bit_eq) simp
  have "uint (drop_bit (unat n) a) = drop_bit (unat n) (uint a)" by (simp only: unsigned_drop_bit_eq) (simp add: a)
  then have shr: "toU256 (drop_bit (unat n) (uint a)) = uint (drop_bit (unat n) a)"
    using toU256_small [OF uint_ge_0 uint_less_256, of "drop_bit (unat n) a"] by simp
  show "opShl c = Ret (c\<lparr>c_stack := uint (push_bit (unat n) a) # s\<rparr>)"
    using assms u big shl by (cases "256 \<le> unat n") (simp_all add: opShl_def equalOrOverflows_uint)
  show "opShr c = Ret (c\<lparr>c_stack := uint (drop_bit (unat n) a) # s\<rparr>)"
    using assms u big shr by (cases "256 \<le> unat n") (simp_all add: opShr_def equalOrOverflows_uint)
  show "opSar c = Ret (c\<lparr>c_stack := uint (signed_drop_bit (unat n) a) # s\<rparr>)"
  proof (cases "256 \<le> unat n")
    case True
    with assms beyond [OF True] m1 show ?thesis by (auto simp: opSar_def equalOrOverflows_uint to256_uint)
  next
    case False
    with assms u [OF False] sar show ?thesis by (simp add: opSar_def equalOrOverflows_uint to256_uint toU256_take_bit)
  qed
qed

lemma alu_modular:
  fixes a b m :: hash
  assumes "c_stack c = uint a # uint b # uint m # s"
  shows "opAddMod c = Ret (c\<lparr>c_stack := uint (if m = 0 then 0 else word_of_int ((uint a + uint b) mod uint m) :: hash) # s\<rparr>)"
    and "opMulMod c = Ret (c\<lparr>c_stack := uint (if m = 0 then 0 else word_of_int ((uint a * uint b) mod uint m) :: hash) # s\<rparr>)"
proof -
  have pos: "m \<noteq> 0 \<Longrightarrow> 0 < uint m" using uint_ge_0 [of m] by (auto simp: unsigned_eq_0_iff order.order_iff_strict)
  then show "opAddMod c = Ret (c\<lparr>c_stack := uint (if m = 0 then 0 else word_of_int ((uint a + uint b) mod uint m) :: hash) # s\<rparr>)"
    "opMulMod c = Ret (c\<lparr>c_stack := uint (if m = 0 then 0 else word_of_int ((uint a * uint b) mod uint m) :: hash) # s\<rparr>)"
    using assms by (auto simp: opAddMod_def opMulMod_def toU256_uint uint_0_iff)
qed

lemma alu_signextend:
  fixes k x :: hash
  assumes "c_stack c = uint k # uint x # s"
  shows "opSignExtension c = Ret (c\<lparr>c_stack := uint (signextend256 k x) # s\<rparr>)"
proof -
  let ?n = "8 * unat k + 7"
  have x: "take_bit 256 (uint x) = uint x" using uint_less_256 [of x] by (simp add: take_bit_int_eq_self)
  have le: "32 < uint k \<longleftrightarrow> 32 < unat k" using of_nat_less_iff [of 32 "unat k", where 'a = int] by simp
  have bt: "unat (big_Uint64 (uint k) * 8 + 7) = ?n" if "unat k \<le> 32"
  proof -
    have "unat (big_Uint64 (uint k)) = unat k" using that by (intro unat_Uint64_uint) simp
    with that show ?thesis by (simp add: unat_word_ariths)
  qed
  have ext: "toU256 (if bit (uint x) ?n then uint x OR NOT (push_bit ?n 1 - 1) else uint x AND (push_bit ?n 1 - 1)) =
      uint (signextend256 k x)" if "unat k \<le> 32"
  proof -
    have m: "push_bit ?n 1 - 1 = (mask ?n :: int)" by (simp add: mask_eq_exp_minus_1 push_bit_eq_mult)
    have "uint (signextend256 k x) = take_bit 256 (signed_take_bit ?n (uint x))"
    proof (cases "unat k < 31")
      case True
      then show ?thesis
        by (intro bit_eqI) (auto simp: signextend256_def bit_simps min_def)
    next
      case False
      have n: "n < 256" if "bit x n" for n using bit_imp_le_length [OF that] by simp
      have "bit x ?n \<longleftrightarrow> bit x n" if "?n \<le> n" "n < 256" for n
        using False that by (intro arg_cong [where f = "bit x"]) linarith
      with False n show ?thesis
        by (intro bit_eqI) (auto simp: signextend256_def bit_simps min_def)
    qed
    moreover have "(if bit (uint x) ?n then uint x OR NOT (mask ?n) else uint x AND mask ?n) = signed_take_bit ?n (uint x)"
      by (intro bit_eqI) (auto simp: bit_simps min_def)
    ultimately show ?thesis unfolding m by (simp add: toU256_take_bit)
  qed
  show ?thesis
  proof (cases "unat k \<le> 32")
    case True
    then have "\<not> 32 < uint k" using le by simp
    then have "opSignExtension c = Ret (set_top (c\<lparr>c_stack := uint x # s\<rparr>)
        (toU256 (if bit (uint x) ?n then uint x OR NOT (push_bit ?n 1 - 1) else uint x AND (push_bit ?n 1 - 1))))"
      unfolding opSignExtension_def popv_Cons [OF assms] bnd_simps prod.case state_top_def Let_def bt [OF True]
      by (simp only: if_False) simp
    then show ?thesis unfolding ext [OF True] by simp
  next
    case False
    then show ?thesis using assms le by (simp add: opSignExtension_def signextend256_def)
  qed
qed

section \<open>Exponentiation\<close>

lemma exp_bits_word:
  fixes z x :: hash
  shows "exp_bits n d (uint z) (uint x) = (uint (z * x ^ (unat d mod 2 ^ n)), uint (x ^ (2 ^ n)))"
proof (induction n arbitrary: d z x)
  case 0
  then show ?case by simp
next
  case (Suc n)
  let ?m = "unat d div 2 mod 2 ^ n"
  have odd: "d AND 1 = 1 \<longleftrightarrow> unat d mod 2 = 1"
    by (simp only: and_one_eq word_unat_eq_iff unat_mod_distrib) simp
  have half: "unat (drop_bit 1 d) = unat d div 2" by (simp add: drop_bit_eq_div unat_div)
  have m: "unat d mod 2 ^ Suc n = 2 * ?m + unat d mod 2" by (simp add: mod_mult2_eq)
  have "(if d AND 1 = 1 then toU256 (uint z * uint x) else uint z) = uint (z * x ^ (unat d mod 2))"
    by (cases "unat d mod 2 = 1") (auto simp: odd toU256_ring)
  then have "exp_bits (Suc n) d (uint z) (uint x) = exp_bits n (drop_bit 1 d) (uint (z * x ^ (unat d mod 2))) (uint (x * x))"
    by (simp add: toU256_ring)
  also have "\<dots> = (uint (z * x ^ (unat d mod 2) * (x * x) ^ ?m), uint ((x * x) ^ (2 ^ n)))"
    unfolding Suc.IH half ..
  finally show ?case unfolding m by (simp add: power_add power_mult power2_eq_square ac_simps)
qed

lemma exp_limbs_word:
  fixes z x :: hash
  shows "\<exists>x'. exp_limbs (nat_limbs m) (uint z) (uint x) = (uint (z * x ^ m), x')"
proof (induction m arbitrary: z x rule: nat_limbs.induct)
  case (1 m)
  show ?case
  proof (cases "m = 0")
    case True
    then show ?thesis by (simp add: nat_limbs.simps)
  next
    case False
    let ?r = "m mod 2 ^ 64" and ?q = "m div 2 ^ 64"
    have d: "unat (of_nat m :: u64) mod 2 ^ 64 = ?r" by (simp add: unat_of_nat)
    have m: "m = ?r + 2 ^ 64 * ?q" by simp
    obtain x' where x': "exp_limbs (nat_limbs ?q) (uint (z * x ^ ?r)) (uint (x ^ (2 ^ 64))) = (uint (z * x ^ ?r * (x ^ (2 ^ 64)) ^ ?q), x')"
      using "1.IH" [OF False, of "z * x ^ ?r" "x ^ (2 ^ 64)"] by blast
    have "exp_limbs (nat_limbs m) (uint z) (uint x) = exp_limbs (nat_limbs ?q) (uint (z * x ^ ?r)) (uint (x ^ (2 ^ 64)))"
      using False by (simp only: nat_limbs.simps [of m] if_False exp_limbs.simps exp_bits_word d Let_def prod.case)
    also have "\<dots> = (uint (z * x ^ m), x')"
    proof -
      have "x ^ m = x ^ (?r + 2 ^ 64 * ?q)" using m by (rule arg_cong)
      then show ?thesis unfolding x' by (simp only: power_add power_mult mult.assoc)
    qed
    finally show ?thesis by blast
  qed
qed

lemma alu_exp:
  fixes a b :: hash
  assumes "c_stack c = uint a # uint b # s"
  defines "cost \<equiv> of_nat ((big_BitLen (uint b) + 7) div 8) * (if EIP158 (c_config c) then 50 else 10 :: u64)"
  shows "opExp c =
    (if cost \<le> c_gas c then Ret (c\<lparr>c_stack := uint (a ^ unat b) # s, c_gas := c_gas c - cost\<rparr>)
     else Ret (exit (c\<lparr>c_stack := uint b # s\<rparr>) ErrOutOfGas))"
proof -
  obtain x' where "exp_limbs (nat_limbs (unat b)) (uint (1 :: hash)) (uint a) = (uint (1 * a ^ unat b), x')"
    using exp_limbs_word [of "unat b" 1 a] by blast
  moreover have "big_Bits (uint b) = nat_limbs (unat b)"
    by (simp only: big_Bits_def abs_of_nonneg [OF uint_ge_0] unat_eq_nat_uint)
  ultimately have e: "fst (exp_limbs (big_Bits (uint b)) 1 (uint a)) = uint (a ^ unat b)" by simp
  show ?thesis
    using assms(1) by (simp add: opExp_def Let_def consumeGas_def e cost_def [symmetric] not_less)
qed

section \<open>Bytes\<close>

text \<open>
  \<open>opByte\<close> reads its index with \<open>Int64\<close>: for an index below \<open>2\<^sup>6\<^sup>3\<close> it returns the byte the index
  names, counted from the most significant one, or 0.
\<close>

lemma alu_byte:
  fixes i x :: hash
  assumes "c_stack c = uint i # uint x # s" and "uint i < 2 ^ 63"
  shows "opByte c = Ret (c\<lparr>c_stack := uint (if unat i < 32 then drop_bit (8 * (31 - unat i)) x AND 255 else 0) # s\<rparr>)"
proof -
  have si: "sint (big_Int64 (uint i)) = uint i" using big_Int64_small [OF uint_ge_0 assms(2)] .
  have lt: "31 < uint i \<longleftrightarrow> \<not> unat i < 32" using of_nat_less_iff [of 31 "unat i", where 'a = int] by auto
  have sh: "unat ((31 - big_Int64 (uint i)) * 8) = 8 * (31 - unat i)" if "unat i < 32"
  proof -
    have "big_Int64 (uint i) = of_nat (unat i)" by (simp add: big_Int64_def)
    then have "(31 - big_Int64 (uint i)) * 8 = of_nat (8 * (31 - unat i))" using that by (simp add: of_nat_diff)
    then show ?thesis using that by (simp only:) (simp only: unat_of_nat, simp)
  qed
  have x: "take_bit 256 (uint x) = uint x" using uint_less_256 [of x] by (simp add: take_bit_int_eq_self)
  show ?thesis
  proof (cases "unat i < 32")
    case True
    have "uint (drop_bit (8 * (31 - unat i)) x AND 255) = drop_bit (8 * (31 - unat i)) (uint x) AND 255"
      by (simp only: unsigned_and_eq unsigned_drop_bit_eq) (simp add: x)
    with True assms(1) si lt sh show ?thesis by (simp add: opByte_def Let_def)
  next
    case False
    with assms(1) si lt show ?thesis by (simp add: opByte_def Let_def)
  qed
qed

text \<open>Above \<open>2\<^sup>6\<^sup>4\<close> the truncation of the index shows: BYTE with the index \<open>2\<^sup>6\<^sup>4\<close> reads the most significant byte of the word
  instead of giving 0.
\<close>

lemma byte_index_truncated:
  "opByte (c\<lparr>c_stack := 2 ^ 64 # uint (0xff * 2 ^ 248 :: hash) # s\<rparr>) = Ret (c\<lparr>c_stack := 0xff # s\<rparr>)"
  by (simp add: opByte_def Let_def big_Int64_def)

section \<open>Refinement\<close>

lemma alu_handlers:
  "dispatchTable X H ADD = Some (handler opAdd 2 3)" "dispatchTable X H MUL = Some (handler opMul 2 5)"
  "dispatchTable X H SUB = Some (handler opSub 2 3)" "dispatchTable X H DIV = Some (handler opDiv 2 5)"
  "dispatchTable X H SDIV = Some (handler opSDiv 2 5)" "dispatchTable X H MOD = Some (handler opMod 2 5)"
  "dispatchTable X H SMOD = Some (handler opSMod 2 5)" "dispatchTable X H EXP = Some (handler opExp 2 10)"
  "dispatchTable X H SIGNEXTEND = Some (handler opSignExtension 1 5)"
  "dispatchTable X H ADDMOD = Some (handler opAddMod 3 8)" "dispatchTable X H MULMOD = Some (handler opMulMod 3 8)"
  "dispatchTable X H LT = Some (handler opLt 2 3)" "dispatchTable X H GT = Some (handler opGt 2 3)"
  "dispatchTable X H SLT = Some (handler opSlt 2 3)" "dispatchTable X H SGT = Some (handler opSgt 2 3)"
  "dispatchTable X H EQ = Some (handler opEq 2 3)" "dispatchTable X H ISZERO = Some (handler opIsZero 1 3)"
  "dispatchTable X H opcode_AND = Some (handler opAnd 2 3)" "dispatchTable X H opcode_OR = Some (handler opOr 2 3)"
  "dispatchTable X H opcode_XOR = Some (handler opXor 2 3)" "dispatchTable X H opcode_NOT = Some (handler opNot 1 3)"
  "dispatchTable X H SHL = Some (handler opShl 2 3)" "dispatchTable X H SHR = Some (handler opShr 2 3)"
  "dispatchTable X H SAR = Some (handler opSar 2 3)" "dispatchTable X H BYTE = Some (handler opByte 2 3)"
  unfolding dispatchTable_def
  by (rule map_of_is_SomeI [OF dispatch_entries_distinct], simp add: dispatch_entries_def)+

text \<open>The machine is about to execute an opcode and can pay for it.\<close>

definition fetches :: "'h state \<Rightarrow> OpCode \<Rightarrow> u64 \<Rightarrow> bool" where
  "fetches c op g \<longleftrightarrow> 0 \<le> c_ip c \<and> nat (c_ip c) < length (c_code c) \<and> unat (c_code c ! nat (c_ip c)) = op \<and>
     g \<le> c_gas c \<and> length (c_stack c) \<le> stackSize"

lemma step_fetch_any:
  assumes "fetches c op g" and "dispatchTable X H op = Some (handler i n g)" and "n \<le> length (c_stack c)"
    and "i (c\<lparr>c_gas := c_gas c - g\<rparr>) = Ret c'" and "length (c_stack c') \<le> stackSize"
  shows "step X H c = Ret (c'\<lparr>c_ip := c_ip c' + 1\<rparr>)"
proof -
  have ip: "\<not> int (length (c_code c)) \<le> c_ip c" "\<not> c_ip c < 0"
    using assms(1) by (auto simp: fetches_def)
  have op: "unat (c_code c ! nat (c_ip c)) = op" "\<not> c_gas c < g" "\<not> length (c_stack c) < n" "\<not> stackSize < length (c_stack c')"
    using assms by (auto simp: fetches_def)
  show ?thesis
    unfolding step_def if_not_P [OF ip(1)] if_not_P [OF ip(2)] Let_def op(1) assms(2) option.case
    using op assms(4) by (simp add: consumeGas_def)
qed

lemma step_fetch:
  assumes "fetches c op g" and "dispatchTable X H op = Some (handler i n g)" and "n \<le> length (c_stack c)"
    and "i (c\<lparr>c_gas := c_gas c - g\<rparr>) = Ret (c\<lparr>c_gas := c_gas c - g, c_stack := s\<rparr>)" and "length s \<le> length (c_stack c)"
  shows "step X H c = Ret (c\<lparr>c_stack := s, c_gas := c_gas c - g, c_ip := c_ip c + 1\<rparr>)"
proof -
  have "length (c_stack (c\<lparr>c_gas := c_gas c - g, c_stack := s\<rparr>)) \<le> stackSize"
    using assms(1,5) by (simp add: fetches_def)
  from step_fetch_any [OF assms(1-4) this] show ?thesis by simp
qed

text \<open>The handlers of a table, at a machine whose operands are on the stack.\<close>

lemma handlerI:
  "dispatchTable X H op = Some (handler h n g) \<Longrightarrow> n \<le> k \<Longrightarrow> h c = r \<Longrightarrow>
     \<exists>h n. dispatchTable X H op = Some (handler h n g) \<and> n \<le> k \<and> h c = r"
  by blast

lemma alu2_inst:
  fixes a b :: hash
  assumes "c_stack c = uint a # uint b # s" and "Constantinople (c_config c)"
  shows "list_all (\<lambda>(op, g, f). \<exists>h n. dispatchTable X H op = Some (handler h n g) \<and> n \<le> 2 \<and>
    h c = Ret (c\<lparr>c_stack := uint (f a b) # s\<rparr>)) alu2"
  unfolding alu2_def list.pred_inject prod.case
  by (intro conjI list.pred_inject(1); rule handlerI, rule alu_handlers, simp,
      simp only: alu_arith [OF assms(1)] alu_signed [OF assms(1)] alu_logic [OF assms(1)] alu_shift [OF assms] alu_signextend [OF assms(1)])

lemma alu1_inst:
  fixes a :: hash
  assumes "c_stack c = uint a # s"
  shows "list_all (\<lambda>(op, g, f). \<exists>h n. dispatchTable X H op = Some (handler h n g) \<and> n \<le> 1 \<and>
    h c = Ret (c\<lparr>c_stack := uint (f a) # s\<rparr>)) alu1"
  unfolding alu1_def list.pred_inject prod.case
  by (intro conjI list.pred_inject(1); rule handlerI, rule alu_handlers, simp, simp only: alu_unary [OF assms])

lemma alu3_inst:
  fixes a b m :: hash
  assumes "c_stack c = uint a # uint b # uint m # s"
  shows "list_all (\<lambda>(op, g, f). \<exists>h n. dispatchTable X H op = Some (handler h n g) \<and> n \<le> 3 \<and>
    h c = Ret (c\<lparr>c_stack := uint (f a b m) # s\<rparr>)) alu3"
  unfolding alu3_def list.pred_inject prod.case
  by (intro conjI list.pred_inject(1); rule handlerI, rule alu_handlers, simp, simp only: alu_modular [OF assms])

text \<open>A machine about to execute one opcode, for the witnesses.\<close>

definition demo :: "byte \<Rightarrow> hash list \<Rightarrow> unit state" where
  "demo op args =
     (new_state (NewContractCall 1 0 0 0 None 100 [op] []) () (Forks_At AllForksEnabled 0))\<lparr>c_stack := map uint args\<rparr>"

lemma fetches_demo: "g \<le> 100 \<Longrightarrow> length args \<le> 1024 \<Longrightarrow> fetches (demo op args) (unat op) g"
  by (simp add: fetches_def demo_def new_state_def NewContractCall_def NewContract_def stackSize_def)

lemma demo_fields: "c_stack (demo op args) = map uint args" "Constantinople (c_config (demo op args))"
  by (simp_all add: demo_def new_state_def Forks_At_AllForksEnabled)

text \<open>
  C20: The binary arithmetic, comparison, bitwise and shift instructions implement 256-bit arithmetic: one
  step of the machine on such an opcode pays the gas of the table, replaces the two topmost stack
  elements by the result of the word operation of the table, and moves on; nothing else changes.
  Division by zero gives 0, signed operations truncate towards zero, shifts by 256 or more clear the
  word or fill it with the sign.
\<close>

theorem alu2_refines:
  fixes a b :: hash
  assumes "(op, g, f) \<in> set alu2" and "fetches c op g" and "c_stack c = uint a # uint b # s" and "Constantinople (c_config c)"
  shows "step X H c = Ret (c\<lparr>c_stack := uint (f a b) # s, c_gas := c_gas c - g, c_ip := c_ip c + 1\<rparr>)"
proof -
  let ?c = "c\<lparr>c_gas := c_gas c - g\<rparr>"
  have st: "c_stack ?c = uint a # uint b # s" "Constantinople (c_config ?c)" using assms(3,4) by simp_all
  have "\<exists>h n. dispatchTable X H op = Some (handler h n g) \<and> n \<le> 2 \<and> h ?c = Ret (?c\<lparr>c_stack := uint (f a b) # s\<rparr>)"
    using alu2_inst [OF st, of X H] assms(1) by (auto simp: list_all_iff)
  then obtain h n where h: "dispatchTable X H op = Some (handler h n g)" "n \<le> 2" "h ?c = Ret (?c\<lparr>c_stack := uint (f a b) # s\<rparr>)"
    by blast
  show ?thesis by (rule step_fetch [OF assms(2) h(1)]) (use h assms(3) in simp_all)
qed

theorem alu2_refines_witness:
  "\<forall>X H. step X H (demo 5 [-7, 2]) = Ret ((demo 5 [-7, 2])\<lparr>c_stack := [uint (sdiv256 (-7) 2)],
     c_gas := c_gas (demo 5 [-7, 2]) - 5, c_ip := c_ip (demo 5 [-7, 2]) + 1\<rparr>)"
proof -
  have "(SDIV, 5, sdiv256) \<in> set alu2" by (simp add: alu2_def)
  from alu2_refines [OF this fetches_demo [of 5 "[-7, 2]" 5, simplified] _ demo_fields(2), of "-7" 2 "[]"]
  show ?thesis by (simp add: demo_fields(1))
qed

text \<open>
  C21: The unary and the ternary instructions refine their word operations in the same way: NOT and ISZERO,
  and ADDMOD and MULMOD, whose sum and product are not reduced before the modulus is taken.
\<close>

theorem alu13_refines:
  fixes a b m :: hash
  assumes "fetches c op g"
  shows "((op, g, f) \<in> set alu1 \<longrightarrow> c_stack c = uint a # s \<longrightarrow>
      step X H c = Ret (c\<lparr>c_stack := uint (f a) # s, c_gas := c_gas c - g, c_ip := c_ip c + 1\<rparr>)) \<and>
    ((op, g, f3) \<in> set alu3 \<longrightarrow> c_stack c = uint a # uint b # uint m # s \<longrightarrow>
      step X H c = Ret (c\<lparr>c_stack := uint (f3 a b m) # s, c_gas := c_gas c - g, c_ip := c_ip c + 1\<rparr>))"
proof (intro conjI impI)
  let ?c = "c\<lparr>c_gas := c_gas c - g\<rparr>"
  {
    assume op: "(op, g, f) \<in> set alu1" and st: "c_stack c = uint a # s"
    have "\<exists>h n. dispatchTable X H op = Some (handler h n g) \<and> n \<le> 1 \<and> h ?c = Ret (?c\<lparr>c_stack := uint (f a) # s\<rparr>)"
      using alu1_inst [of ?c a s X H] st op by (auto simp: list_all_iff)
    then obtain h n where h: "dispatchTable X H op = Some (handler h n g)" "n \<le> 1" "h ?c = Ret (?c\<lparr>c_stack := uint (f a) # s\<rparr>)"
      by blast
    show "step X H c = Ret (c\<lparr>c_stack := uint (f a) # s, c_gas := c_gas c - g, c_ip := c_ip c + 1\<rparr>)"
      by (rule step_fetch [OF assms h(1)]) (use h st in simp_all)
  next
    assume op: "(op, g, f3) \<in> set alu3" and st: "c_stack c = uint a # uint b # uint m # s"
    have "\<exists>h n. dispatchTable X H op = Some (handler h n g) \<and> n \<le> 3 \<and> h ?c = Ret (?c\<lparr>c_stack := uint (f3 a b m) # s\<rparr>)"
      using alu3_inst [of ?c a b m s X H] st op by (auto simp: list_all_iff)
    then obtain h n where h: "dispatchTable X H op = Some (handler h n g)" "n \<le> 3" "h ?c = Ret (?c\<lparr>c_stack := uint (f3 a b m) # s\<rparr>)"
      by blast
    show "step X H c = Ret (c\<lparr>c_stack := uint (f3 a b m) # s, c_gas := c_gas c - g, c_ip := c_ip c + 1\<rparr>)"
      by (rule step_fetch [OF assms h(1)]) (use h st in simp_all)
  }
qed

theorem alu13_refines_witness:
  "\<forall>X H. step X H (demo 9 [-1, 3, 7]) = Ret ((demo 9 [-1, 3, 7])\<lparr>c_stack := [uint (word_of_int (uint (-1 :: hash) * 3 mod 7) :: hash)],
     c_gas := c_gas (demo 9 [-1, 3, 7]) - 8, c_ip := c_ip (demo 9 [-1, 3, 7]) + 1\<rparr>)"
proof -
  let ?f = "\<lambda>a b m :: hash. if m = 0 then 0 else word_of_int ((uint a * uint b) mod uint m) :: hash"
  have "(MULMOD, 8, ?f) \<in> set alu3" by (simp add: alu3_def)
  then show ?thesis
    using alu13_refines [OF fetches_demo [of 8 "[-1, 3, 7]" 9, simplified], where ?f3.0 = ?f and a = "-1" and b = 3 and m = 7 and s = "[]"]
    by (simp add: demo_fields(1))
qed

text \<open>
  C22: EXP is exponentiation of words. One step pays 10 gas and then 10 (50 since EIP-158) for each byte
  of the exponent, and leaves \<open>a ^ b\<close> modulo \<open>2\<^sup>2\<^sup>5\<^sup>6\<close>, computed by square and multiply over the limbs;
  with too little gas for the exponent it stops with an out-of-gas error.
\<close>

theorem exp_refines:
  fixes a b :: hash
  assumes "fetches c EXP 10" and "c_stack c = uint a # uint b # s"
  defines "cost \<equiv> of_nat ((big_BitLen (uint b) + 7) div 8) * (if EIP158 (c_config c) then 50 else 10 :: u64)"
  shows "step X H c =
    (if cost \<le> c_gas c - 10
     then Ret (c\<lparr>c_stack := uint (a ^ unat b) # s, c_gas := c_gas c - 10 - cost, c_ip := c_ip c + 1\<rparr>)
     else Ret ((exit (c\<lparr>c_stack := uint b # s, c_gas := c_gas c - 10\<rparr>) ErrOutOfGas)\<lparr>c_ip := c_ip c + 1\<rparr>))"
proof -
  let ?c = "c\<lparr>c_gas := c_gas c - 10\<rparr>"
  have st: "c_stack ?c = uint a # uint b # s" and len: "length s + 2 \<le> stackSize" using assms(1,2) by (simp_all add: fetches_def)
  note e = alu_exp [OF st, simplified]
  show ?thesis
  proof (cases "cost \<le> c_gas c - 10")
    case True
    with e have "opExp ?c = Ret (?c\<lparr>c_stack := uint (a ^ unat b) # s, c_gas := c_gas c - 10 - cost\<rparr>)" by (simp add: cost_def)
    from step_fetch_any [OF assms(1) alu_handlers(8) _ this] len show ?thesis using assms(2) True by simp
  next
    case False
    with e have "opExp ?c = Ret (exit (?c\<lparr>c_stack := uint b # s\<rparr>) ErrOutOfGas)" by (simp add: cost_def)
    from step_fetch_any [OF assms(1) alu_handlers(8) _ this] len show ?thesis using assms(2) False by (simp add: exit_def)
  qed
qed

theorem exp_refines_witness:
  "\<forall>X H. step X H (demo 10 [3, 5]) =
    Ret ((demo 10 [3, 5])\<lparr>c_stack := [243], c_gas := c_gas (demo 10 [3, 5]) - 10 - 50, c_ip := c_ip (demo 10 [3, 5]) + 1\<rparr>)"
proof -
  have "big_BitLen 5 = 3" "EIP158 (c_config (demo 10 [3, 5]))" "c_gas (demo 10 [3, 5]) = 100"
    by (simp_all add: big_BitLen_def bitlen.simps demo_def new_state_def Forks_At_AllForksEnabled NewContractCall_def NewContract_def)
  then show ?thesis
    using exp_refines [OF fetches_demo [of 10 "[3, 5]" 10, simplified], of 3 5 "[]"] by (simp add: demo_fields(1))
qed

end
