(* ===== verification/Evm_Memory.thy ===== *)
theory Evm_Memory
  imports Evm_Arith
begin

text \<open>
  Memory as the instructions see it: a stored word is written as 32 big-endian bytes at its offset and
  nowhere else, and loading it gives the word back. The conversion loop of \<open>opMStore\<close> over the limbs of
  a big integer is proved equal to the big-endian encoding.
\<close>

section \<open>The conversion loop of MSTORE\<close>

lemma put_limb_bytes:
  assumes "j \<le> i" and "i \<le> length buf"
  shows "put_limb j d i buf = Ret (i - j, take (i - j) buf @ be_bytes j (unat d) @ drop i buf)"
  using assms
proof (induction j arbitrary: d i buf)
  case 0
  then show ?case by simp
next
  case (Suc j)
  let ?buf = "buf[i - 1 := ucast d]"
  have i: "0 < i" "i - 1 < length buf" using Suc.prems by simp_all
  have half: "unat (drop_bit 8 d) = unat d div 256" by (simp add: drop_bit_eq_div unat_div)
  have tail: "drop (i - 1) ?buf = ucast d # drop i buf" using i Cons_nth_drop_Suc [of "i - 1" ?buf] by simp
  have front: "take (i - Suc j) ?buf = take (i - Suc j) buf" by simp
  have "put_limb (Suc j) d i buf = put_limb j (drop_bit 8 d) (i - 1) ?buf"
    by (subst put_limb.simps, rule if_not_P) (use i(1) in simp)
  also have "\<dots> = Ret (i - 1 - j, take (i - 1 - j) ?buf @ be_bytes j (unat (drop_bit 8 d)) @ drop (i - 1) ?buf)"
    using Suc.prems by (intro Suc.IH) simp_all
  finally have "put_limb (Suc j) d i buf = Ret (i - Suc j, take (i - Suc j) buf @ be_bytes j (unat d div 256) @ ucast d # drop i buf)"
    unfolding tail half diff_diff_left plus_1_eq_Suc front .
  then show ?case by simp
qed

lemma put_limbs_bytes:
  assumes "m < 2 ^ (64 * k)" and "8 * k \<le> length buf"
  shows "\<exists>i \<le> 8 * k. m < 256 ^ (8 * k - i) \<and>
    put_limbs (nat_limbs m) (8 * k) buf = Ret (i, take i buf @ be_bytes (8 * k - i) m @ drop (8 * k) buf)"
  using assms
proof (induction m arbitrary: k buf rule: nat_limbs.induct)
  case (1 m)
  show ?case
  proof (cases "m = 0")
    case True
    then show ?thesis by (intro exI [of _ "8 * k"]) (simp add: nat_limbs.simps)
  next
    case False
    then obtain l where k: "k = Suc l" using "1.prems"(1) by (cases k) auto
    let ?q = "m div 2 ^ 64"
    let ?buf = "take (8 * l) buf @ be_bytes 8 m @ drop (8 * k) buf"
    have q: "?q < 2 ^ (64 * l)"
      using "1.prems"(1) by (simp add: k power_add less_mult_imp_div_less mult.commute)
    have b: "be_bytes 8 (unat (of_nat m :: u64)) = be_bytes 8 m"
    proof -
      have "be_nat (be_bytes 8 (unat (of_nat m :: u64))) = be_nat (be_bytes 8 m)"
        by (simp only: be_nat_be_bytes unat_of_nat) simp
      then show ?thesis by (metis be_bytes_be_nat length_be_bytes)
    qed
    have len: "8 * l \<le> length ?buf" using "1.prems"(2) by (simp add: k)
    obtain i where i: "i \<le> 8 * l" "?q < 256 ^ (8 * l - i)"
      "put_limbs (nat_limbs ?q) (8 * l) ?buf = Ret (i, take i ?buf @ be_bytes (8 * l - i) ?q @ drop (8 * l) ?buf)"
      using "1.IH" [OF False q len] by blast
    have "put_limbs (nat_limbs m) (8 * k) buf = put_limbs (nat_limbs ?q) (8 * l) ?buf"
      using False put_limb_bytes [of 8 "8 * k" buf "of_nat m"] "1.prems"(2) b
      by (simp add: nat_limbs.simps [of m] k)
    also have "\<dots> = Ret (i, take i buf @ be_bytes (8 * l - i) ?q @ be_bytes 8 m @ drop (8 * k) buf)"
      using i(1,3) "1.prems"(2) by (simp add: k min_def)
    finally have "put_limbs (nat_limbs m) (8 * k) buf = Ret (i, take i buf @ be_bytes (8 * l - i) ?q @ be_bytes 8 m @ drop (8 * k) buf)" .
    moreover have "be_bytes (8 * l - i) ?q @ be_bytes 8 m = be_bytes (8 * k - i) m"
      using be_bytes_add [of "8 * l - i" 8 m] i(1) by (simp add: k add.commute)
    ultimately have "put_limbs (nat_limbs m) (8 * k) buf = Ret (i, take i buf @ be_bytes (8 * k - i) m @ drop (8 * k) buf)"
      by (simp only: append_assoc [symmetric])
    moreover have "m < 256 ^ (8 * k - i)"
    proof -
      have "m < 256 ^ (8 * l - i) * 256 ^ 8"
        using i(2) by (simp add: div_less_iff_less_mult)
      also have "\<dots> = 256 ^ (8 * k - i)" using i(1) by (simp only: k power_add [symmetric]) (simp add: add.commute)
      finally show ?thesis .
    qed
    ultimately show ?thesis using i(1) by (intro exI [of _ i]) (simp add: k)
  qed
qed

lemma zero_below_bytes: "i \<le> length buf \<Longrightarrow> zero_below i buf = replicate i 0 @ drop i buf"
proof (induction i arbitrary: buf)
  case (Suc i)
  have "drop i (buf[i := 0]) = 0 # drop (Suc i) buf" using Suc.prems Cons_nth_drop_Suc [of i "buf[i := 0]"] by simp
  with Suc.IH [of "buf[i := 0]"] Suc.prems show ?case by (simp add: replicate_append_same [symmetric])
qed simp

lemma mstore_bytes:
  assumes "length buf = 32"
  shows "\<exists>i buf'. put_limbs (big_Bits (uint (v :: hash))) 32 buf = Ret (i, buf') \<and> zero_below i buf' = Hash_Bytes v"
proof -
  have bits: "big_Bits (uint v) = nat_limbs (unat v)"
    by (simp only: big_Bits_def abs_of_nonneg [OF uint_ge_0] unat_eq_nat_uint)
  have "unat v < 2 ^ (64 * 4)" using unat_hash_less [of v] by simp
  from put_limbs_bytes [OF this, of buf] assms obtain i where i: "i \<le> 32" "unat v < 256 ^ (32 - i)"
    "put_limbs (nat_limbs (unat v)) 32 buf = Ret (i, take i buf @ be_bytes (32 - i) (unat v))"
    by auto
  have "zero_below i (take i buf @ be_bytes (32 - i) (unat v)) = replicate i 0 @ be_bytes (32 - i) (unat v)"
    using assms i(1) by (simp add: zero_below_bytes)
  also have "\<dots> = Hash_Bytes v" using be_bytes_pad [OF i(2), of i] i(1) by (simp add: Hash_Bytes_def)
  finally show ?thesis using i(3) bits by auto
qed

section \<open>MSTORE and MLOAD\<close>

lemma opMStore_spec:
  assumes "mem_ok c" and "c_stack c = off # uint (v :: hash) # s" and "0 \<le> off"
    and "checkMemory X (c\<lparr>c_stack := s\<rparr>) off 32 = (ok, c1)"
  shows "opMStore X c = (if ok then Ret (c1\<lparr>c_memory := \<lparr>s_arr = list_put (s_arr (c_memory c1)) (nat off) (Hash_Bytes v),
      s_len = s_len (c_memory c1)\<rparr>\<rparr>) else Ret c1)"
proof (cases ok)
  case False
  with assms show ?thesis by (simp add: opMStore_def)
next
  case True
  note m = checkMemory_True [OF assms(4) [unfolded True [THEN eq_True [THEN iffD2]]]]
  have ok1: "mem_ok c1" using m(1) assms(1) by (simp add: mem_ok_def)
  have len: "nat off + 32 \<le> s_len (c_memory c1)" using m(2) assms(1) by (simp add: mem_ok_def)
  have le: "s_len (c_memory c1) \<le> length (s_arr (c_memory c1))" "s_len (c_memory c1) \<le> 2 ^ 41" using ok1 by (simp_all add: mem_ok_def s_ok_def)
  have o': "unat (big_Uint64 off) = nat off" using assms(3) len le by (intro unat_big_Uint64) auto
  let ?buf = "take 32 (drop (nat off) (s_arr (c_memory c1)))"
  have "length ?buf = 32" using len le by simp
  from mstore_bytes [OF this, of v] obtain i buf' where
    b: "put_limbs (big_Bits (uint v)) 32 ?buf = Ret (i, buf')" "zero_below i buf' = Hash_Bytes v" by blast
  have fit: "nat off + 32 \<le> length (s_arr (c_memory c1))" using len le by simp
  show ?thesis
    using assms(2,4) True fit b by (simp add: opMStore_def Let_def o' s_sub_def s_copy_def)
qed

lemma list_put_bytes:
  assumes "s_ok m" and "at + length bs \<le> s_len m"
  shows "s_ok (m\<lparr>s_arr := list_put (s_arr m) at bs\<rparr>)" and "s_bytes (m\<lparr>s_arr := list_put (s_arr m) at bs\<rparr>) = list_put (s_bytes m) at bs"
proof -
  from s_copy_bytes [OF assms(1), of "at + length bs" at bs] assms(2) obtain m' where
    "s_copy m at (at + length bs) bs = Ret m'" "s_ok m'" "s_bytes m' = list_put (s_bytes m) at bs" by auto
  then show "s_ok (m\<lparr>s_arr := list_put (s_arr m) at bs\<rparr>)" "s_bytes (m\<lparr>s_arr := list_put (s_arr m) at bs\<rparr>) = list_put (s_bytes m) at bs"
    by (auto simp: s_copy_def split: if_splits)
qed

text \<open>Reading within the memory costs nothing and gives the bytes that are there.\<close>

lemma checkMemory_guard:
  assumes "checkMemory X c off sz = (True, c')" and "sz \<noteq> 0"
  shows "big_IsUint64 off" and "big_Uint64 off \<le> 0xffffffffe0" and "big_IsUint64 sz" and "big_Uint64 sz \<le> 0xffffffffe0"
proof -
  have "big_IsUint64 off \<and> big_IsUint64 sz \<and> \<not> (0xffffffffe0 < big_Uint64 off \<or> 0xffffffffe0 < big_Uint64 sz)"
  proof (rule ccontr)
    assume "\<not> ?thesis"
    then have "\<not> fst (checkMemory X c off sz)" using assms(2) by (auto simp: checkMemory_def Let_def)
    with assms(1) show False by simp
  qed
  then show "big_IsUint64 off" "big_Uint64 off \<le> 0xffffffffe0" "big_IsUint64 sz" "big_Uint64 sz \<le> 0xffffffffe0"
    by (simp_all add: not_less)
qed

lemma checkMemory_within:
  assumes "mem_ok c" and "0 \<le> off" and "0 < sz" and "nat off + nat sz \<le> s_len (c_memory c)"
    and "big_Uint64 off \<le> 0xffffffffe0" and "big_Uint64 sz \<le> 0xffffffffe0"
  shows "checkMemory X c off sz = (True, c)"
proof -
  have l: "s_len (c_memory c) \<le> 2 ^ 41" using assms(1) by (simp add: mem_ok_def)
  have u: "big_IsUint64 off" "big_IsUint64 sz" using assms(2-4) l by (auto simp: big_IsUint64_def)
  have sum: "big_Uint64 off + big_Uint64 sz = of_nat (nat off + nat sz)" using assms(2,3) by (simp add: big_Uint64_def)
  have "\<not> (of_nat (s_len (c_memory c)) < (of_nat (nat off + nat sz) :: u64))"
    using assms(4) l u64_of_nat_less [of "s_len (c_memory c)" "nat off + nat sz"] by simp
  then show ?thesis
    using u assms(3) not_less [THEN iffD2, OF assms(5)] not_less [THEN iffD2, OF assms(6)]
    by (simp add: checkMemory_def Let_def sum del: of_nat_add)
qed

lemma opMload_within:
  assumes "mem_ok c" and "c_stack c = off # s" and "0 \<le> off" and "nat off + 32 \<le> s_len (c_memory c)"
    and "big_Uint64 off \<le> 0xffffffffe0"
  shows "opMload X c = Ret (c\<lparr>c_stack := big_SetBytes (take 32 (drop (nat off) (s_bytes (c_memory c)))) # s,
    c_tmp := take 32 (drop (nat off) (s_bytes (c_memory c)))\<rparr>)"
proof -
  let ?c = "c\<lparr>c_stack := s\<rparr>"
  have m: "mem_ok ?c" using assms(1) by (simp add: mem_ok_def)
  have cm: "checkMemory X ?c off 32 = (True, ?c)"
    using assms by (intro checkMemory_within) (simp_all add: mem_ok_def big_Uint64_def)
  have "get2 X ?c [] off 32 = Ret (take 32 (drop (nat off) (s_bytes (c_memory c))), True, ?c)"
    by (rule get2_cases [where X = X and off = off and len = 32 and dst = "[]", OF refl m]) (simp_all add: cm)
  then show ?thesis using assms(2) by (simp add: opMload_def push_def)
qed

text \<open>
  C23: A stored word can be loaded back. After a successful MSTORE of a word, the memory holds the 32
  big-endian bytes of the word at the offset and is otherwise the memory before it, extended with
  zeros; an MLOAD from the same offset costs no further gas and pushes the same word.
\<close>

theorem mstore_mload:
  fixes v :: hash
  assumes "mem_ok c" and "c_stack c = off # uint v # s" and "0 \<le> off"
    and "checkMemory X (c\<lparr>c_stack := s\<rparr>) off 32 = (True, c1)"
  shows "\<exists>c2. opMStore X c = Ret c2 \<and>
    s_bytes (c_memory c2) = list_put (s_bytes (c_memory c) @
      replicate (s_len (c_memory c2) - s_len (c_memory c)) 0) (nat off) (Hash_Bytes v) \<and>
    opMload X (c2\<lparr>c_stack := off # s'\<rparr>) = Ret (c2\<lparr>c_stack := uint v # s', c_tmp := Hash_Bytes v\<rparr>)"
proof -
  have mc: "mem_ok (c\<lparr>c_stack := s\<rparr>)" using assms(1) by (simp add: mem_ok_def)
  note m = checkMemory_True [OF assms(4) mc] and g = checkMemory_guard [OF assms(4)]
  let ?m = "(c_memory c1)\<lparr>s_arr := list_put (s_arr (c_memory c1)) (nat off) (Hash_Bytes v)\<rparr>"
  let ?c2 = "c1\<lparr>c_memory := ?m\<rparr>"
  have len: "nat off + 32 \<le> s_len (c_memory c1)" using m(2) by simp
  have "s_ok (c_memory c1)" using m(1) by (simp add: mem_ok_def)
  note put = list_put_bytes [OF this, of "nat off" "Hash_Bytes v"]
  have st: "opMStore X c = Ret ?c2" using opMStore_spec [OF assms] by (cases "c_memory c1") simp
  have b: "s_bytes ?m = list_put (s_bytes (c_memory c1)) (nat off) (Hash_Bytes v)" using put(2) len by simp
  have ok2: "mem_ok (?c2\<lparr>c_stack := off # s'\<rparr>)" using put(1) len m(1) by (simp add: mem_ok_def)
  have "take 32 (drop (nat off) (s_bytes ?m)) = Hash_Bytes v"
    unfolding b using list_put_same [of "nat off" "Hash_Bytes v" "s_bytes (c_memory c1)"] len m(1)
    by (simp add: mem_ok_def length_s_bytes)
  then have "opMload X (?c2\<lparr>c_stack := off # s'\<rparr>) = Ret (?c2\<lparr>c_stack := uint v # s', c_tmp := Hash_Bytes v\<rparr>)"
    using opMload_within [OF ok2, of off s' X] assms(3) len g(2) by (simp add: big_SetBytes_def)
  moreover have "s_bytes ?m = list_put (s_bytes (c_memory c) @ replicate (s_len ?m - s_len (c_memory c)) 0) (nat off) (Hash_Bytes v)"
    using b m(4) by simp
  ultimately show ?thesis using st by (intro exI [of _ ?c2]) simp
qed

lemma demo_mem: "mem_ok ((demo op args)\<lparr>c_stack := s\<rparr>)" "cost_ok ((demo op args)\<lparr>c_stack := s\<rparr>)"
    "c_memory (demo op args) = s_empty" "c_gas (demo op args) = 100" "mem_ok (demo op args)"
  by (simp_all add: demo_def new_state_def mem_ok_def cost_ok_def mem_cost_def NewContractCall_def NewContract_def)

theorem mstore_mload_witness:
  "\<forall>X. \<exists>c2. opMStore X (demo 0x52 [0, 42]) = Ret c2 \<and>
    s_bytes (c_memory c2) = list_put ([] @ replicate (s_len (c_memory c2) - 0) 0) (nat 0) (Hash_Bytes 42) \<and>
    opMload X (c2\<lparr>c_stack := [0]\<rparr>) = Ret (c2\<lparr>c_stack := [uint (42 :: hash)], c_tmp := Hash_Bytes 42\<rparr>)"
proof
  fix X
  let ?d = "demo 0x52 [0, 42]"
  obtain c1 where "checkMemory X (?d\<lparr>c_stack := []\<rparr>) 0 32 = (True, c1)"
    using checkMemory_charges [where X = X and off = 0 and sz = 32, OF demo_mem(1) [of "[]" "0x52" "[0, 42]"] demo_mem(2)] by (auto simp: demo_mem grown_def mem_cost_def)
  from mstore_mload [OF _ _ _ this, of 42 "[]"] show "\<exists>c2. opMStore X ?d = Ret c2 \<and>
    s_bytes (c_memory c2) = list_put ([] @ replicate (s_len (c_memory c2) - 0) 0) (nat 0) (Hash_Bytes 42) \<and>
    opMload X (c2\<lparr>c_stack := [0]\<rparr>) = Ret (c2\<lparr>c_stack := [uint (42 :: hash)], c_tmp := Hash_Bytes 42\<rparr>)"
    by (simp add: demo_fields demo_mem)
qed

text \<open>
  C24: Memory is paid for exactly. An access to \<open>size\<close> bytes at \<open>offset\<close> grows the memory to whole words
  that contain it (or leaves it), and takes the difference of the total costs \<open>3w + w\<^sup>2/512\<close> of the new and
  the old number of words, without overflow, as long as the memory stays below \<open>2\<^sup>3\<^sup>7\<close> bytes; if the gas does
  not cover it, the machine stops with an out-of-gas error.
\<close>

theorem memory_expansion:
  assumes "mem_ok c" and "cost_ok c" and "0 \<le> off" and "0 < sz" and "off \<le> 0xffffffffe0" and "sz \<le> 0xffffffffe0"
    and "grown (s_len (c_memory c)) (nat off + nat sz) < 2 ^ 37"
  shows "\<exists>c'. checkMemory X c off sz =
      (mem_cost (grown (s_len (c_memory c)) (nat off + nat sz) div 32) - mem_cost (s_len (c_memory c) div 32) \<le> unat (c_gas c), c') \<and>
    (if mem_cost (grown (s_len (c_memory c)) (nat off + nat sz) div 32) - mem_cost (s_len (c_memory c) div 32) \<le> unat (c_gas c)
     then s_len (c_memory c') = grown (s_len (c_memory c)) (nat off + nat sz) \<and>
       unat (c_gas c') = unat (c_gas c) -
         (mem_cost (grown (s_len (c_memory c)) (nat off + nat sz) div 32) - mem_cost (s_len (c_memory c) div 32)) \<and>
       cost_ok c'
     else c_stop c' \<and> c_err c' = Some ErrOutOfGas)"
  by (rule checkMemory_charges [OF assms])

theorem memory_expansion_witness:
  "\<forall>X. \<exists>c'. checkMemory X ((demo 0x51 [])\<lparr>c_stack := []\<rparr>) 33 1 = (True, c') \<and> s_len (c_memory c') = 64 \<and>
    unat (c_gas c') = 94"
proof
  fix X
  from memory_expansion [where X = X and off = 33 and sz = 1, OF demo_mem(1) [of "[]" "0x51" "[]"] demo_mem(2)]
  show "\<exists>c'. checkMemory X ((demo 0x51 [])\<lparr>c_stack := []\<rparr>) 33 1 = (True, c') \<and> s_len (c_memory c') = 64 \<and> unat (c_gas c') = 94"
    by (auto simp: demo_mem grown_def mem_cost_def)
qed

end
