(* ===== verification/Spec2Isabelle.thy ===== *)
theory Spec2Isabelle
  imports Example_State Itrie_Storage Helper_Keccak Evm_Names Example_World Transition_Calls Transition_Static Transition_Plain
    Transition_Checks Txn_Props Log_Slices Evm_Memory
begin

text \<open>
  A verification of \<open>eth-state-transition\<close>, a Go library that executes Ethereum transactions on a
  world state.

  \<^bold>\<open>The program.\<close> A \<open>Transition\<close> (\<open>src/transition.go\<close>) processes the transactions of one
  block. It checks a transaction, buys its gas, runs a call or a creation and settles gas and fees. The
  accounts it reads and writes are in a \<open>Txn\<close> (\<open>src/txn.go\<close>), a layer of
  immutable radix trees over a read-only snapshot, with numbered snapshots to revert to. Code runs in one of two runtimes: the
  precompiled contracts (\<open>src/runtime/precompiled\<close>) and the virtual machine
  (\<open>src/runtime/evm\<close>), which calls back into the transition through the interface
  \<open>runtime.Host\<close> to read and change the world and to start further calls.

  \<^bold>\<open>The theories\<close>, in the order of import:
  \<^item> \<open>Prelude\<close>: words, byte strings, Go slices with their capacity, and the outcome type
    \<open>go\<close> of Go code: \<open>Ret\<close> a value, \<open>Panic\<close> a run-time panic, \<open>NoFuel\<close> a model loop
    whose bound was too small. \<open>Big_Int\<close>: the operations of \<open>math/big\<close> the code uses.
  \<^item> \<open>Types\<close> (\<open>src/types/types.go\<close>, \<open>src/helper/hex.go\<close>): hashes and addresses as words,
    hexadecimal text. \<open>Runtime\<close> (\<open>src/runtime/runtime.go\<close>, \<open>src/runtime/params.go\<close>,
    \<open>src/helper/address.go\<close>, \<open>src/helper/keccak.go\<close>): the third-party code as a record
    \<open>ext\<close> of functions, forks, contracts, results, and \<open>host\<close>, the interface \<open>runtime.Host\<close> as a record of functions
    on an abstract world \<open>'w\<close>. \<open>Helper_Keccak\<close> (\<open>src/helper/keccak.go\<close>): the pool of hash objects,
    which refines the pure hash function the other theories use. \<open>Helper_Encoding\<close>
    (\<open>src/helper/encoding.go\<close>): numbers and bytes from text.
  \<^item> \<open>Evm_Bitmap\<close>, \<open>Evm_State\<close>, \<open>Evm_Instructions\<close>, \<open>Evm_Run\<close> (\<open>src/runtime/evm\<close>): jump
    destinations, the machine (stack of unbounded integers, memory with capacity, gas), one definition for
    each \<open>op...\<close> function, the dispatch table and the interpreter loop. \<open>Evm_Arith\<close> proves that arithmetic on
    unbounded integers implements words of 256 bits, \<open>Evm_Memory\<close> treats memory and its
    cost, \<open>Evm_Frame\<close> what an instruction leaves alone, \<open>Evm_Host\<close> and \<open>Evm_Gas\<close> what a run
    keeps of the world and of the gas, for every host that keeps a contract: these contracts are the locales
    \<open>host_frame\<close> and \<open>host_gas\<close>. \<open>Evm_Names\<close>: the names of opcodes.
  \<^item> \<open>Blake2f\<close>, \<open>Precompiled\<close> (\<open>src/runtime/precompiled\<close>): the nine precompiled contracts. \<open>Blake2f\<close> has the compression
    function of RFC 7693 as an independent reference, with its own constants, rotations and mixing function.
  \<^item> \<open>Txn\<close> (\<open>src/txn.go\<close>, \<open>src/state.go\<close>, \<open>src/account.go\<close>): the transient state. The
    radix trees are third-party code: a record of functions \<open>trees\<close> with the laws \<open>trees_ok\<close>, which
    \<open>Example_Trees\<close> satisfies with association lists. \<open>Txn_View\<close>: what all accessors
    show of an account, as one record. \<open>Txn_Props\<close>: its properties. \<open>Log_Slices\<close>: the logs at the level of Go
    slices, whose arrays snapshots share, and their agreement with the lists of \<open>Txn\<close> when reverts are properly nested, as they are in calls.
  \<^item> \<open>Transition\<close> (\<open>src/transition.go\<close>): transactions. \<open>Transition_Checks\<close>: the checks before
    one. \<open>Transition_Host\<close> (locale \<open>world\<close>), \<open>Transition_Tx\<close>, \<open>Transition_Calls\<close>,
    \<open>Transition_Static\<close>: the transition keeps the contracts that the machine expects of a host, by
    induction over the depth of calls. \<open>Block\<close>: sequences of transactions as an inductive relation.
    \<open>Transition_Plain\<close>: transfers to accounts without code.
    \<open>Example_World\<close>: a concrete transition and message that satisfy the hypotheses.
  \<^item> \<open>Itrie_Encoding\<close>, \<open>Itrie_Node\<close>, \<open>Itrie\<close> (\<open>encoding.go\<close>, \<open>node.go\<close>, \<open>trie.go\<close> of
    \<open>src/immutable-trie\<close>): keys as nibbles and their compact form, nodes with their cached hashes and
    decoding, and lookup, insertion and deletion. \<open>Itrie_Map\<close> abstracts a trie to the finite map of its
    entries, \<open>Itrie_Spec\<close> states the contract of a store of keys and values as the locale \<open>kv_store\<close> and
    interprets it on the trie, and \<open>Itrie_Canonical\<close> shows that the entries determine the shape of a trie.
  \<^item> \<open>Itrie_Hash\<close>, \<open>Itrie_Hash_Props\<close> (\<open>hasher.go\<close>): the root hash with the hashes cached in nodes, and
    the proof that the caches never go stale as the program uses them (a second interpretation of
    \<open>kv_store\<close>, with the caches in the invariant).
    \<open>Itrie_Binding\<close>: the root hash decides equality of maps as long as no encodings of nodes collide.
  \<^item> \<open>Account\<close> (\<open>src/account.go\<close>): the stored form of accounts. \<open>Itrie_State\<close>, \<open>Itrie_State_Props\<close>
    (\<open>storage.go\<close>, \<open>state_archive.go\<close>): snapshots and their commit over the cache of
    tries and a store of nodes and code, which is any record of functions \<open>storage_impl\<close>, as the source takes any \<open>Storage\<close>;
    the locale \<open>node_store\<close> has what a commit needs of it. \<open>Archive_Txn\<close>: the transient state of \<open>Txn\<close> over a snapshot of the archive, from the
    end of one block to the start of the next. \<open>Itrie_Storage\<close>: the contract of \<open>Storage\<close> as the locale
    \<open>storage\<close>, which is a \<open>node_store\<close>: a commit stores every node of the new tries. Its interpretations are on the storage in memory and on the
    one of \<open>src/immutable-trie/leveldb\<close>. \<open>Example_Rlp\<close> and \<open>Example_State\<close> satisfy the
    laws required of the RLP codec and the LRU cache with concrete functions.

  \<^bold>\<open>Correspondence.\<close> A struct is a record with the fields of the source, a method is a definition that takes and
  returns the state it changes. An error result is a value of an error type; a panic of the
  source, explicit or from a slice bound or a nil pointer, is a branch \<open>Panic\<close> of the
  model. The exception are the type assertions on entries of the radix tree in \<open>getStateObject\<close>, \<open>GetRefund\<close>, \<open>Logs\<close> and \<open>EmitLog\<close>: where
  they would fail the model has a default, and \<open>txn_types\<close> shows that they never do. A machine state from the pool starts without
  capacity in the model, while a reused one keeps the capacity of its memory; this matters only where the code slices memory beyond its
  length. Machine integers are words and wrap around; \<open>*big.Int\<close> is \<open>int\<close>. Go slices that the code re-slices up to
  their capacity keep it.

  \<^bold>\<open>Bounds and fuel.\<close> The interpreter loop has the gas plus one as its fuel. Each iteration takes at least
  one unit of gas or stops, except for opcodes of cost zero, which stop as well; \<open>Evm_Gas\<close> shows that
  a run does not end by fuel. Nested calls have 1025 levels, since \<open>applyCall\<close> and \<open>applyCreate\<close> refuse a depth above 1025.
  \<open>Write_terminates\<close> states that no transaction runs out of either, under EIP-150; before it,
  the gas given to a call can wrap around (see the findings of the manifest), so that gas is no bound. For the same reason the
  results on the supply, on the gas of a transaction and on the gas of a block have EIP-150 as a hypothesis.
  The recursions of the trie follow a key and have the fuel \<open>key_fuel\<close>, two levels for each nibble of the key and
  a constant; \<open>Itrie_Map\<close> shows that it is enough in every well-formed trie, so that the operations of
  \<open>kv_store\<close> are total.

  \<^bold>\<open>Sharing.\<close> Tries share nodes, and a transaction updates the nodes of its own epoch in place. The
  operations of the model return the new tree and, where the source writes into a node that the old trie
  may still reach, what that trie becomes; caching a hash in a node is such a write. In \<open>Itrie_State\<close> an older trie keeps its
  value, since such writes only concern caches there.

  \<^bold>\<open>The properties\<close> of this theory are about whole transactions and calls: money is not created, gas is accounted for,
  rejected transactions are undone, and so are failed calls except for the touched account of a call that could not be paid, static
  calls change nothing but that a touched account may come to exist, and every transition of a block satisfies the invariant. The properties of a single component stand in its theory.

  \<^bold>\<open>Not modelled.\<close> Third-party code (hashes, elliptic curves, RLP, radix trees, the LRU cache, the database) is a
  parameter, with the laws the code relies on as named hypotheses. The pools of arenas, parsers, big integers and
  buffers only reuse memory and are left out, and so are the debugging output \<open>Show\<close> and the test harness
  (\<open>src/testing.go\<close>, \<open>src/tests\<close>, \<open>src/runtime/precompiled/testing.go\<close>), which decodes fixtures and compares results.
\<close>

section \<open>Transactions\<close>

lemma supply_inv0: "supply_inv al_trees world0" and EIP150_world0: "EIP150 (tn_forks world0)"
  using gas_inv0 by (simp_all add: gas_inv_def)

text \<open>
  C1: With EIP-150 active, a transaction never creates money. Whatever contracts it runs, and whether it succeeds, fails or
  is rejected, the sum of all balances after \<open>Write\<close> is at most the sum before it. EIP-150 is needed: before it a call
  may ask for so much gas that the sum with its cost wraps around 64 bits, the caller ends with more gas than it had, and the
  sender is paid for the gas left.
\<close>

theorem Write_supply:
  assumes "supply_inv T t" and "EIP150 (tn_forks t)" and "msg_ok msg"
  shows "post (Write X T msg t) (\<lambda>(r, t'). total_supply T (tn_txn t') \<le> total_supply T (tn_txn t))"
  unfolding post_def
proof (intro allI impI, clarify)
  have inv: "gas_inv T t" using assms by (simp add: gas_inv_def)
  fix r t'
  assume w: "Write X T msg t = Ret (r, t')"
  show "total_supply T (tn_txn t') \<le> total_supply T (tn_txn t)"
  proof (cases r)
    case (Inl e)
    have a: "applyImpl X T msg t = Ret (Inl e, t')" using Write_cases(2) [OF inv assms(3)] w Inl by blast
    show ?thesis
      using applyImpl_cases [OF inv assms(3) a] total_supply_tree [of "tn_txn t'" "tn_txn t" T]
      by (simp add: same_block_def keeps_def)
  next
    case (Inr rc)
    then obtain res t1 where a: "applyImpl X T msg t = Ret (Inr res, t1)"
      and t': "txn_ok T (tn_txn t1) \<longrightarrow> total_supply T (tn_txn t') \<le> total_supply T (tn_txn t1)"
      using Write_cases(3) [OF inv assms(3)] w by blast
    show ?thesis using applyImpl_cases(2) [OF inv assms(3) a] t' by (simp add: settled_def)
  qed
qed

theorem Write_supply_witness:
  "supply_inv al_trees world0 \<and> EIP150 (tn_forks world0) \<and> msg_ok msg0 \<and>
   post (Write ext0 al_trees msg0 world0) (\<lambda>(r, t'). total_supply al_trees (tn_txn t') \<le> total_supply al_trees (tn_txn world0))"
  using Write_supply [OF supply_inv0 EIP150_world0 msg_ok0, of ext0] supply_inv0 EIP150_world0 msg_ok0 by simp

text \<open>
  C4: Every transaction terminates. The bounds of the model's loops, gas for the interpreter loop and
  1025 levels for nested calls, are never what ends an execution: with EIP-150 active and the
  invariant of the transition, \<open>Write\<close> does not run out of fuel.
\<close>

theorem Write_terminates:
  assumes "gas_inv T t" and "msg_ok msg"
  shows "Write X T msg t \<noteq> NoFuel"
  using Write_cases(1) [OF assms] by (auto simp: nofuel_def)

theorem Write_terminates_witness:
  "gas_inv al_trees world0 \<and> msg_ok msg0 \<and> Write ext0 al_trees msg0 world0 \<noteq> NoFuel"
  using Write_terminates [OF gas_inv0 msg_ok0, of ext0] gas_inv0 msg_ok0 by simp

text \<open>
  C3: A transaction that is rejected changes nothing of the state: when \<open>Write\<close> returns an error, the tree
  of objects, logs and refunds is the one before, the context and the gas used so far too. (The gas
  pool may have shrunk: the code does not give back what \<open>subGasPool\<close> took.)
\<close>

theorem Write_error:
  assumes "gas_inv T t" and "msg_ok msg"
  shows "post (Write X T msg t) (\<lambda>(r, t'). (\<exists>e. r = Inl e) \<longrightarrow>
    txn_txn (tn_txn t') = txn_txn (tn_txn t) \<and> txn_snapshot (tn_txn t') = txn_snapshot (tn_txn t) \<and>
    tn_ctx t' = tn_ctx t \<and> tn_totalGas t' = tn_totalGas t \<and> tn_forks t' = tn_forks t \<and> tn_runtimes t' = tn_runtimes t)"
  unfolding post_def
proof (intro allI impI, clarify)
  fix t' e
  assume "Write X T msg t = Ret (Inl e, t')"
  then have a: "applyImpl X T msg t = Ret (Inl e, t')" using Write_cases(2) [OF assms] by blast
  show "txn_txn (tn_txn t') = txn_txn (tn_txn t) \<and> txn_snapshot (tn_txn t') = txn_snapshot (tn_txn t) \<and>
    tn_ctx t' = tn_ctx t \<and> tn_totalGas t' = tn_totalGas t \<and> tn_forks t' = tn_forks t \<and> tn_runtimes t' = tn_runtimes t"
    using applyImpl_cases [OF assms a] by (simp add: same_block_def keeps_def)
qed

theorem Write_error_witness:
  "gas_inv al_trees world0 \<and> msg_ok (msg0\<lparr>msg_Nonce := 7\<rparr>) \<and>
   post (Write ext0 al_trees (msg0\<lparr>msg_Nonce := 7\<rparr>) world0) (\<lambda>(r, t'). (\<exists>e. r = Inl e) \<longrightarrow>
    txn_txn (tn_txn t') = txn_txn (tn_txn world0) \<and> txn_snapshot (tn_txn t') = txn_snapshot (tn_txn world0) \<and>
    tn_ctx t' = tn_ctx world0 \<and> tn_totalGas t' = tn_totalGas world0 \<and> tn_forks t' = tn_forks world0 \<and>
    tn_runtimes t' = tn_runtimes world0)"
proof -
  have "msg_ok (msg0\<lparr>msg_Nonce := 7\<rparr>)" by (simp add: msg_ok_def msg0_def)
  then show ?thesis using Write_error [OF gas_inv0, of "msg0\<lparr>msg_Nonce := 7\<rparr>" ext0] gas_inv0 by blast
qed

text \<open>
  C2: Gas accounting of an executed transaction, with EIP-150 active: the gas used is at most the gas limit of the
  transaction and at least half of its intrinsic cost, which was covered by that limit; the pool of the
  block shrinks by exactly the gas used, and the total grows by it.
\<close>

theorem Write_gas:
  assumes "supply_inv T t" and "EIP150 (tn_forks t)" and "msg_ok msg"
  shows "post (Write X T msg t) (\<lambda>(r, t'). \<forall>rc. r = Inr rc \<longrightarrow>
    rc_GasUsed rc \<le> msg_Gas msg \<and> msg_Gas msg \<le> tn_gasPool t \<and> tn_gasPool t' = tn_gasPool t - rc_GasUsed rc \<and>
    tn_totalGas t' = tn_totalGas t + rc_GasUsed rc \<and>
    (\<exists>cost. TransactionGasCost msg (Homestead (tn_forks t)) (Istanbul (tn_forks t)) = Inr cost \<and>
      cost \<le> msg_Gas msg \<and> unat cost \<le> 2 * unat (rc_GasUsed rc)))"
  unfolding post_def
proof (intro allI impI, clarify)
  have inv: "gas_inv T t" using assms by (simp add: gas_inv_def)
  fix t' rc
  assume "Write X T msg t = Ret (Inr rc, t')"
  then obtain res t1 where a: "applyImpl X T msg t = Ret (Inr res, t1)" and "rc_GasUsed rc = res_GasUsed res"
    and "tn_totalGas t' = tn_totalGas t1 + res_GasUsed res" and "tn_gasPool t' = tn_gasPool t1"
    using Write_cases(3) [OF inv assms(3)] by blast
  moreover have "settled T msg t res t1" "tn_totalGas t1 = tn_totalGas t"
    using applyImpl_cases [OF inv assms(3) a] by (simp_all add: same_block_def keeps_def)
  ultimately show "rc_GasUsed rc \<le> msg_Gas msg \<and> msg_Gas msg \<le> tn_gasPool t \<and> tn_gasPool t' = tn_gasPool t - rc_GasUsed rc \<and>
    tn_totalGas t' = tn_totalGas t + rc_GasUsed rc \<and>
    (\<exists>cost. TransactionGasCost msg (Homestead (tn_forks t)) (Istanbul (tn_forks t)) = Inr cost \<and>
      cost \<le> msg_Gas msg \<and> unat cost \<le> 2 * unat (rc_GasUsed rc))"
    by (auto simp: settled_def word_le_nat_alt)
qed

theorem Write_gas_witness:
  "supply_inv al_trees world0 \<and> EIP150 (tn_forks world0) \<and> msg_ok msg0 \<and>
   post (Write ext0 al_trees msg0 world0) (\<lambda>(r, t'). \<forall>rc. r = Inr rc \<longrightarrow>
    rc_GasUsed rc \<le> msg_Gas msg0 \<and> msg_Gas msg0 \<le> tn_gasPool world0 \<and> tn_gasPool t' = tn_gasPool world0 - rc_GasUsed rc \<and>
    tn_totalGas t' = tn_totalGas world0 + rc_GasUsed rc \<and>
    (\<exists>cost. TransactionGasCost msg0 (Homestead (tn_forks world0)) (Istanbul (tn_forks world0)) = Inr cost \<and>
      cost \<le> msg_Gas msg0 \<and> unat cost \<le> 2 * unat (rc_GasUsed rc)))"
  using Write_gas [OF supply_inv0 EIP150_world0 msg_ok0, of ext0] supply_inv0 EIP150_world0 msg_ok0 by blast

text \<open>
  C10: Every transition that a block can reach (a new one, then any sequence of transactions, rewards
  and changes of the hash function) satisfies the invariant on which the other results rest: trees
  well typed, in the current state and in every snapshot, context and forks unchanged in what matters.
  So no transaction of a block can run out of the model's fuel.
\<close>

theorem block_invariant:
  assumes "reachable X T forks ctx snap t" and "trees_ok T" and "ctx_ok ctx" and "EIP150 forks" and "msg_ok msg"
  shows "gas_inv T t \<and> Write X T msg t \<noteq> NoFuel"
  using reachable_inv [OF assms(1-4)] Write_cases(1) [OF _ assms(5)] by (auto simp: nofuel_def)

theorem block_invariant_witness:
  "reachable ext0 al_trees (Forks_At AllForksEnabled 1) ctx0 snap0 world0 \<and>
   gas_inv al_trees world0 \<and> Write ext0 al_trees msg0 world0 \<noteq> NoFuel"
  using block_invariant [OF reachable0 trees_ok_al ctx_ok0 EIP150_0 msg_ok0] reachable0 by simp

text \<open>
  C11: With EIP-150 active, the transactions of a block never use more gas than the block allows: gas used so far and gas left
  in the pool add up to at most the gas limit. (Before EIP-150 a transaction may return more gas to the pool than it took.)
\<close>

theorem block_gas_limit:
  assumes "reachable X T forks ctx snap t" and "trees_ok T" and "ctx_ok ctx" and "EIP150 forks"
  shows "unat (tn_totalGas t) + unat (tn_gasPool t) \<le> unat (tx_GasLimit ctx)"
  using reachable_inv [OF assms] by blast

theorem block_gas_limit_witness:
  "reachable ext0 al_trees (Forks_At AllForksEnabled 1) ctx0 snap0 world0 \<and>
   unat (tn_totalGas world0) + unat (tn_gasPool world0) \<le> unat (tx_GasLimit ctx0)"
  using block_gas_limit [OF reachable0 trees_ok_al ctx_ok0 EIP150_0] reachable0 by simp

section \<open>Calls and creations\<close>

text \<open>
  C6: A failed call is undone. If a call of any type ends with an error, at any depth and whatever the
  code did before, the tree of objects, logs and refund afterwards is the one before the call. The one exception is a call of
  type \<open>Call\<close> whose value the caller cannot pay: it ends before any code runs, and leaves the called account touched.
\<close>

theorem call_failure_restores:
  assumes "supply_inv T t" and "value_ok c"
  shows "post (applyCall X T (Transition_host X T) c callType t) (\<lambda>(r, t'). Failed r \<longrightarrow>
    txn_txn (tn_txn t') =
      (if callType = Call \<and> ct_Depth c \<le> 1025 \<and> \<not> funded T c t
       then txn_txn (Txn_TouchAccount X T (ct_Address c) (tn_txn t)) else txn_txn (tn_txn t)))"
  using assms by (rule applyCall_undone)

definition call0 :: contract where
  "call0 = NewContractCall 1 0xaa 0xaa 0xbb (Some 5) 1000 [0xfe] []"

lemma funded0: "funded al_trees call0 world0"
  by (simp add: funded_def call0_def NewContractCall_def NewContract_def world0_fields)

theorem call_failure_restores_witness:
  "supply_inv al_trees world0 \<and> value_ok call0 \<and>
   post (applyCall ext0 al_trees (Transition_host ext0 al_trees) call0 Call world0)
    (\<lambda>(r, t'). Failed r \<longrightarrow> txn_txn (tn_txn t') = txn_txn (tn_txn world0))"
  using call_failure_restores [OF supply_inv0 funded_value_ok [OF funded0], of ext0 Call] supply_inv0 funded_value_ok [OF funded0] funded0
  by simp



text \<open>
  C8: A static call (one that sends no value) changes nothing that the accessors of the state show, with one exception: an account that did not exist may
  exist afterwards, because calling it touches it; it is then empty, with the hash of the empty code. Existence, balance, nonce, code, code hash,
  suicide, current and committed storage of every other account, emptiness of every account, the refund and the logs are
  the same after it, whether it succeeds or fails, through all the calls it makes.
\<close>

theorem static_call_unseen:
  assumes "supply_inv T t" and "snapshot_ok X (txn_snapshot (tn_txn t))" and "value_ok c" and "ct_Static c"
    and "callType = Call \<Longrightarrow> ct_Value c = Some 0"
  shows "post (applyCall X T (Transition_host X T) c callType t) (\<lambda>(r, t'). same_view X T (tn_txn t) (tn_txn t'))"
  by (rule applyCall_static) (use assms in \<open>simp_all add: static_inv_def\<close>)

theorem static_call_unseen_witness:
  "snapshot_ok ext0 (txn_snapshot (tn_txn world0)) \<and>
   post (applyCall ext0 al_trees (Transition_host ext0 al_trees) (call0\<lparr>ct_Static := True, ct_Value := None\<rparr>) StaticCall world0)
    (\<lambda>(r, t'). same_view ext0 al_trees (tn_txn world0) (tn_txn t'))"
proof -
  have s: "snapshot_ok ext0 (txn_snapshot (tn_txn world0))"
    by (simp add: snapshot_ok_def world0_def NewTransition_def SetRuntime_def newTxn_def snap0_def)
  have "value_ok (call0\<lparr>ct_Static := True, ct_Value := None\<rparr>)" by (simp add: value_ok_def)
  from static_call_unseen [OF supply_inv0 s this, of StaticCall] s show ?thesis by simp
qed

text \<open>
  C9: With EIP-150 active, a call or a creation never returns more gas than it was given and always ends, for every contract at every depth
  from 1 on: the stipend of a value transfer is covered by the cost of the transfer,
  and the refusal of calls deeper than 1025 bounds the recursion. The host answers \<open>d\<close> further levels of calls; in a
  transaction a contract at depth \<open>k\<close> runs with \<open>d = 1026 - k\<close>.
\<close>

theorem call_gas_bounded:
  assumes "supply_inv T t" and "EIP150 (tn_forks t)" and "value_ok c" and "1026 \<le> d + ct_Depth c"
  shows "applyCall X T (host_of X T (callx_n X T d)) c callType t \<noteq> NoFuel \<and>
    post (applyCall X T (host_of X T (callx_n X T d)) c callType t) (\<lambda>(r, t'). res_GasLeft r \<le> ct_Gas c) \<and>
    applyCreate X T (host_of X T (callx_n X T d)) c t \<noteq> NoFuel \<and>
    post (applyCreate X T (host_of X T (callx_n X T d)) c t) (\<lambda>(r, t'). res_GasLeft r \<le> ct_Gas c)"
proof -
  have "gas_inv T t" using assms(1,2) by (simp add: gas_inv_def)
  from apply_within [OF this assms(3,4)] show ?thesis by (simp add: metered.within_def nofuel_def)
qed

theorem call_gas_bounded_witness:
  "supply_inv al_trees world0 \<and> EIP150 (tn_forks world0) \<and> value_ok (call0\<lparr>ct_Depth := 7\<rparr>) \<and>
   applyCall ext0 al_trees (host_of ext0 al_trees (callx_n ext0 al_trees 1019)) (call0\<lparr>ct_Depth := 7\<rparr>) DelegateCall world0 \<noteq> NoFuel \<and>
   post (applyCall ext0 al_trees (host_of ext0 al_trees (callx_n ext0 al_trees 1019)) (call0\<lparr>ct_Depth := 7\<rparr>) DelegateCall world0)
     (\<lambda>(r, t'). res_GasLeft r \<le> 1000)"
proof -
  have g: "ct_Gas (call0\<lparr>ct_Depth := 7\<rparr>) = 1000" by (simp add: call0_def NewContractCall_def NewContract_def)
  have "value_ok (call0\<lparr>ct_Depth := 7\<rparr>)" using funded_value_ok [OF funded0] by (simp add: value_ok_def)
  from call_gas_bounded [OF supply_inv0 EIP150_world0 this, of 1019 ext0 DelegateCall] this g supply_inv0 EIP150_world0
  show ?thesis by simp
qed

end
